(* ===== verification/Prelude.thy ===== *)
theory Prelude
  imports Complex_Main "HOL-Library.AList" "HOL-Library.Multiset" "HOL-Library.Sublist"
begin

text \<open>
  What the components share: the exceptions of the code as a datatype, code with effects as
  functions from a state to a result and a state, Python dictionaries with their insertion
  order, bounded deques, and the removal of the first equal element of a list.
\<close>

named_theorems effect_simps "how the effect combinators compute"
named_theorems dict_simps "lookups and updates of Python dictionaries"

section \<open>Exceptions and effects\<close>

text \<open>
  One constructor per exception class the modelled code raises, catches or passes on.
  \<open>RedisError\<close> and \<open>DatabaseError\<close> stand for the failures of the two clients.
\<close>

datatype exn =
    RedisError
  | DatabaseError
  | IntegrityError
  | ProtocolError
  | UnicodeDecodeError
  | JSONDecodeError
  | QueueFull
  | HTTPException int
  | WebSocketDisconnect int
  | ValueError
  | TypeError
  | AttributeError
  | KeyError
  | RuntimeError
  | OverflowError
  | OSError
  | FileNotFoundError

text \<open>
  Code with effects takes the state and returns its result, an exception or a value,
  and the state it leaves. What was done before an exception stays done.
\<close>

type_synonym ('s, 'a) eff = "'s \<Rightarrow> (exn + 'a) \<times> 's"

definition returnE :: "'a \<Rightarrow> ('s, 'a) eff" where
  "returnE x s = (Inr x, s)"

definition raiseE :: "exn \<Rightarrow> ('s, 'a) eff" where
  "raiseE e s = (Inl e, s)"

definition bindE :: "('s, 'a) eff \<Rightarrow> ('a \<Rightarrow> ('s, 'b) eff) \<Rightarrow> ('s, 'b) eff" where
  "bindE m f s = (case m s of (Inl e, s') \<Rightarrow> (Inl e, s') | (Inr x, s') \<Rightarrow> f x s')"

definition thenE :: "('s, 'a) eff \<Rightarrow> ('s, 'b) eff \<Rightarrow> ('s, 'b) eff" where
  "thenE m k = bindE m (\<lambda>_. k)"

text \<open>\<open>try: m except Exception as e: h e\<close>\<close>

definition tryE :: "('s, 'a) eff \<Rightarrow> (exn \<Rightarrow> ('s, 'a) eff) \<Rightarrow> ('s, 'a) eff" where
  "tryE m h s = (case m s of (Inl e, s') \<Rightarrow> h e s' | (Inr x, s') \<Rightarrow> (Inr x, s'))"

definition getE :: "('s, 's) eff" where
  "getE s = (Inr s, s)"

definition modifyE :: "('s \<Rightarrow> 's) \<Rightarrow> ('s, unit) eff" where
  "modifyE f s = (Inr (), f s)"

text \<open>Code that works on one field of a larger state.\<close>

definition zoomE :: "('w \<Rightarrow> 's) \<Rightarrow> ('s \<Rightarrow> 'w \<Rightarrow> 'w) \<Rightarrow> ('s, 'a) eff \<Rightarrow> ('w, 'a) eff" where
  "zoomE get_part set_part m w = (case m (get_part w) of (r, s) \<Rightarrow> (r, set_part s w))"

lemma returnE_apply [effect_simps]: "returnE x s = (Inr x, s)"
  by (simp add: returnE_def)

lemma raiseE_apply [effect_simps]: "raiseE e s = (Inl e, s)"
  by (simp add: raiseE_def)

lemma getE_apply [effect_simps]: "getE s = (Inr s, s)"
  by (simp add: getE_def)

lemma modifyE_apply [effect_simps]: "modifyE f s = (Inr (), f s)"
  by (simp add: modifyE_def)

lemma bindE_apply [effect_simps]:
  "bindE m f s = (case m s of (Inl e, s') \<Rightarrow> (Inl e, s') | (Inr x, s') \<Rightarrow> f x s')"
  by (simp add: bindE_def)

lemma thenE_apply [effect_simps]:
  "thenE m k s = (case m s of (Inl e, s') \<Rightarrow> (Inl e, s') | (Inr x, s') \<Rightarrow> k s')"
  by (simp add: thenE_def bindE_def split: sum.splits prod.splits)

lemma tryE_apply [effect_simps]:
  "tryE m h s = (case m s of (Inl e, s') \<Rightarrow> h e s' | (Inr x, s') \<Rightarrow> (Inr x, s'))"
  by (simp add: tryE_def)

lemma zoomE_apply [effect_simps]:
  "zoomE g p m w = (case m (g w) of (r, s) \<Rightarrow> (r, p s w))"
  by (simp add: zoomE_def)

lemma bindE_Inr_iff:
  "bindE m f s = (Inr y, t) \<longleftrightarrow> (\<exists>x u. m s = (Inr x, u) \<and> f x u = (Inr y, t))"
  by (auto simp: bindE_def split: sum.splits prod.splits)

lemma thenE_Inr_iff:
  "thenE m k s = (Inr y, t) \<longleftrightarrow> (\<exists>x u. m s = (Inr x, u) \<and> k u = (Inr y, t))"
  by (auto simp: thenE_def bindE_Inr_iff)

text \<open>The exceptions a piece of code can raise.\<close>

definition raises_in :: "exn set \<Rightarrow> ('s, 'a) eff \<Rightarrow> bool" where
  "raises_in E f \<longleftrightarrow> (\<forall>s e s'. f s = (Inl e, s') \<longrightarrow> e \<in> E)"

named_theorems raises_intros

lemma raises_inD: "raises_in E f \<Longrightarrow> f s = (Inl e, s') \<Longrightarrow> e \<in> E"
  by (auto simp: raises_in_def)

lemma raises_return [raises_intros]: "raises_in E (returnE x)"
  and raises_modify [raises_intros]: "raises_in E (modifyE f)"
  by (simp_all add: raises_in_def returnE_def modifyE_def)

lemma raises_raise [raises_intros]: "e \<in> E \<Longrightarrow> raises_in E (raiseE e)"
  by (simp add: raises_in_def raiseE_def)

lemma raises_bind [raises_intros]:
  "raises_in E m \<Longrightarrow> (\<And>x. raises_in E (f x)) \<Longrightarrow> raises_in E (bindE m f)"
  unfolding raises_in_def bindE_apply by (fastforce split: sum.splits prod.splits)

lemma raises_then [raises_intros]: "raises_in E m \<Longrightarrow> raises_in E k \<Longrightarrow> raises_in E (thenE m k)"
  unfolding thenE_def by (rule raises_bind)

lemma raises_try [raises_intros]: "(\<And>e. raises_in E (h e)) \<Longrightarrow> raises_in E (tryE m h)"
  unfolding raises_in_def tryE_apply by (fastforce split: sum.splits prod.splits)

lemmas effect_splits = sum.splits prod.splits option.splits

section \<open>Python dictionaries\<close>

text \<open>
  A dictionary keeps its keys in the order of their first insertion and an assignment to a
  key that is present keeps its place: exactly \<open>AList.update\<close> on an association list.
\<close>

type_synonym 'v pydict = "(string \<times> 'v) list"

definition dict_get :: "'v pydict \<Rightarrow> string \<Rightarrow> 'v option" where
  "dict_get d k = map_of d k"

definition dict_set :: "'v pydict \<Rightarrow> string \<Rightarrow> 'v \<Rightarrow> 'v pydict" where
  "dict_set d k v = AList.update k v d"

definition dict_get_or :: "'v pydict \<Rightarrow> string \<Rightarrow> 'v \<Rightarrow> 'v" where
  "dict_get_or d k v = (case dict_get d k of None \<Rightarrow> v | Some x \<Rightarrow> x)"

lemma dict_get_Nil [dict_simps]: "dict_get [] k = None"
  by (simp add: dict_get_def)

lemma dict_get_Cons [dict_simps]:
  "dict_get ((k', v) # d) k = (if k' = k then Some v else dict_get d k)"
  by (simp add: dict_get_def)

lemma dict_get_set [dict_simps]:
  "dict_get (dict_set d k v) k' = (if k' = k then Some v else dict_get d k')"
  by (simp add: dict_get_def dict_set_def update_conv')

lemma dict_get_or_set [dict_simps]:
  "dict_get_or (dict_set d k v) k' w = (if k' = k then v else dict_get_or d k' w)"
  by (simp add: dict_get_or_def dict_simps)

lemma dict_set_Nil [dict_simps]: "dict_set [] k v = [(k, v)]"
  by (simp add: dict_set_def)

lemma dict_set_Cons [dict_simps]:
  "dict_set ((k', w) # d) k v = (if k' = k then (k, v) # d else (k', w) # dict_set d k v)"
  by (simp add: dict_set_def)

lemma distinct_keys_dict_set: "distinct (map fst d) \<Longrightarrow> distinct (map fst (dict_set d k v))"
  by (simp add: dict_set_def distinct_update)

section \<open>Bounded deques\<close>

text \<open>
  \<open>collections.deque(maxlen=n)\<close>, oldest element first: \<open>append\<close> drops from the front
  whatever does not fit.
\<close>

definition deque_append :: "nat \<Rightarrow> 'a list \<Rightarrow> 'a \<Rightarrow> 'a list" where
  "deque_append n xs x = drop (Suc (length xs) - n) (xs @ [x])"

text \<open>The last \<open>n\<close> elements of a list.\<close>

definition last_n :: "nat \<Rightarrow> 'a list \<Rightarrow> 'a list" where
  "last_n n xs = drop (length xs - n) xs"

lemma length_deque_append: "length (deque_append n xs x) = min n (Suc (length xs))"
  by (auto simp: deque_append_def)

lemma length_deque_append_le: "length (deque_append n xs x) \<le> n"
  by (simp add: length_deque_append)

lemma deque_append_room: "length xs < n \<Longrightarrow> deque_append n xs x = xs @ [x]"
  by (simp add: deque_append_def)

lemma deque_append_full: "length xs = n \<Longrightarrow> 0 < n \<Longrightarrow> deque_append n xs x = tl xs @ [x]"
  by (cases xs) (auto simp: deque_append_def)

lemma length_last_n: "length (last_n n xs) = min n (length xs)"
  by (simp add: last_n_def)

lemma last_n_snoc: "deque_append n (last_n n xs) x = last_n n (xs @ [x])"
proof (cases "length xs < n")
  case True
  then show ?thesis by (simp add: deque_append_def last_n_def)
next
  case False
  then show ?thesis
    by (cases n) (auto simp: deque_append_def last_n_def Suc_diff_Suc)
qed

lemma map_deque_append: "map f (deque_append n xs x) = deque_append n (map f xs) (f x)"
  by (simp add: deque_append_def drop_map [symmetric])

lemma set_deque_append: "set (deque_append n xs x) \<subseteq> insert x (set xs)"
proof
  fix y
  assume "y \<in> set (deque_append n xs x)"
  then have "y \<in> set (xs @ [x])"
    unfolding deque_append_def by (rule in_set_dropD)
  then show "y \<in> insert x (set xs)" by simp
qed

lemma suffix_deque_append: "suffix (deque_append n xs x) (xs @ [x])"
  unfolding deque_append_def by (rule suffix_drop)

text \<open>A deque with an optional bound: \<open>maxlen=None\<close> is unbounded.\<close>

definition py_deque_append :: "nat option \<Rightarrow> 'a list \<Rightarrow> 'a \<Rightarrow> 'a list" where
  "py_deque_append m xs x = (case m of None \<Rightarrow> xs @ [x] | Some n \<Rightarrow> deque_append n xs x)"

definition last_opt :: "nat option \<Rightarrow> 'a list \<Rightarrow> 'a list" where
  "last_opt m xs = (case m of None \<Rightarrow> xs | Some n \<Rightarrow> last_n n xs)"

lemma suffix_py_deque_append: "suffix (py_deque_append m xs x) (xs @ [x])"
  by (cases m) (simp_all only: py_deque_append_def option.case suffix_deque_append suffix_order.refl)

lemma last_opt_snoc: "py_deque_append m (last_opt m xs) x = last_opt m (xs @ [x])"
  by (simp add: py_deque_append_def last_opt_def last_n_snoc split: option.splits)

lemma last_opt_Nil [simp]: "last_opt m [] = []"
  by (simp add: last_opt_def last_n_def split: option.splits)

lemma suffix_last_opt: "suffix (last_opt m xs) xs"
  by (simp add: last_opt_def last_n_def suffix_drop split: option.splits)

lemma set_last_opt: "set (last_opt m xs) \<subseteq> set xs"
  using suffix_last_opt by (rule set_mono_suffix)

section \<open>Removing the first equal element\<close>

lemma mset_remove1_if: "mset (remove1 x xs) = mset xs - {#x#}"
  by (rule mset_remove1)

lemma count_list_append_drop: "count_list (drop n xs) y \<le> count_list xs y"
proof -
  have "count_list xs y = count_list (take n xs) y + count_list (drop n xs) y"
    by (metis append_take_drop_id count_list_append)
  then show ?thesis by simp
qed

lemma count_list_filter: "count_list xs y = length (filter ((=) y) xs)"
  by (induction xs) auto

end
