(* ===== verification/PyText.thy ===== *)
theory PyText
  imports Prelude "HOL-Library.Char_ord"
begin

text \<open>
  Python strings and the values of \<open>json\<close>. A string is a list of characters; the case
  mappings, \<open>isspace\<close> and the like are those of ASCII text, which is what the keywords, levels,
  keys and addresses of the program are made of. The other characters are left alone by
  \<open>upper\<close> and \<open>lower\<close>, and \<open>str_is_ascii\<close> tells the strings that have them.

  \<open>json.dumps\<close> writes equal texts for equal dictionaries with the same key order and different
  texts for different ones, and \<open>json.loads\<close> reads back what \<open>dumps\<close> wrote (string keys, finite
  floats). So the text of a JSON value is represented by the value itself; a text that
  \<open>json.loads\<close> rejects is a \<open>RawText\<close>.
\<close>

section \<open>Case, membership, white space\<close>

definition char_upper :: "char \<Rightarrow> char" where
  "char_upper c = (if CHR ''a'' \<le> c \<and> c \<le> CHR ''z'' then char_of (of_char c - 32 :: nat) else c)"

definition char_lower :: "char \<Rightarrow> char" where
  "char_lower c = (if CHR ''A'' \<le> c \<and> c \<le> CHR ''Z'' then char_of (of_char c + 32 :: nat) else c)"

definition str_upper :: "string \<Rightarrow> string" where
  "str_upper s = map char_upper s"

definition str_lower :: "string \<Rightarrow> string" where
  "str_lower s = map char_lower s"

text \<open>\<open>needle in haystack\<close>\<close>

definition str_contains :: "string \<Rightarrow> string \<Rightarrow> bool" where
  "str_contains needle haystack = sublist needle haystack"

definition char_is_space :: "char \<Rightarrow> bool" where
  "char_is_space c = (let n = (of_char c :: nat) in n = 32 \<or> 9 \<le> n \<and> n \<le> 13 \<or> 28 \<le> n \<and> n \<le> 31)"

definition str_rstrip_by :: "(char \<Rightarrow> bool) \<Rightarrow> string \<Rightarrow> string" where
  "str_rstrip_by p s = rev (dropWhile p (rev s))"

definition str_strip :: "string \<Rightarrow> string" where
  "str_strip s = str_rstrip_by char_is_space (dropWhile char_is_space s)"

definition str_is_ascii :: "string \<Rightarrow> bool" where
  "str_is_ascii s = list_all (\<lambda>c. (of_char c :: nat) < 128) s"

text \<open>The truth value of an optional string: \<open>None\<close> and the empty string are false.\<close>

definition truthy :: "string option \<Rightarrow> bool" where
  "truthy x = (case x of None \<Rightarrow> False | Some s \<Rightarrow> s \<noteq> [])"

text \<open>\<open>s.split(sep)\<close> for a one-character separator.\<close>

fun str_split :: "char \<Rightarrow> string \<Rightarrow> string list" where
  "str_split sep [] = [[]]"
| "str_split sep (c # s) = (if c = sep then [] # str_split sep s
     else case str_split sep s of [] \<Rightarrow> [[c]] | w # ws \<Rightarrow> (c # w) # ws)"

text \<open>Decimal digits, and the number a text of digits stands for.\<close>

definition is_digit :: "char \<Rightarrow> bool" where "is_digit c \<longleftrightarrow> c \<in> set ''0123456789''"

fun digits_value :: "int \<Rightarrow> string \<Rightarrow> int" where
  "digits_value acc [] = acc"
| "digits_value acc (c # s) = digits_value (10 * acc + (int (of_char c) - 48)) s"

text \<open>\<open>str\<close> of an integer.\<close>

fun str_of_nat :: "nat \<Rightarrow> string" where
  "str_of_nat n = (if n < 10 then [char_of (48 + n)] else str_of_nat (n div 10) @ [char_of (48 + n mod 10)])"

declare str_of_nat.simps [simp del]

definition str_of_int :: "int \<Rightarrow> string" where
  "str_of_int i = (if i < 0 then CHR ''-'' # str_of_nat (nat (- i)) else str_of_nat (nat i))"

lemma truthy_simps [simp]: "\<not> truthy None" "truthy (Some s) \<longleftrightarrow> s \<noteq> []"
  by (simp_all add: truthy_def)

lemma str_upper_simps [simp]: "str_upper [] = []" "str_upper (c # s) = char_upper c # str_upper s"
  by (simp_all add: str_upper_def)

lemma str_lower_simps [simp]: "str_lower [] = []" "str_lower (c # s) = char_lower c # str_lower s"
  by (simp_all add: str_lower_def)

lemma length_str_upper [simp]: "length (str_upper s) = length s"
  by (simp add: str_upper_def)

lemma of_char_char_upper:
  "(of_char (char_upper c) :: nat) =
     (if 97 \<le> (of_char c :: nat) \<and> (of_char c :: nat) \<le> 122 then of_char c - 32 else of_char c)"
proof -
  have "(of_char c :: nat) < 256" by simp
  then have "(of_char c - 32 :: nat) mod 256 = of_char c - 32" by (intro mod_less) linarith
  then show ?thesis
    by (auto simp: char_upper_def less_eq_char_def take_bit_eq_mod)
qed

lemma char_upper_idem [simp]: "char_upper (char_upper c) = char_upper c"
proof -
  have "(of_char (char_upper (char_upper c)) :: nat) = of_char (char_upper c)"
    by (auto simp: of_char_char_upper split: if_splits)
  then show ?thesis by simp
qed

lemma str_upper_idem [simp]: "str_upper (str_upper s) = str_upper s"
  by (simp add: str_upper_def)

lemma str_split_nonempty [simp]: "str_split c s \<noteq> []"
  by (induction s) (auto split: list.splits)

section \<open>JSON values\<close>

datatype json =
    JNull
  | JBool bool
  | JInt int
  | JFloat rat
  | JStr string
  | JArr "json list"
  | JObj "(string \<times> json) list"

text \<open>An optional string as the value \<open>json\<close> makes of it.\<close>

definition json_opt_str :: "string option \<Rightarrow> json" where
  "json_opt_str x = (case x of None \<Rightarrow> JNull | Some s \<Rightarrow> JStr s)"

text \<open>The truth value of a JSON value in a condition.\<close>

fun json_truthy :: "json \<Rightarrow> bool" where
  "json_truthy JNull = False"
| "json_truthy (JBool b) = b"
| "json_truthy (JInt n) = (n \<noteq> 0)"
| "json_truthy (JFloat x) = (x \<noteq> 0)"
| "json_truthy (JStr s) = (s \<noteq> [])"
| "json_truthy (JArr xs) = (xs \<noteq> [])"
| "json_truthy (JObj d) = (d \<noteq> [])"

datatype stored =
    Text json
  | RawText string
  | Blob "nat list"

definition json_dumps :: "json \<Rightarrow> stored" where
  "json_dumps v = Text v"

fun json_loads :: "stored \<Rightarrow> exn + json" where
  "json_loads (Text v) = Inr v"
| "json_loads (RawText _) = Inl JSONDecodeError"
| "json_loads (Blob _) = Inl JSONDecodeError"

lemma json_loads_dumps [simp]: "json_loads (json_dumps v) = Inr v"
  by (simp add: json_dumps_def)

lemma json_dumps_inj [simp]: "json_dumps v = json_dumps w \<longleftrightarrow> v = w"
  by (simp add: json_dumps_def)

section \<open>UTF-8\<close>

text \<open>The strict UTF-8 decoder of Python, as a test on the bytes.\<close>

definition is_cont :: "nat \<Rightarrow> bool" where
  "is_cont b \<longleftrightarrow> 128 \<le> b \<and> b < 192"

fun utf8_valid :: "nat list \<Rightarrow> bool" where
  "utf8_valid [] = True"
| "utf8_valid (b # bs) =
     (if b < 128 then utf8_valid bs
      else if 194 \<le> b \<and> b < 224 then
        (case bs of c # cs \<Rightarrow> is_cont c \<and> utf8_valid cs | _ \<Rightarrow> False)
      else if 224 \<le> b \<and> b < 240 then
        (case bs of c # d # ds \<Rightarrow> is_cont c \<and> is_cont d \<and> (b = 224 \<longrightarrow> 160 \<le> c)
            \<and> (b = 237 \<longrightarrow> c < 160) \<and> utf8_valid ds
          | _ \<Rightarrow> False)
      else if 240 \<le> b \<and> b < 245 then
        (case bs of c # d # e # es \<Rightarrow> is_cont c \<and> is_cont d \<and> is_cont e \<and> (b = 240 \<longrightarrow> 144 \<le> c)
            \<and> (b = 244 \<longrightarrow> c < 144) \<and> utf8_valid es
          | _ \<Rightarrow> False)
      else False)"

lemma utf8_not_continuation_first: "is_cont b \<Longrightarrow> \<not> utf8_valid (b # bs)"
  by (simp add: is_cont_def)

end
