(* ===== verification/RedisClient.thy ===== *)
theory RedisClient
  imports PyText
begin

text \<open>
  The Redis server is not part of the program. The code reaches it through one operation: a
  list of commands executed as one transaction (a single command is a list of one), which
  returns the replies or raises. That operation is the parameter \<open>R\<close> of every definition that
  talks to Redis. \<open>redis_ok R view\<close> states what the code relies on: \<open>view\<close> reads the data
  the server holds, a call that returns has run exactly its commands with their documented
  meaning (\<open>apply_cmd\<close>), and a call that raises either did not reach the server or was executed
  with its reply lost. \<open>redis_up R\<close> says that no call raises. \<open>sim_redis\<close> is a server that
  executes the commands on a value in memory and fails as a schedule tells it to.

  \<open>app/redis_pool.py\<close> opens the client with \<open>decode_responses=True\<close>: a reply that holds bytes
  which are not UTF-8 makes the call raise \<open>UnicodeDecodeError\<close> after it was executed.
\<close>

section \<open>Commands and their documented meaning\<close>

datatype cmd =
    LLEN string
  | LPUSH string stored
  | LREM1 string stored
  | BLMOVE string string
  | LRANGE string
  | GET string
  | SET string stored "int option"
  | INCRBY string int
  | PUBLISH string stored

datatype reply = RInt int | RNil | RValue stored | RList "stored list" | ROk | RError

text \<open>
  Lists have their left end first. The expiry given to \<open>SET\<close> is recorded; that a key
  disappears when its time is over is not modelled. \<open>published\<close> is the log of the channel
  messages, newest first.
\<close>

record redis_db =
  rlists :: "string \<Rightarrow> stored list"
  rstrings :: "string \<Rightarrow> stored option"
  expiry :: "string \<Rightarrow> int option"
  published :: "(string \<times> stored) list"

definition empty_db :: redis_db where
  "empty_db = \<lparr>rlists = (\<lambda>_. []), rstrings = (\<lambda>_. None), expiry = (\<lambda>_. None), published = []\<rparr>"

definition set_list :: "string \<Rightarrow> stored list \<Rightarrow> redis_db \<Rightarrow> redis_db" where
  "set_list k xs d = d\<lparr>rlists := (rlists d)(k := xs)\<rparr>"

definition set_string :: "string \<Rightarrow> stored \<Rightarrow> int option \<Rightarrow> redis_db \<Rightarrow> redis_db" where
  "set_string k v ex d = d\<lparr>rstrings := (rstrings d)(k \<mapsto> v), expiry := (expiry d)(k := ex)\<rparr>"

fun apply_cmd :: "cmd \<Rightarrow> redis_db \<Rightarrow> reply \<times> redis_db" where
  "apply_cmd (LLEN k) d = (RInt (int (length (rlists d k))), d)"
| "apply_cmd (LPUSH k v) d =
     (RInt (int (Suc (length (rlists d k)))), set_list k (v # rlists d k) d)"
| "apply_cmd (LREM1 k v) d =
     (RInt (if v \<in> set (rlists d k) then 1 else 0), set_list k (remove1 v (rlists d k)) d)"
| "apply_cmd (BLMOVE src dst) d =
     (if rlists d src = [] then (RNil, d)
      else let v = last (rlists d src); d' = set_list src (butlast (rlists d src)) d
        in (RValue v, set_list dst (v # rlists d' dst) d'))"
| "apply_cmd (LRANGE k) d = (RList (rlists d k), d)"
| "apply_cmd (GET k) d = (case rstrings d k of None \<Rightarrow> RNil | Some v \<Rightarrow> RValue v, d)"
| "apply_cmd (SET k v ex) d = (ROk, set_string k v ex d)"
| "apply_cmd (INCRBY k n) d =
     (case rstrings d k of
        None \<Rightarrow> (RInt n, set_string k (Text (JInt n)) None d)
      | Some (Text (JInt i)) \<Rightarrow> (RInt (i + n), set_string k (Text (JInt (i + n))) (expiry d k) d)
      | _ \<Rightarrow> (RError, d))"
| "apply_cmd (PUBLISH ch v) d = (RInt 0, d\<lparr>published := (ch, v) # published d\<rparr>)"

fun apply_cmds :: "cmd list \<Rightarrow> redis_db \<Rightarrow> reply list \<times> redis_db" where
  "apply_cmds [] d = ([], d)"
| "apply_cmds (c # cs) d =
     (case apply_cmd c d of (r, d') \<Rightarrow> case apply_cmds cs d' of (rs, d'') \<Rightarrow> (r # rs, d''))"

section \<open>The connection\<close>

type_synonym 's redis_conn = "cmd list \<Rightarrow> ('s, reply list) eff"

definition redis_ok :: "'s redis_conn \<Rightarrow> ('s \<Rightarrow> redis_db) \<Rightarrow> bool" where
  "redis_ok R view \<longleftrightarrow> (\<forall>cs s. case R cs s of
       (Inr rs, s') \<Rightarrow> apply_cmds cs (view s) = (rs, view s')
     | (Inl e, s') \<Rightarrow> e = RedisError \<and> (view s' = view s \<or> view s' = snd (apply_cmds cs (view s))))"

definition redis_up :: "'s redis_conn \<Rightarrow> bool" where
  "redis_up R \<longleftrightarrow> (\<forall>cs s. \<exists>rs s'. R cs s = (Inr rs, s'))"

datatype fault = Works | Unreachable | ReplyLost

fun sim_redis :: "(fault list \<times> redis_db) redis_conn" where
  "sim_redis cs (Unreachable # fs, d) = (Inl RedisError, (fs, d))"
| "sim_redis cs (ReplyLost # fs, d) = (Inl RedisError, (fs, snd (apply_cmds cs d)))"
| "sim_redis cs (fs, d) = (Inr (fst (apply_cmds cs d)), (tl fs, snd (apply_cmds cs d)))"

fun mem_redis :: "redis_db redis_conn" where
  "mem_redis cs d = (Inr (fst (apply_cmds cs d)), snd (apply_cmds cs d))"

lemma redis_ok_sim: "redis_ok sim_redis snd"
  unfolding redis_ok_def
proof (intro allI)
  fix cs :: "cmd list" and s :: "fault list \<times> redis_db"
  show "case sim_redis cs s of
       (Inr rs, s') \<Rightarrow> apply_cmds cs (snd s) = (rs, snd s')
     | (Inl e, s') \<Rightarrow> e = RedisError \<and> (snd s' = snd s \<or> snd s' = snd (apply_cmds cs (snd s)))"
    by (cases "(cs, s)" rule: sim_redis.cases) (auto simp: surjective_pairing [symmetric])
qed

lemma redis_ok_mem: "redis_ok mem_redis (\<lambda>d. d)"
  by (simp add: redis_ok_def)

lemma redis_up_mem: "redis_up mem_redis"
  by (simp add: redis_up_def)

section \<open>Single commands, with the client's decoding\<close>

text \<open>\<open>get_redis\<close> of \<open>app/redis_pool.py\<close> opens the client with \<open>decode_responses=True\<close>.\<close>

definition DECODE_RESPONSES :: bool where
  "DECODE_RESPONSES = True"

fun decodable :: "stored \<Rightarrow> bool" where
  "decodable (Blob bs) = utf8_valid bs"
| "decodable _ = True"

definition decode_reply :: "reply \<Rightarrow> exn + reply" where
  "decode_reply r = (case r of
       RValue v \<Rightarrow> if \<not> DECODE_RESPONSES \<or> decodable v then Inr r else Inl UnicodeDecodeError
     | RList vs \<Rightarrow> if \<not> DECODE_RESPONSES \<or> list_all decodable vs then Inr r else Inl UnicodeDecodeError
     | RError \<Rightarrow> Inl RedisError
     | _ \<Rightarrow> Inr r)"

text \<open>
  \<open>io.BytesIO(v)\<close> of a value the client returned: with decoding every value is a \<open>str\<close>, which
  \<open>BytesIO\<close> refuses; without it the bytes of a blob are taken as they are (a JSON text is no artifact).
\<close>

definition bytes_io :: "stored \<Rightarrow> exn + nat list" where
  "bytes_io v = (if DECODE_RESPONSES then Inl TypeError
     else case v of
         Blob bs \<Rightarrow> Inr bs
       | RawText s \<Rightarrow> Inr (map of_char s)
       | Text _ \<Rightarrow> Inl ValueError)"

definition redis_call :: "'s redis_conn \<Rightarrow> cmd \<Rightarrow> ('s, reply) eff" where
  "redis_call R c = bindE (R [c]) (\<lambda>rs. case rs of
       [r] \<Rightarrow> (case decode_reply r of Inl e \<Rightarrow> raiseE e | Inr r' \<Rightarrow> returnE r')
     | _ \<Rightarrow> raiseE ProtocolError)"

definition redis_llen :: "'s redis_conn \<Rightarrow> string \<Rightarrow> ('s, int) eff" where
  "redis_llen R k = bindE (redis_call R (LLEN k))
     (\<lambda>r. case r of RInt n \<Rightarrow> returnE n | _ \<Rightarrow> raiseE ProtocolError)"

definition redis_lpush :: "'s redis_conn \<Rightarrow> string \<Rightarrow> stored \<Rightarrow> ('s, unit) eff" where
  "redis_lpush R k v = bindE (redis_call R (LPUSH k v)) (\<lambda>_. returnE ())"

definition redis_lrem :: "'s redis_conn \<Rightarrow> string \<Rightarrow> stored \<Rightarrow> ('s, unit) eff" where
  "redis_lrem R k v = bindE (redis_call R (LREM1 k v)) (\<lambda>_. returnE ())"

definition redis_blmove :: "'s redis_conn \<Rightarrow> string \<Rightarrow> string \<Rightarrow> ('s, stored option) eff" where
  "redis_blmove R src dst = bindE (redis_call R (BLMOVE src dst))
     (\<lambda>r. case r of RNil \<Rightarrow> returnE None | RValue v \<Rightarrow> returnE (Some v) | _ \<Rightarrow> raiseE ProtocolError)"

definition redis_lrange :: "'s redis_conn \<Rightarrow> string \<Rightarrow> ('s, stored list) eff" where
  "redis_lrange R k = bindE (redis_call R (LRANGE k))
     (\<lambda>r. case r of RList vs \<Rightarrow> returnE vs | _ \<Rightarrow> raiseE ProtocolError)"

definition redis_get :: "'s redis_conn \<Rightarrow> string \<Rightarrow> ('s, stored option) eff" where
  "redis_get R k = bindE (redis_call R (GET k))
     (\<lambda>r. case r of RNil \<Rightarrow> returnE None | RValue v \<Rightarrow> returnE (Some v) | _ \<Rightarrow> raiseE ProtocolError)"

definition redis_set :: "'s redis_conn \<Rightarrow> string \<Rightarrow> stored \<Rightarrow> int option \<Rightarrow> ('s, unit) eff" where
  "redis_set R k v ex = bindE (redis_call R (SET k v ex)) (\<lambda>_. returnE ())"

definition redis_incrby :: "'s redis_conn \<Rightarrow> string \<Rightarrow> int \<Rightarrow> ('s, unit) eff" where
  "redis_incrby R k n = bindE (redis_call R (INCRBY k n)) (\<lambda>_. returnE ())"

definition redis_publish :: "'s redis_conn \<Rightarrow> string \<Rightarrow> stored \<Rightarrow> ('s, unit) eff" where
  "redis_publish R ch v = bindE (redis_call R (PUBLISH ch v)) (\<lambda>_. returnE ())"

section \<open>What a call tells about the data\<close>

declare DECODE_RESPONSES_def [simp]

lemma decode_reply_Inr: "decode_reply r = Inr x \<Longrightarrow> x = r"
  by (auto simp: decode_reply_def split: reply.splits if_splits)

lemma redis_call_Inr:
  assumes "redis_ok R view" and "redis_call R c s = (Inr x, s')"
  shows "apply_cmd c (view s) = (x, view s')"
proof -
  from assms(2) obtain rs u where R: "R [c] s = (Inr rs, u)"
    by (auto simp: redis_call_def bindE_Inr_iff)
  with assms(1) have ap: "apply_cmds [c] (view s) = (rs, view u)"
    unfolding redis_ok_def by (auto dest!: spec [of _ "[c]"] spec [of _ s])
  from assms(2) R ap show ?thesis
    by (auto simp: redis_call_def bindE_def returnE_def raiseE_def
        dest!: decode_reply_Inr split: prod.splits sum.splits)
qed

lemma redis_call_Inl:
  assumes "redis_ok R view" and "redis_call R c s = (Inl e, s')"
  shows "view s' = view s \<or> view s' = snd (apply_cmd c (view s))"
proof (cases "R [c] s")
  case (Pair r u)
  show ?thesis
  proof (cases r)
    case (Inl e')
    with Pair assms show ?thesis
      unfolding redis_ok_def redis_call_def bindE_def
      by (auto dest!: spec [of _ "[c]"] spec [of _ s] split: prod.splits)
  next
    case (Inr rs)
    with Pair assms(1) have "apply_cmds [c] (view s) = (rs, view u)"
      unfolding redis_ok_def by (auto dest!: spec [of _ "[c]"] spec [of _ s])
    with Pair Inr assms(2) show ?thesis
      by (auto simp: redis_call_def bindE_def returnE_def raiseE_def
          split: prod.splits sum.splits)
  qed
qed

lemma redis_call_up:
  assumes "redis_ok R view" and "redis_up R"
    and "decode_reply (fst (apply_cmd c (view s))) = Inr x"
  shows "\<exists>s'. redis_call R c s = (Inr x, s') \<and> view s' = snd (apply_cmd c (view s))"
proof -
  from assms(2) obtain rs s' where R: "R [c] s = (Inr rs, s')"
    unfolding redis_up_def by blast
  with assms(1) have "apply_cmds [c] (view s) = (rs, view s')"
    unfolding redis_ok_def by (auto dest!: spec [of _ "[c]"] spec [of _ s])
  with R assms(3) show ?thesis
    by (auto simp: redis_call_def bindE_def returnE_def split: prod.splits)
qed

text \<open>
  The cases of each command: it returned and the data changed as documented, or it raised and
  the data changed or did not.
\<close>

lemma redis_llen_cases:
  assumes "redis_ok R view" and "redis_llen R k s = (r, s')"
  shows "view s' = view s \<and> (r = Inr (int (length (rlists (view s) k))) \<or> (\<exists>e. r = Inl e))"
  using assms(2)
  by (auto simp: redis_llen_def bindE_def returnE_def raiseE_def
      dest!: redis_call_Inr [OF assms(1)] redis_call_Inl [OF assms(1)] split: prod.splits sum.splits reply.splits)

lemma redis_lpush_cases:
  assumes "redis_ok R view" and "redis_lpush R k v s = (r, s')"
  shows "r = Inr () \<and> view s' = set_list k (v # rlists (view s) k) (view s)
    \<or> (\<exists>e. r = Inl e) \<and> (view s' = view s \<or> view s' = set_list k (v # rlists (view s) k) (view s))"
  using assms(2)
  by (auto simp: redis_lpush_def bindE_def returnE_def
      dest!: redis_call_Inr [OF assms(1)] redis_call_Inl [OF assms(1)] split: prod.splits sum.splits)

lemma redis_lrem_cases:
  assumes "redis_ok R view" and "redis_lrem R k v s = (r, s')"
  shows "r = Inr () \<and> view s' = set_list k (remove1 v (rlists (view s) k)) (view s)
    \<or> (\<exists>e. r = Inl e) \<and>
       (view s' = view s \<or> view s' = set_list k (remove1 v (rlists (view s) k)) (view s))"
  using assms(2)
  by (auto simp: redis_lrem_def bindE_def returnE_def
      dest!: redis_call_Inr [OF assms(1)] redis_call_Inl [OF assms(1)] split: prod.splits sum.splits)

lemma redis_lrange_cases:
  assumes "redis_ok R view" and "redis_lrange R k s = (r, s')"
  shows "view s' = view s \<and> (r = Inr (rlists (view s) k) \<or> (\<exists>e. r = Inl e))"
  using assms(2)
  by (auto simp: redis_lrange_def bindE_def returnE_def raiseE_def
      dest!: redis_call_Inr [OF assms(1)] redis_call_Inl [OF assms(1)] split: prod.splits sum.splits reply.splits)

text \<open>The list move: nothing to move, the last element moved, or an exception.\<close>

definition moved :: "string \<Rightarrow> string \<Rightarrow> redis_db \<Rightarrow> redis_db" where
  "moved src dst d = (if rlists d src = [] then d
     else let d' = set_list src (butlast (rlists d src)) d
       in set_list dst (last (rlists d src) # rlists d' dst) d')"

lemma apply_blmove:
  "apply_cmd (BLMOVE src dst) d =
     (if rlists d src = [] then RNil else RValue (last (rlists d src)), moved src dst d)"
  by (simp add: moved_def Let_def)

lemma redis_blmove_cases:
  assumes "redis_ok R view" and "redis_blmove R src dst s = (r, s')"
  shows "r = Inr None \<and> rlists (view s) src = [] \<and> view s' = view s
    \<or> r = Inr (Some (last (rlists (view s) src))) \<and> rlists (view s) src \<noteq> []
        \<and> view s' = moved src dst (view s)
    \<or> (\<exists>e. r = Inl e) \<and> (view s' = view s \<or> view s' = moved src dst (view s))"
proof (cases "redis_call R (BLMOVE src dst) s")
  case (Pair x u)
  show ?thesis
  proof (cases x)
    case (Inl e)
    with Pair redis_call_Inl [OF assms(1), of "BLMOVE src dst" s e u] assms(2) show ?thesis
      by (auto simp: redis_blmove_def bindE_def moved_def Let_def)
  next
    case (Inr y)
    with Pair have "apply_cmd (BLMOVE src dst) (view s) = (y, view u)"
      using redis_call_Inr [OF assms(1)] by blast
    then have "y = (if rlists (view s) src = [] then RNil else RValue (last (rlists (view s) src)))"
      and "view u = moved src dst (view s)"
      unfolding apply_blmove by auto
    with Pair Inr assms(2) show ?thesis
      by (auto simp: redis_blmove_def bindE_def returnE_def moved_def split: if_splits)
  qed
qed

lemma redis_get_cases:
  assumes "redis_ok R view" and "redis_get R k s = (r, s')"
  shows "view s' = view s \<and> (r = Inr (rstrings (view s) k) \<or> (\<exists>e. r = Inl e))"
  using assms(2)
  by (auto simp: redis_get_def bindE_def returnE_def raiseE_def
      dest!: redis_call_Inr [OF assms(1)] redis_call_Inl [OF assms(1)] split: prod.splits sum.splits reply.splits option.splits)

text \<open>Without failures of the connection the calls return.\<close>

lemma redis_llen_up:
  assumes "redis_ok R view" and "redis_up R"
  shows "\<exists>s'. redis_llen R k s = (Inr (int (length (rlists (view s) k))), s') \<and> view s' = view s"
  using redis_call_up [OF assms, of "LLEN k" s]
  by (auto simp: redis_llen_def bindE_def returnE_def decode_reply_def)

lemma redis_lpush_up:
  assumes "redis_ok R view" and "redis_up R"
  shows "\<exists>s'. redis_lpush R k v s = (Inr (), s')
    \<and> view s' = set_list k (v # rlists (view s) k) (view s)"
  using redis_call_up [OF assms, of "LPUSH k v" s]
  by (auto simp: redis_lpush_def bindE_def returnE_def decode_reply_def)

lemma redis_lrem_up:
  assumes "redis_ok R view" and "redis_up R"
  shows "\<exists>s'. redis_lrem R k v s = (Inr (), s')
    \<and> view s' = set_list k (remove1 v (rlists (view s) k)) (view s)"
  using redis_call_up [OF assms, of "LREM1 k v" s]
  by (auto simp: redis_lrem_def bindE_def returnE_def decode_reply_def)

lemma redis_lrange_up:
  assumes "redis_ok R view" and "redis_up R" and "list_all decodable (rlists (view s) k)"
  shows "\<exists>s'. redis_lrange R k s = (Inr (rlists (view s) k), s') \<and> view s' = view s"
  using redis_call_up [OF assms(1,2), of "LRANGE k" s] assms(3)
  by (auto simp: redis_lrange_def bindE_def returnE_def decode_reply_def)

lemma redis_blmove_up:
  assumes "redis_ok R view" and "redis_up R" and "list_all decodable (rlists (view s) src)"
  shows "\<exists>s'. redis_blmove R src dst s =
      (Inr (if rlists (view s) src = [] then None else Some (last (rlists (view s) src))), s')
    \<and> view s' = moved src dst (view s)"
proof (cases "rlists (view s) src = []")
  case True
  then show ?thesis
    using redis_call_up [OF assms(1,2), of "BLMOVE src dst" s RNil]
    by (auto simp: redis_blmove_def bindE_def returnE_def decode_reply_def moved_def)
next
  case False
  with assms(3) have "decodable (last (rlists (view s) src))"
    by (simp add: list_all_iff)
  with False show ?thesis
    using redis_call_up [OF assms(1,2), of "BLMOVE src dst" s "RValue (last (rlists (view s) src))"]
    by (auto simp: redis_blmove_def bindE_def returnE_def decode_reply_def apply_blmove
        simp del: apply_cmd.simps)
qed

lemma redis_get_up:
  assumes "redis_ok R view" and "redis_up R" and "pred_option decodable (rstrings (view s) k)"
  shows "\<exists>s'. redis_get R k s = (Inr (rstrings (view s) k), s') \<and> view s' = view s"
  using redis_call_up [OF assms(1,2), of "GET k" s] assms(3)
  by (cases "rstrings (view s) k") (auto simp: redis_get_def bindE_def returnE_def decode_reply_def)

lemma redis_set_up:
  assumes "redis_ok R view" and "redis_up R"
  shows "\<exists>s'. redis_set R k v ex s = (Inr (), s') \<and> view s' = set_string k v ex (view s)"
  using redis_call_up [OF assms, of "SET k v ex" s]
  by (auto simp: redis_set_def bindE_def returnE_def decode_reply_def)

lemma lists_set_list [simp]: "rlists (set_list k xs d) = (rlists d)(k := xs)"
  and strings_set_list [simp]: "rstrings (set_list k xs d) = rstrings d"
  and published_set_list [simp]: "published (set_list k xs d) = published d"
  by (simp_all add: set_list_def)

lemma lists_set_string [simp]: "rlists (set_string k v ex d) = rlists d"
  and strings_set_string [simp]: "rstrings (set_string k v ex d) = (rstrings d)(k \<mapsto> v)"
  and expiry_set_string [simp]: "expiry (set_string k v ex d) = (expiry d)(k := ex)"
  by (simp_all add: set_string_def)

end
