(* ===== verification/Counters.thy ===== *)
theory Counters
  imports RedisClient
begin

text \<open>
  The in-memory metric counters of \<open>app/metrics.py\<close> and their copy in Redis. A process of
  the program (the API, the worker) has a state of type \<open>env\<close>: its Redis connection and its
  counters. The components with more state extend this record.
\<close>

record 'r env =
  conn :: 'r
  counters :: "int pydict"

definition redisE :: "('r, 'a) eff \<Rightarrow> (('r, 'z) env_scheme, 'a) eff" where
  "redisE = zoomE conn (\<lambda>c w. w\<lparr>conn := c\<rparr>)"

lemma redisE_apply: "redisE m w = (case m (conn w) of (r, c) \<Rightarrow> (r, w\<lparr>conn := c\<rparr>))"
  by (simp add: redisE_def zoomE_def)

definition counter_keys :: "string list" where
  "counter_keys =
     [''logs_received'', ''alerts_created'', ''retries'', ''dlq_count'', ''enqueue_failures'']"

definition initial_counters :: "int pydict" where
  "initial_counters = map (\<lambda>k. (k, 0)) counter_keys"

definition redis_metric_prefix :: string where
  "redis_metric_prefix = ''sentinel:metrics:''"

definition increment :: "string \<Rightarrow> int \<Rightarrow> int pydict \<Rightarrow> int pydict" where
  "increment name amount cs = dict_set cs name (dict_get_or cs name 0 + amount)"

definition get_counter :: "string \<Rightarrow> int pydict \<Rightarrow> int" where
  "get_counter name cs = dict_get_or cs name 0"

definition snapshot :: "int pydict \<Rightarrow> int pydict" where
  "snapshot cs = cs"

definition increment_async ::
  "'r redis_conn \<Rightarrow> string \<Rightarrow> int \<Rightarrow> (('r, 'z) env_scheme, unit) eff" where
  "increment_async R name amount =
     thenE (modifyE (\<lambda>w. w\<lparr>counters := increment name amount (counters w)\<rparr>))
       (tryE (redisE (redis_incrby R (redis_metric_prefix @ name) amount)) (\<lambda>_. returnE ()))"

text \<open>\<open>int(val) if val else 0\<close> on a decoded reply.\<close>

fun int_of_reply :: "reply \<Rightarrow> exn + int" where
  "int_of_reply RNil = Inr 0"
| "int_of_reply (RValue (Text (JInt i))) = Inr i"
| "int_of_reply (RValue (RawText [])) = Inr 0"
| "int_of_reply _ = Inl ValueError"

fun ints_of_replies :: "reply list \<Rightarrow> exn + int list" where
  "ints_of_replies [] = Inr []"
| "ints_of_replies (r # rs) = (case decode_reply r of
       Inl e \<Rightarrow> Inl e
     | Inr r' \<Rightarrow> (case int_of_reply r' of
         Inl e \<Rightarrow> Inl e
       | Inr i \<Rightarrow> (case ints_of_replies rs of Inl e \<Rightarrow> Inl e | Inr is \<Rightarrow> Inr (i # is))))"

definition snapshot_async :: "'r redis_conn \<Rightarrow> (('r, 'z) env_scheme, int pydict) eff" where
  "snapshot_async R =
     tryE
       (bindE (redisE (R (map (\<lambda>k. GET (redis_metric_prefix @ k)) counter_keys)))
         (\<lambda>values. case ints_of_replies values of
            Inl e \<Rightarrow> raiseE e
          | Inr is \<Rightarrow> returnE (zip counter_keys is)))
       (\<lambda>_ w. (Inr (snapshot (counters w)), w))"

section \<open>Lemmas\<close>

lemma get_increment [simp]:
  "get_counter k (increment n a cs) = (if k = n then get_counter n cs + a else get_counter k cs)"
  by (simp add: get_counter_def increment_def dict_simps)

text \<open>
  \<open>increment_async\<close> returns whatever Redis does, counts in memory, and touches no list.
\<close>

lemma increment_async_returns:
  assumes "redis_ok R view"
  shows "\<exists>c. increment_async R n a w =
      (Inr (), w\<lparr>counters := increment n a (counters w), conn := c\<rparr>)
    \<and> rlists (view c) = rlists (view (conn w))"
proof -
  let ?c = "INCRBY (redis_metric_prefix @ n) a"
  have keep: "rlists (snd (apply_cmd ?c d)) = rlists d" for d
    by (auto split: option.splits stored.splits json.splits)
  obtain r c where rc: "redis_incrby R (redis_metric_prefix @ n) a (conn w) = (r, c)"
    by fastforce
  have "rlists (view c) = rlists (view (conn w))"
  proof (cases "redis_call R ?c (conn w)")
    case (Pair x u)
    with rc have "u = c"
      by (auto simp: redis_incrby_def bindE_def returnE_def split: sum.splits)
    with Pair show ?thesis
      using redis_call_Inr [OF assms, of ?c "conn w"] redis_call_Inl [OF assms, of ?c "conn w"]
        keep [of "view (conn w)"]
      by (cases x) (metis snd_conv)+
  qed
  then show ?thesis
    using rc
    by (intro exI [of _ c], cases r) (auto simp: increment_async_def effect_simps redisE_apply)
qed

end
