(* ===== verification/PyFloat.thy ===== *)
theory PyFloat
  imports Prelude
begin

text \<open>
  Python's \<open>float\<close>: IEEE 754 binary64 with rounding to nearest, ties to even. A finite
  float is the rational number it denotes; an operation of the code is the exact operation
  followed by \<open>fl\<close>. The exponent is not bounded: the values of this program (scores, ratios,
  weights, times in seconds) are far from overflow and from the subnormal numbers, and
  infinities and NaN are not modelled. \<open>py_round\<close> is the built-in \<open>round(x, n)\<close>, which rounds
  the exact value of the float to \<open>n\<close> decimal places, ties to even, and returns the float
  nearest to that decimal.

  The lemmas show what the scoring code relies on: rounding is monotone, keeps the sign and
  leaves the integers up to \<open>2 ^ 53\<close> alone.
\<close>

section \<open>Rounding to an integer, ties to even\<close>

definition round_even :: "rat \<Rightarrow> int" where
  "round_even y = (let f = \<lfloor>y\<rfloor>; r = y - of_int f in
     if r < 1 / 2 then f else if 1 / 2 < r then f + 1 else if even f then f else f + 1)"

lemma round_even_of_int [simp]: "round_even (of_int n) = n"
  by (simp add: round_even_def)

lemma round_even_0 [simp]: "round_even 0 = 0" and round_even_1 [simp]: "round_even 1 = 1"
  using round_even_of_int [of 0] round_even_of_int [of 1] by simp_all

lemma round_even_bounds: "\<lfloor>y\<rfloor> \<le> round_even y \<and> round_even y \<le> \<lfloor>y\<rfloor> + 1"
  by (auto simp: round_even_def Let_def)

lemma round_even_mono:
  assumes "x \<le> y"
  shows "round_even x \<le> round_even y"
proof (cases "\<lfloor>x\<rfloor> = \<lfloor>y\<rfloor>")
  case True
  with assms show ?thesis by (auto simp: round_even_def Let_def)
next
  case False
  with floor_mono [OF assms] have "\<lfloor>x\<rfloor> + 1 \<le> \<lfloor>y\<rfloor>" by simp
  with round_even_bounds [of x] round_even_bounds [of y] show ?thesis by linarith
qed

lemma round_even_minus: "round_even (- y) = - round_even y"
proof (cases "y \<in> \<int>")
  case True
  then obtain n where y: "y = of_int n" by (auto elim: Ints_cases)
  have "round_even (of_int (- n)) = - n" by (rule round_even_of_int)
  with y show ?thesis by simp
next
  case False
  then have c: "\<lfloor>- y\<rfloor> = - \<lfloor>y\<rfloor> - 1"
    by (simp add: floor_minus ceiling_altdef)
      (metis Ints_of_int)
  show ?thesis
    by (auto simp: round_even_def Let_def c)
qed

lemma round_even_close: "\<bar>of_int (round_even y) - y\<bar> \<le> 1 / 2"
proof -
  have "of_int \<lfloor>y\<rfloor> \<le> y" and "y < of_int \<lfloor>y\<rfloor> + 1"
    using floor_correct [of y] by auto
  then show ?thesis unfolding round_even_def Let_def by (auto simp: abs_le_iff)
qed

section \<open>The binary exponent\<close>

function ilog2 :: "int \<Rightarrow> int" where
  "ilog2 n = (if n < 2 then 0 else ilog2 (n div 2) + 1)"
  by pat_completeness auto
termination
  by (relation "measure nat") auto

declare ilog2.simps [simp del]

lemma ilog2_nonneg: "0 \<le> ilog2 n"
proof (induction n rule: ilog2.induct)
  case (1 n)
  then show ?case by (subst ilog2.simps) auto
qed

lemma ilog2_bounds: "1 \<le> n \<Longrightarrow> 2 ^ nat (ilog2 n) \<le> n \<and> n < 2 ^ Suc (nat (ilog2 n))"
proof (induction n rule: ilog2.induct)
  case (1 n)
  show ?case
  proof (cases "n < 2")
    case True
    with "1.prems" show ?thesis by (simp add: ilog2.simps [of n])
  next
    case False
    let ?e = "nat (ilog2 (n div 2))"
    have s: "nat (ilog2 n) = Suc ?e"
      using False ilog2_nonneg [of "n div 2"] by (simp add: ilog2.simps [of n] nat_add_distrib)
    from False "1.IH" have "2 ^ ?e \<le> n div 2" and "n div 2 < 2 ^ Suc ?e" by simp_all
    then have "2 * 2 ^ ?e \<le> n" and "n < 2 * 2 ^ Suc ?e" by linarith+
    then show ?thesis by (simp add: s)
  qed
qed

text \<open>
  The exponent of a positive rational \<open>n / d\<close>: the difference of the two bit lengths is it
  or one too many.
\<close>

definition expo :: "rat \<Rightarrow> int" where
  "expo x = (case quotient_of x of (n, d) \<Rightarrow>
     let e = ilog2 n - ilog2 d in if 2 powi e \<le> x then e else e - 1)"

lemma expo_bounds:
  assumes "0 < x"
  shows "2 powi (expo x) \<le> x" and "x < 2 powi (expo x + 1)"
proof -
  obtain n d where nd: "quotient_of x = (n, d)" by (cases "quotient_of x")
  have d: "0 < d" using nd by (rule quotient_of_denom_pos)
  have x: "x = of_int n / of_int d" using nd by (rule quotient_of_div)
  with assms d have n: "0 < n" by (simp add: zero_less_divide_iff)
  let ?a = "ilog2 n" and ?b = "ilog2 d"
  have na: "(2::rat) powi ?a \<le> of_int n" "of_int n < (2::rat) powi (?a + 1)"
    and db: "(2::rat) powi ?b \<le> of_int d" "of_int d < (2::rat) powi (?b + 1)"
  proof -
    have *: "(2::rat) powi (ilog2 k) \<le> of_int k \<and> of_int k < (2::rat) powi (ilog2 k + 1)"
      if "1 \<le> k" for k
    proof -
      have "of_int (2 ^ nat (ilog2 k)) \<le> (of_int k :: rat)"
        and "(of_int k :: rat) < of_int (2 ^ Suc (nat (ilog2 k)))"
        using ilog2_bounds [OF that] by (auto simp only: of_int_le_iff of_int_less_iff)
      then show ?thesis
        using ilog2_nonneg [of k] by (simp add: power_int_def power_int_add nat_add_distrib)
    qed
    show "(2::rat) powi ?a \<le> of_int n" "of_int n < (2::rat) powi (?a + 1)"
      "(2::rat) powi ?b \<le> of_int d" "of_int d < (2::rat) powi (?b + 1)"
      using * [of n] * [of d] n d by auto
  qed
  have lo: "(2::rat) powi (?a - ?b - 1) < x"
  proof -
    have "(2::rat) powi (?a - ?b - 1) * of_int d < 2 powi (?a - ?b - 1) * 2 powi (?b + 1)"
      using db by (simp add: mult_strict_left_mono)
    also have "\<dots> = 2 powi ?a" by (simp flip: power_int_add)
    also have "\<dots> \<le> of_int n" by (rule na)
    finally show ?thesis using d by (simp add: x pos_less_divide_eq)
  qed
  have hi: "x < 2 powi (?a - ?b + 1)"
  proof -
    have "of_int n < (2::rat) powi (?a + 1)" by (rule na)
    also have "\<dots> = 2 powi (?a - ?b + 1) * 2 powi ?b" by (simp flip: power_int_add)
    also have "\<dots> \<le> 2 powi (?a - ?b + 1) * of_int d"
      using db by (simp add: mult_left_mono)
    finally show ?thesis using d by (simp add: x pos_divide_less_eq)
  qed
  show "2 powi (expo x) \<le> x" and "x < 2 powi (expo x + 1)"
    using lo hi by (auto simp: expo_def nd Let_def)
qed

lemma expo_unique:
  assumes "0 < x" and "2 powi e \<le> x" and "x < 2 powi (e + 1)"
  shows "expo x = e"
proof -
  have "(2::rat) powi expo x < 2 powi (e + 1)" and "(2::rat) powi e < 2 powi (expo x + 1)"
    using expo_bounds [OF assms(1)] assms(2,3) by linarith+
  then have "expo x < e + 1" and "e < expo x + 1"
    by (meson not_le one_le_numeral power_int_increasing)+
  then show ?thesis by simp
qed

lemma expo_mono:
  assumes "0 < x" and "x \<le> y"
  shows "expo x \<le> expo y"
proof -
  have "0 < y" using assms by linarith
  then have "(2::rat) powi expo x < 2 powi (expo y + 1)"
    using expo_bounds [OF assms(1)] expo_bounds [of y] assms(2) by linarith
  then have "expo x < expo y + 1" by (meson not_le one_le_numeral power_int_increasing)
  then show ?thesis by simp
qed

section \<open>Rounding to binary64\<close>

definition quantum :: "rat \<Rightarrow> rat" where
  "quantum x = 2 powi (expo x - 52)"

definition fl :: "rat \<Rightarrow> rat" where
  "fl x = (if x = 0 then 0
     else of_int (round_even (x / quantum \<bar>x\<bar>)) * quantum \<bar>x\<bar>)"

lemma quantum_pos [simp]: "0 < quantum x"
  by (simp add: quantum_def)

lemma quantum_nonneg [simp]: "0 \<le> quantum x" and quantum_nonzero [simp]: "quantum x \<noteq> 0"
  using quantum_pos [of x] by linarith+

lemma fl_0 [simp]: "fl 0 = 0"
  by (simp add: fl_def)

lemma fl_minus [simp]: "fl (- x) = - fl x"
proof -
  have "round_even (- (x / quantum \<bar>x\<bar>)) = - round_even (x / quantum \<bar>x\<bar>)"
    by (rule round_even_minus)
  then show ?thesis by (simp add: fl_def)
qed

lemma of_int_div_quantum:
  assumes "e - 52 \<le> k"
  shows "\<exists>m. (2::rat) powi k / 2 powi (e - 52) = of_int m"
proof -
  have "(2::rat) powi k / 2 powi (e - 52) = 2 powi (k - (e - 52))"
    by (simp add: power_int_diff)
  also have "\<dots> = of_int (2 ^ nat (k - (e - 52)))"
    using assms by (simp add: power_int_def)
  finally show ?thesis by blast
qed

text \<open>A positive float lies in the binade of the number it rounds.\<close>

lemma fl_pos_bounds:
  assumes "0 < x"
  shows "2 powi (expo x) \<le> fl x" and "fl x \<le> 2 powi (expo x + 1)"
proof -
  let ?q = "quantum x"
  obtain m where m: "(2::rat) powi expo x / ?q = of_int m"
    using of_int_div_quantum [of "expo x" "expo x"] by (auto simp: quantum_def)
  obtain m' where m': "(2::rat) powi (expo x + 1) / ?q = of_int m'"
    using of_int_div_quantum [of "expo x" "expo x + 1"] by (auto simp: quantum_def)
  have "of_int m \<le> x / ?q" and "x / ?q \<le> of_int m'"
    using expo_bounds [OF assms] by (simp_all add: divide_right_mono flip: m m')
  then have "m \<le> round_even (x / ?q)" and "round_even (x / ?q) \<le> m'"
    using round_even_mono [of "of_int m" "x / ?q"] round_even_mono [of "x / ?q" "of_int m'"]
    by simp_all
  then have "of_int m * ?q \<le> of_int (round_even (x / ?q)) * ?q"
    and "of_int (round_even (x / ?q)) * ?q \<le> of_int m' * ?q"
    by simp_all
  then show "2 powi (expo x) \<le> fl x" and "fl x \<le> 2 powi (expo x + 1)"
    using assms by (simp_all add: fl_def flip: m m')
qed

lemma fl_pos [simp]: "0 < x \<Longrightarrow> 0 < fl x"
  using fl_pos_bounds(1) [of x] zero_less_power_int [of "2::rat" "expo x"] by linarith

lemma fl_mono_pos:
  assumes "0 < x" and "x \<le> y"
  shows "fl x \<le> fl y"
proof (cases "expo x = expo y")
  case True
  then have q: "quantum x = quantum y" by (simp add: quantum_def)
  have "x / quantum y \<le> y / quantum y" using assms by (simp add: divide_right_mono)
  then have "round_even (x / quantum y) \<le> round_even (y / quantum y)"
    by (rule round_even_mono)
  with assms q show ?thesis by (simp add: fl_def)
next
  case False
  with expo_mono [OF assms] have "expo x + 1 \<le> expo y" by simp
  then have "(2::rat) powi (expo x + 1) \<le> 2 powi expo y"
    by (simp add: power_int_increasing)
  with fl_pos_bounds(2) [OF assms(1)] fl_pos_bounds(1) [of y] assms show ?thesis by linarith
qed

lemma fl_nonneg [simp]: "0 \<le> x \<Longrightarrow> 0 \<le> fl x"
  using fl_pos [of x] by (cases "x = 0") (auto simp: le_less)

lemma fl_mono: "x \<le> y \<Longrightarrow> fl x \<le> fl y"
proof -
  assume le: "x \<le> y"
  consider "0 < x" | "x \<le> 0" "0 \<le> y" | "y < 0" by linarith
  then show ?thesis
  proof cases
    case 1
    with le show ?thesis by (simp add: fl_mono_pos)
  next
    case 2
    then have "0 \<le> fl y" and "fl x \<le> 0" using fl_nonneg [of y] fl_nonneg [of "- x"] by simp_all
    then show ?thesis by simp
  next
    case 3
    with le show ?thesis using fl_mono_pos [of "- y" "- x"] by simp
  qed
qed

text \<open>Numbers of at most 53 significant bits are floats: rounding leaves them alone.\<close>

lemma fl_dyadic:
  assumes "\<bar>m\<bar> \<le> 2 ^ 53"
  shows "fl (of_int m * 2 powi k) = of_int m * 2 powi k"
proof (cases "m = 0")
  case True
  then show ?thesis by simp
next
  case False
  let ?x = "of_int m * 2 powi k :: rat"
  have ab: "\<bar>?x\<bar> = of_int \<bar>m\<bar> * 2 powi k" by (simp add: abs_mult)
  have pos: "0 < \<bar>?x\<bar>" using False by simp
  have m_le: "(of_int \<bar>m\<bar> :: rat) \<le> 2 powi 53"
  proof -
    have "(of_int \<bar>m\<bar> :: rat) \<le> of_int (2 ^ 53)" using assms by (simp only: of_int_le_iff)
    then show ?thesis by simp
  qed
  then have x_le: "\<bar>?x\<bar> \<le> 2 powi (53 + k)"
    unfolding ab power_int_add [of "2::rat" 53 k, simplified] by simp
  have "\<exists>j. ?x / quantum \<bar>?x\<bar> = of_int j"
  proof (cases "expo \<bar>?x\<bar> \<le> 52 + k")
    case True
    then obtain j where "(2::rat) powi k / 2 powi (expo \<bar>?x\<bar> - 52) = of_int j"
      using of_int_div_quantum [of "expo \<bar>?x\<bar>" k] by auto
    then have "?x / quantum \<bar>?x\<bar> = of_int (m * j)"
      by (simp add: quantum_def flip: times_divide_eq_right)
    then show ?thesis by blast
  next
    case False
    then have "(2::rat) powi (53 + k) \<le> 2 powi expo \<bar>?x\<bar>"
      by (intro power_int_increasing) auto
    with expo_bounds(1) [OF pos] x_le have eq: "\<bar>?x\<bar> = 2 powi (53 + k)" by linarith
    then have "expo \<bar>?x\<bar> = 53 + k"
      by (intro expo_unique) (simp_all add: power_int_add)
    then have q: "quantum \<bar>?x\<bar> = 2 powi (k + 1)" by (simp add: quantum_def algebra_simps)
    have "(2::rat) powi (53 + k) / 2 powi (k + 1) = 2 powi (53 + k - (k + 1))"
      by (rule power_int_diff [symmetric]) simp
    then have q52: "(2::rat) powi (53 + k) / 2 powi (k + 1) = of_int (2 ^ 52)" by simp
    consider "?x = 2 powi (53 + k)" | "?x = - (2 powi (53 + k))"
      using eq by linarith
    then have "?x / quantum \<bar>?x\<bar> = of_int (2 ^ 52) \<or> ?x / quantum \<bar>?x\<bar> = of_int (- (2 ^ 52))"
      unfolding q by cases (simp_all only: q52 minus_divide_left [symmetric] of_int_minus, simp_all)
    then show ?thesis by blast
  qed
  then obtain j where j: "?x / quantum \<bar>?x\<bar> = of_int j" by blast
  then have "of_int j * quantum \<bar>?x\<bar> = ?x"
    using quantum_nonzero [of "\<bar>?x\<bar>"] by (metis nonzero_divide_eq_eq)
  moreover have "?x \<noteq> 0" using False by simp
  ultimately show ?thesis unfolding fl_def j by simp
qed

lemma fl_of_int: "\<bar>n\<bar> \<le> 2 ^ 53 \<Longrightarrow> fl (of_int n) = of_int n"
  using fl_dyadic [of n 0] by simp

lemma fl_of_nat: "n \<le> 2 ^ 53 \<Longrightarrow> fl (of_nat n) = of_nat n"
  using fl_of_int [of "int n"] by simp

lemma fl_numeral [simp]: "numeral n \<le> (2 ^ 53 :: int) \<Longrightarrow> fl (numeral n) = numeral n"
  using fl_of_int [of "numeral n"] by simp

lemma fl_1 [simp]: "fl 1 = 1"
  using fl_of_int [of 1] by simp

lemma fl_half [simp]: "fl (1 / 2) = 1 / 2"
  using fl_dyadic [of 1 "-1"] by (simp add: power_int_def inverse_eq_divide)

lemma fl_le_1: "x \<le> 1 \<Longrightarrow> fl x \<le> 1"
  using fl_mono [of x 1] by simp

text \<open>The result of a rounding is a float: rounding it again changes nothing.\<close>

lemma fl_idem [simp]: "fl (fl x) = fl x"
proof (cases "0 < \<bar>x\<bar>")
  case True
  let ?q = "quantum \<bar>x\<bar>"
  have hi: "fl \<bar>x\<bar> \<le> of_int (2 ^ 53) * ?q"
    using fl_pos_bounds(2) [OF True] by (simp add: quantum_def power_int_add power_int_diff)
  have "of_int (round_even (\<bar>x\<bar> / ?q)) \<le> (of_int (2 ^ 53) :: rat)"
    using hi True by (simp add: fl_def mult_le_cancel_right_pos)
  then have "round_even (\<bar>x\<bar> / ?q) \<le> 2 ^ 53" by (simp only: of_int_le_iff)
  moreover have "0 \<le> round_even (\<bar>x\<bar> / ?q)"
    using round_even_mono [of "of_int 0" "\<bar>x\<bar> / ?q"] unfolding round_even_of_int by simp
  ultimately have "fl (fl \<bar>x\<bar>) = fl \<bar>x\<bar>"
    using fl_dyadic [of "round_even (\<bar>x\<bar> / ?q)" "expo \<bar>x\<bar> - 52"] True
    by (simp add: fl_def [of "\<bar>x\<bar>"] quantum_def)
  then show ?thesis by (cases "0 < x") (auto simp: abs_if split: if_splits)
qed simp

section \<open>Decimal rounding\<close>

text \<open>\<open>round(x, n)\<close>\<close>

definition py_round :: "rat \<Rightarrow> nat \<Rightarrow> rat" where
  "py_round x n = fl (of_int (round_even (x * 10 ^ n)) / 10 ^ n)"

lemma py_round_mono: "x \<le> y \<Longrightarrow> py_round x n \<le> py_round y n"
  unfolding py_round_def
  by (intro fl_mono divide_right_mono) (auto intro!: round_even_mono mult_right_mono)

lemma py_round_0 [simp]: "py_round 0 n = 0"
  using round_even_of_int [of 0] by (simp add: py_round_def)

lemma py_round_1 [simp]: "py_round 1 n = 1"
  using round_even_of_int [of "10 ^ n"] by (simp add: py_round_def)

lemma py_round_nonneg [simp]: "0 \<le> x \<Longrightarrow> 0 \<le> py_round x n"
  using py_round_mono [of 0 x n] by simp

lemma py_round_le_1: "x \<le> 1 \<Longrightarrow> py_round x n \<le> 1"
  using py_round_mono [of x 1 n] by simp

end
