(* ===== verification/Settings.thy ===== *)
theory Settings
  imports PyText PyFloat
begin

text \<open>
  \<open>app/config.py\<close>: the settings the services read, as a record with the source's field names,
  their defaults, and the validator of the CORS origins. Float settings are binary64 values.
\<close>

record settings =
  DATABASE_URL :: string
  REDIS_URL :: string
  APP_NAME :: string
  DEBUG :: bool
  IP_RATE_WINDOW_SECONDS :: int
  IP_RATE_THRESHOLD :: int
  MODEL_RETRAIN_INTERVAL :: int
  BASELINE_BUFFER_MAX :: int
  ANOMALY_THRESHOLD_LOW :: rat
  ANOMALY_THRESHOLD_MEDIUM :: rat
  ANOMALY_THRESHOLD_HIGH :: rat
  ISOLATION_CONTAMINATION :: rat
  RULE_WEIGHT :: rat
  STAT_WEIGHT :: rat
  ISO_WEIGHT :: rat
  RETRAIN_COOLDOWN_SECONDS :: int
  API_KEY :: string
  CORS_ORIGINS :: "string list"
  MAX_QUEUE_DEPTH :: int
  RATE_LIMIT_LOGS_PER_MINUTE :: int
  MODEL_ARTIFACT_TTL :: int

text \<open>The defaults; the database URL has none and is given.\<close>

definition default_settings :: "string \<Rightarrow> settings" where
  "default_settings url = \<lparr>
     DATABASE_URL = url,
     REDIS_URL = ''redis://localhost:6379/0'',
     APP_NAME = ''SentinelAI'',
     DEBUG = False,
     IP_RATE_WINDOW_SECONDS = 60,
     IP_RATE_THRESHOLD = 5,
     MODEL_RETRAIN_INTERVAL = 200,
     BASELINE_BUFFER_MAX = 2000,
     ANOMALY_THRESHOLD_LOW = fl (2 / 10),
     ANOMALY_THRESHOLD_MEDIUM = fl (4 / 10),
     ANOMALY_THRESHOLD_HIGH = fl (7 / 10),
     ISOLATION_CONTAMINATION = fl (5 / 100),
     RULE_WEIGHT = fl (5 / 10),
     STAT_WEIGHT = fl (3 / 10),
     ISO_WEIGHT = fl (2 / 10),
     RETRAIN_COOLDOWN_SECONDS = 300,
     API_KEY = [],
     CORS_ORIGINS = [''http://localhost:3000''],
     MAX_QUEUE_DEPTH = 50000,
     RATE_LIMIT_LOGS_PER_MINUTE = 300,
     MODEL_ARTIFACT_TTL = 0\<rparr>"

text \<open>\<open>_parse_cors_origins\<close> takes a list or a comma-separated string.\<close>

definition parse_cors_origins :: "string + string list \<Rightarrow> string list" where
  "parse_cors_origins v = (case v of
       Inl s \<Rightarrow> [str_strip origin. origin \<leftarrow> str_split (CHR '','') s, str_strip origin \<noteq> []]
     | Inr l \<Rightarrow> l)"

text \<open>The thresholds are ordered and within the range of the risk score.\<close>

definition thresholds_ok :: "settings \<Rightarrow> bool" where
  "thresholds_ok cfg \<longleftrightarrow> 0 < ANOMALY_THRESHOLD_LOW cfg
     \<and> ANOMALY_THRESHOLD_LOW cfg \<le> ANOMALY_THRESHOLD_MEDIUM cfg
     \<and> ANOMALY_THRESHOLD_MEDIUM cfg \<le> ANOMALY_THRESHOLD_HIGH cfg
     \<and> ANOMALY_THRESHOLD_HIGH cfg \<le> 1"

definition weights_nonneg :: "settings \<Rightarrow> bool" where
  "weights_nonneg cfg \<longleftrightarrow> 0 \<le> RULE_WEIGHT cfg \<and> 0 \<le> STAT_WEIGHT cfg \<and> 0 \<le> ISO_WEIGHT cfg"

lemma thresholds_ok_default: "thresholds_ok (default_settings url)"
  by (simp add: thresholds_ok_def default_settings_def fl_mono fl_le_1)

lemma weights_nonneg_default: "weights_nonneg (default_settings url)"
  by (simp add: weights_nonneg_def default_settings_def)

end
