(* ===== verification/QueueService.thy ===== *)
theory QueueService
  imports Counters Settings
begin

text \<open>
  \<open>app/services/queue_service.py\<close>: the three Redis lists (main, processing, dead letters), the
  operations that move messages between them, the worker heartbeat, the retrain timestamp and
  the dashboard channel. A message in a list is the JSON text of a dictionary; \<open>lrem\<close> finds it
  again by its exact text. Every call of \<open>time.time()\<close> is an argument \<open>now\<close>.
\<close>

definition MAIN_QUEUE :: string where "MAIN_QUEUE = ''sentinel:queue:logs''"
definition PROCESSING_QUEUE :: string where "PROCESSING_QUEUE = ''sentinel:queue:processing''"
definition DLQ :: string where "DLQ = ''sentinel:queue:dlq''"
definition WORKER_HEARTBEAT_KEY :: string where "WORKER_HEARTBEAT_KEY = ''sentinel:worker:heartbeat''"
definition MODEL_RETRAIN_KEY :: string where "MODEL_RETRAIN_KEY = ''sentinel:model:last_retrain''"
definition DASHBOARD_EVENTS_CHANNEL :: string where
  "DASHBOARD_EVENTS_CHANNEL = ''sentinel:events:dashboard''"
definition MAX_RETRIES :: int where "MAX_RETRIES = 3"
definition VISIBILITY_TIMEOUT :: rat where "VISIBILITY_TIMEOUT = 30"

lemma queue_names_distinct [simp]:
  "MAIN_QUEUE \<noteq> PROCESSING_QUEUE" "PROCESSING_QUEUE \<noteq> MAIN_QUEUE" "MAIN_QUEUE \<noteq> DLQ"
  "DLQ \<noteq> MAIN_QUEUE" "PROCESSING_QUEUE \<noteq> DLQ" "DLQ \<noteq> PROCESSING_QUEUE"
  by (simp_all add: MAIN_QUEUE_def PROCESSING_QUEUE_def DLQ_def)

section \<open>Messages\<close>

text \<open>
  A dequeued message: the dictionary, and under \<open>__raw\<close> the text that stands for it in the
  processing list.
\<close>

record queue_message =
  msg_fields :: "json pydict"
  msg_raw :: "stored option"

definition is_private :: "string \<Rightarrow> bool" where
  "is_private k = prefix ''__'' k"

text \<open>\<open>{k: v for k, v in d.items() if not k.startswith("__")}\<close>\<close>

definition public :: "json pydict \<Rightarrow> json pydict" where
  "public d = filter (\<lambda>kv. \<not> is_private (fst kv)) d"

text \<open>
  The integer a JSON value is for Python's arithmetic; a boolean counts as 0 or 1. The other
  values make the arithmetic of the retry count raise \<open>TypeError\<close>. (A fractional retry count,
  which nothing writes, is one of them.)
\<close>

fun json_int :: "json \<Rightarrow> int option" where
  "json_int (JInt n) = Some n"
| "json_int (JBool b) = Some (of_bool b)"
| "json_int _ = None"

fun json_num :: "json \<Rightarrow> rat option" where
  "json_num (JInt n) = Some (of_int n)"
| "json_num (JBool b) = Some (of_bool b)"
| "json_num (JFloat x) = Some x"
| "json_num _ = None"

section \<open>Operations\<close>

definition new_message :: "json \<Rightarrow> rat \<Rightarrow> stored" where
  "new_message payload now = json_dumps (JObj
     [(''payload'', payload), (''retry_count'', JInt 0), (''enqueued_at'', JFloat now)])"

definition enqueue ::
  "'r redis_conn \<Rightarrow> settings \<Rightarrow> rat \<Rightarrow> json \<Rightarrow> (('r, 'z) env_scheme, unit) eff" where
  "enqueue R cfg now payload =
     bindE (redisE (redis_llen R MAIN_QUEUE)) (\<lambda>current_depth.
       if MAX_QUEUE_DEPTH cfg \<le> current_depth then raiseE QueueFull
       else redisE (redis_lpush R MAIN_QUEUE (new_message payload now)))"

definition tagged :: "json pydict \<Rightarrow> rat \<Rightarrow> json pydict" where
  "tagged parsed now = dict_set parsed ''started_processing_at'' (JFloat now)"

text \<open>Parse the moved entry, tag it, and replace it in the processing list.\<close>

definition tag_entry ::
  "'r redis_conn \<Rightarrow> rat \<Rightarrow> stored \<Rightarrow> (('r, 'z) env_scheme, queue_message option) eff" where
  "tag_entry R now raw0 = (case json_loads raw0 of
       Inl e \<Rightarrow> raiseE e
     | Inr (JObj parsed0) \<Rightarrow>
         (let parsed = tagged parsed0 now;
              updated_raw = json_dumps (JObj (public parsed))
          in bindE (redisE (R [LREM1 PROCESSING_QUEUE raw0, LPUSH PROCESSING_QUEUE updated_raw]))
               (\<lambda>_. returnE (Some \<lparr>msg_fields = parsed, msg_raw = Some updated_raw\<rparr>)))
     | Inr _ \<Rightarrow> raiseE TypeError)"

definition dequeue ::
  "'r redis_conn \<Rightarrow> rat \<Rightarrow> (('r, 'z) env_scheme, queue_message option) eff" where
  "dequeue R now =
     bindE (redisE (redis_blmove R MAIN_QUEUE PROCESSING_QUEUE)) (\<lambda>r. case r of
         None \<Rightarrow> returnE None
       | Some raw0 \<Rightarrow> tag_entry R now raw0)"

definition acknowledge :: "'r redis_conn \<Rightarrow> queue_message \<Rightarrow> (('r, 'z) env_scheme, unit) eff" where
  "acknowledge R m =
     redisE (redis_lrem R PROCESSING_QUEUE (case msg_raw m of
         None \<Rightarrow> json_dumps (JObj (public (msg_fields m)))
       | Some r \<Rightarrow> r))"

definition retry_raw :: "queue_message \<Rightarrow> stored" where
  "retry_raw m = (let clean = public (msg_fields m) in case msg_raw m of
       None \<Rightarrow> json_dumps (JObj
         (dict_set clean ''retry_count'' (dict_get_or clean ''retry_count'' (JInt 0))))
     | Some r \<Rightarrow> r)"

definition retried :: "queue_message \<Rightarrow> int \<Rightarrow> json pydict" where
  "retried m n = dict_set (public (msg_fields m)) ''retry_count'' (JInt n)"

definition dlq_entry :: "rat \<Rightarrow> queue_message \<Rightarrow> int \<Rightarrow> stored" where
  "dlq_entry now m n = json_dumps (JObj (dict_set (retried m n) ''moved_to_dlq_at'' (JFloat now)))"

definition requeue_entry :: "rat \<Rightarrow> queue_message \<Rightarrow> int \<Rightarrow> stored" where
  "requeue_entry now m n = json_dumps (JObj (dict_set (retried m n) ''process_after''
     (JFloat (fl (now + fl (2 powi n))))))"

definition retry_or_dlq ::
  "'r redis_conn \<Rightarrow> rat \<Rightarrow> queue_message \<Rightarrow> (('r, 'z) env_scheme, bool) eff" where
  "retry_or_dlq R now m =
     (case json_int (dict_get_or (public (msg_fields m)) ''retry_count'' (JInt 0)) of
        None \<Rightarrow> raiseE TypeError
      | Some n0 \<Rightarrow>
        (let n = n0 + 1 in
         thenE (redisE (redis_lrem R PROCESSING_QUEUE (retry_raw m)))
           (if MAX_RETRIES \<le> n then
              thenE (redisE (redis_lpush R DLQ (dlq_entry now m n)))
                (thenE (increment_async R ''dlq_count'' 1) (returnE False))
            else
              thenE (redisE (redis_lpush R MAIN_QUEUE (requeue_entry now m n)))
                (thenE (increment_async R ''retries'' 1) (returnE True)))))"

text \<open>\<open>lrem\<close> and \<open>lpush\<close> of one recovered entry.\<close>

definition requeue_raw :: "'r redis_conn \<Rightarrow> stored \<Rightarrow> (('r, 'z) env_scheme, unit) eff" where
  "requeue_raw R r =
     thenE (redisE (redis_lrem R PROCESSING_QUEUE r)) (redisE (redis_lpush R MAIN_QUEUE r))"

datatype staleness = Stale | Active | Unreadable exn

definition staleness :: "rat \<Rightarrow> stored \<Rightarrow> staleness" where
  "staleness now r = (case json_loads r of
       Inl _ \<Rightarrow> Stale
     | Inr (JObj d) \<Rightarrow>
         (case json_num (dict_get_or d ''started_processing_at'' (JInt 0)) of
            None \<Rightarrow> Unreadable TypeError
          | Some t \<Rightarrow> if VISIBILITY_TIMEOUT < fl (now - t) then Stale else Active)
     | Inr _ \<Rightarrow> Unreadable AttributeError)"

fun recover_loop ::
  "'r redis_conn \<Rightarrow> rat \<Rightarrow> stored list \<Rightarrow> int \<Rightarrow> (('r, 'z) env_scheme, int) eff" where
  "recover_loop R now [] n = returnE n"
| "recover_loop R now (r # rs) n = (case staleness now r of
       Stale \<Rightarrow> thenE (requeue_raw R r) (recover_loop R now rs (n + 1))
     | Active \<Rightarrow> recover_loop R now rs n
     | Unreadable e \<Rightarrow> raiseE e)"

definition recover_processing_queue ::
  "'r redis_conn \<Rightarrow> rat \<Rightarrow> (('r, 'z) env_scheme, int) eff" where
  "recover_processing_queue R now =
     bindE (redisE (redis_lrange R PROCESSING_QUEUE)) (\<lambda>items.
       if items = [] then returnE 0 else recover_loop R now items 0)"

fun loads_all :: "stored list \<Rightarrow> exn + json list" where
  "loads_all [] = Inr []"
| "loads_all (r # rs) = (case json_loads r of
       Inl e \<Rightarrow> Inl e
     | Inr v \<Rightarrow> (case loads_all rs of Inl e \<Rightarrow> Inl e | Inr vs \<Rightarrow> Inr (v # vs)))"

definition dlq_list :: "'r redis_conn \<Rightarrow> (('r, 'z) env_scheme, json list) eff" where
  "dlq_list R = bindE (redisE (redis_lrange R DLQ)) (\<lambda>items.
     case loads_all items of Inl e \<Rightarrow> raiseE e | Inr vs \<Rightarrow> returnE vs)"

definition queue_lengths :: "'r redis_conn \<Rightarrow> (('r, 'z) env_scheme, int pydict) eff" where
  "queue_lengths R =
     bindE (redisE (redis_llen R MAIN_QUEUE)) (\<lambda>a.
     bindE (redisE (redis_llen R PROCESSING_QUEUE)) (\<lambda>b.
     bindE (redisE (redis_llen R DLQ)) (\<lambda>c.
       returnE [(''main'', a), (''processing'', b), (''dlq'', c)])))"

definition queue_depth_total :: "'r redis_conn \<Rightarrow> (('r, 'z) env_scheme, int) eff" where
  "queue_depth_total R =
     bindE (redisE (R [LLEN MAIN_QUEUE, LLEN PROCESSING_QUEUE, LLEN DLQ])) (\<lambda>rs. case rs of
         [RInt a, RInt b, RInt c] \<Rightarrow> returnE (a + b + c)
       | _ \<Rightarrow> raiseE ValueError)"

text \<open>\<open>str\<close> of a float is its JSON text, and \<open>float\<close> reads it back.\<close>

definition set_worker_heartbeat :: "'r redis_conn \<Rightarrow> rat \<Rightarrow> (('r, 'z) env_scheme, unit) eff" where
  "set_worker_heartbeat R timestamp =
     redisE (redis_set R WORKER_HEARTBEAT_KEY (Text (JFloat timestamp)) (Some 120))"

definition get_worker_heartbeat :: "'r redis_conn \<Rightarrow> (('r, 'z) env_scheme, rat option) eff" where
  "get_worker_heartbeat R = bindE (redisE (redis_get R WORKER_HEARTBEAT_KEY)) (\<lambda>r. case r of
       None \<Rightarrow> returnE None
     | Some (Text (JFloat t)) \<Rightarrow> returnE (Some t)
     | Some (Text (JInt i)) \<Rightarrow> returnE (Some (fl (of_int i)))
     | Some _ \<Rightarrow> raiseE ValueError)"

definition set_last_model_retrain :: "'r redis_conn \<Rightarrow> string \<Rightarrow> (('r, 'z) env_scheme, unit) eff" where
  "set_last_model_retrain R iso_timestamp =
     redisE (redis_set R MODEL_RETRAIN_KEY (RawText iso_timestamp) None)"

definition get_last_model_retrain :: "'r redis_conn \<Rightarrow> (('r, 'z) env_scheme, stored option) eff" where
  "get_last_model_retrain R = redisE (redis_get R MODEL_RETRAIN_KEY)"

definition publish_dashboard_event :: "'r redis_conn \<Rightarrow> json \<Rightarrow> (('r, 'z) env_scheme, unit) eff" where
  "publish_dashboard_event R event =
     tryE (redisE (redis_publish R DASHBOARD_EVENTS_CHANNEL (json_dumps event))) (\<lambda>_. returnE ())"

section \<open>What an operation does to the lists\<close>

text \<open>
  The payloads of all messages in the three lists, as a multiset. A text that is not a
  dictionary with a payload counts as \<open>None\<close>, so nothing in a list goes uncounted.
\<close>

definition payload_of :: "stored \<Rightarrow> json option" where
  "payload_of r = (case json_loads r of Inr (JObj d) \<Rightarrow> dict_get d ''payload'' | _ \<Rightarrow> None)"

definition in_flight :: "redis_db \<Rightarrow> json option multiset" where
  "in_flight d = image_mset payload_of
     (mset (rlists d MAIN_QUEUE) + mset (rlists d PROCESSING_QUEUE) + mset (rlists d DLQ))"

abbreviation db :: "('r \<Rightarrow> redis_db) \<Rightarrow> ('r, 'z) env_scheme \<Rightarrow> redis_db" where
  "db view w \<equiv> view (conn w)"

lemma dict_get_public: "\<not> is_private k \<Longrightarrow> dict_get (public d) k = dict_get d k"
  by (induction d) (auto simp: public_def dict_simps)

lemma public_idem [simp]: "public (public d) = public d"
  by (simp add: public_def)

lemma public_keys [simp]:
  "\<not> is_private ''payload''" "\<not> is_private ''retry_count''" "\<not> is_private ''enqueued_at''"
  "\<not> is_private ''started_processing_at''" "\<not> is_private ''process_after''"
  "\<not> is_private ''moved_to_dlq_at''"
  by (simp_all add: is_private_def)

lemma public_dict_set: "\<not> is_private k \<Longrightarrow> public (dict_set d k v) = dict_set (public d) k v"
  by (induction d) (auto simp: public_def dict_simps)

lemma payload_of_dumps [simp]: "payload_of (json_dumps (JObj d)) = dict_get d ''payload''"
  by (simp add: payload_of_def)

lemma payload_of_new_message [simp]: "payload_of (new_message p now) = Some p"
  by (simp add: new_message_def dict_simps)

lemma in_flight_set_list:
  "in_flight (set_list MAIN_QUEUE xs d) + image_mset payload_of (mset (rlists d MAIN_QUEUE))
     = in_flight d + image_mset payload_of (mset xs)"
  "in_flight (set_list PROCESSING_QUEUE xs d)
       + image_mset payload_of (mset (rlists d PROCESSING_QUEUE))
     = in_flight d + image_mset payload_of (mset xs)"
  "in_flight (set_list DLQ xs d) + image_mset payload_of (mset (rlists d DLQ))
     = in_flight d + image_mset payload_of (mset xs)"
  by (simp_all add: in_flight_def ac_simps)

lemma in_flight_push:
  assumes "k \<in> {MAIN_QUEUE, PROCESSING_QUEUE, DLQ}"
  shows "in_flight (set_list k (v # rlists d k) d) = add_mset (payload_of v) (in_flight d)"
  using assms by (auto simp: in_flight_def ac_simps)

lemma in_flight_remove:
  assumes "v \<in> set (rlists d PROCESSING_QUEUE)"
  shows "add_mset (payload_of v)
      (in_flight (set_list PROCESSING_QUEUE (remove1 v (rlists d PROCESSING_QUEUE)) d)) = in_flight d"
proof -
  have "image_mset payload_of (mset (rlists d PROCESSING_QUEUE))
      = image_mset payload_of (add_mset v (mset (remove1 v (rlists d PROCESSING_QUEUE))))"
    using assms by simp
  then show ?thesis by (simp add: in_flight_def del: mset_remove1)
qed

lemma rlists_moved:
  assumes "rlists d MAIN_QUEUE \<noteq> []"
  shows "rlists (moved MAIN_QUEUE PROCESSING_QUEUE d) =
      (rlists d)(MAIN_QUEUE := butlast (rlists d MAIN_QUEUE),
        PROCESSING_QUEUE := last (rlists d MAIN_QUEUE) # rlists d PROCESSING_QUEUE)"
  using assms by (simp add: moved_def Let_def)

lemma in_flight_moved: "in_flight (moved MAIN_QUEUE PROCESSING_QUEUE d) = in_flight d"
proof (cases "rlists d MAIN_QUEUE = []")
  case True
  then show ?thesis by (simp add: moved_def)
next
  case False
  then have "mset (rlists d MAIN_QUEUE)
      = add_mset (last (rlists d MAIN_QUEUE)) (mset (butlast (rlists d MAIN_QUEUE)))"
    by (metis append_butlast_last_id mset_append mset.simps add_mset_add_single)
  with False show ?thesis by (simp add: in_flight_def rlists_moved)
qed

section \<open>Lifting the calls to the process state\<close>

lemma redisE_cases:
  assumes "redisE m w = (r, w')"
  shows "m (conn w) = (r, conn w') \<and> w' = w\<lparr>conn := conn w'\<rparr>"
  using assms by (auto simp: redisE_apply split: prod.splits)

lemma redisE_counters: "redisE m w = (r, w') \<Longrightarrow> counters w' = counters w"
  by (auto simp: redisE_apply split: prod.splits)

lemma redisE_up: "m (conn w) = (r, c) \<Longrightarrow> redisE m w = (r, w\<lparr>conn := c\<rparr>)"
  by (simp add: redisE_apply)

lemma redisE_llen_cases:
  assumes "redis_ok R view" and "redisE (redis_llen R k) w = (r, w')"
  shows "db view w' = db view w \<and> (r = Inr (int (length (rlists (db view w) k))) \<or> (\<exists>e. r = Inl e))"
  using redis_llen_cases [OF assms(1)] redisE_cases [OF assms(2)] by blast

lemma redisE_lpush_cases:
  assumes "redis_ok R view" and "redisE (redis_lpush R k v) w = (r, w')"
  shows "r = Inr () \<and> db view w' = set_list k (v # rlists (db view w) k) (db view w)
    \<or> (\<exists>e. r = Inl e) \<and>
       (db view w' = db view w \<or> db view w' = set_list k (v # rlists (db view w) k) (db view w))"
  using redis_lpush_cases [OF assms(1)] redisE_cases [OF assms(2)] by blast

lemma redisE_lrem_cases:
  assumes "redis_ok R view" and "redisE (redis_lrem R k v) w = (r, w')"
  shows "r = Inr () \<and> db view w' = set_list k (remove1 v (rlists (db view w) k)) (db view w)
    \<or> (\<exists>e. r = Inl e) \<and>
       (db view w' = db view w \<or> db view w' = set_list k (remove1 v (rlists (db view w) k)) (db view w))"
  using redis_lrem_cases [OF assms(1)] redisE_cases [OF assms(2)] by blast

lemma redisE_lrange_cases:
  assumes "redis_ok R view" and "redisE (redis_lrange R k) w = (r, w')"
  shows "db view w' = db view w \<and> (r = Inr (rlists (db view w) k) \<or> (\<exists>e. r = Inl e))"
  using redis_lrange_cases [OF assms(1)] redisE_cases [OF assms(2)] by blast

lemma redisE_blmove_cases:
  assumes "redis_ok R view" and "redisE (redis_blmove R src dst) w = (r, w')"
  shows "r = Inr None \<and> rlists (db view w) src = [] \<and> db view w' = db view w
    \<or> r = Inr (Some (last (rlists (db view w) src))) \<and> rlists (db view w) src \<noteq> []
        \<and> db view w' = moved src dst (db view w)
    \<or> (\<exists>e. r = Inl e) \<and> (db view w' = db view w \<or> db view w' = moved src dst (db view w))"
  using redis_blmove_cases [OF assms(1)] redisE_cases [OF assms(2)] by blast

lemma enqueue_cases:
  assumes "redis_ok R view" and "enqueue R cfg now p w = (r, w')"
  defines "q \<equiv> rlists (db view w) MAIN_QUEUE"
  defines "full \<equiv> MAX_QUEUE_DEPTH cfg \<le> int (length q)"
    and "pushed \<equiv> set_list MAIN_QUEUE (new_message p now # q) (db view w)"
  shows "r = Inr () \<and> \<not> full \<and> db view w' = pushed
     \<or> r = Inl QueueFull \<and> full \<and> db view w' = db view w
     \<or> (\<exists>e. r = Inl e) \<and> (db view w' = db view w \<or> \<not> full \<and> db view w' = pushed)"
proof -
  obtain r1 w1 where 1: "redisE (redis_llen R MAIN_QUEUE) w = (r1, w1)" by fastforce
  note c1 = redisE_llen_cases [OF assms(1) 1]
  show ?thesis
  proof (cases r1)
    case (Inl e)
    with 1 c1 assms(2) show ?thesis by (auto simp: enqueue_def bindE_def)
  next
    case (Inr n)
    with c1 have n: "n = int (length q)" by (simp add: q_def)
    show ?thesis
    proof (cases full)
      case True
      with 1 c1 Inr n assms(2) show ?thesis
        by (auto simp: enqueue_def bindE_def raiseE_def full_def)
    next
      case False
      with 1 Inr n assms(2) have "redisE (redis_lpush R MAIN_QUEUE (new_message p now)) w1 = (r, w')"
        by (simp add: enqueue_def bindE_def full_def)
      note c2 = redisE_lpush_cases [OF assms(1) this]
      from c1 have eq: "db view w1 = db view w" by blast
      from c2 have "r = Inr () \<and> db view w' = pushed
          \<or> (\<exists>e. r = Inl e) \<and> (db view w' = db view w \<or> db view w' = pushed)"
        unfolding eq pushed_def q_def .
      with False show ?thesis by (elim disjE conjE) simp_all
    qed
  qed
qed

lemma txn_cases:
  assumes "redis_ok R view" and "redisE (R cs) w = (r, w')"
  shows "(\<exists>rs. r = Inr rs \<and> apply_cmds cs (db view w) = (rs, db view w'))
    \<or> (\<exists>e. r = Inl e) \<and> (db view w' = db view w \<or> db view w' = snd (apply_cmds cs (db view w)))"
proof -
  from redisE_cases [OF assms(2)] have R: "R cs (conn w) = (r, conn w')" by blast
  from assms(1) have "case R cs (conn w) of
       (Inr rs, s') \<Rightarrow> apply_cmds cs (db view w) = (rs, view s')
     | (Inl e, s') \<Rightarrow> e = RedisError \<and>
         (view s' = db view w \<or> view s' = snd (apply_cmds cs (db view w)))"
    unfolding redis_ok_def by (elim allE)
  then show ?thesis unfolding R by (cases r) auto
qed

text \<open>The entry a dequeue leaves in the processing list.\<close>

definition retag :: "rat \<Rightarrow> stored \<Rightarrow> redis_db \<Rightarrow> redis_db" where
  "retag now updated d = set_list PROCESSING_QUEUE (updated # tl (rlists d PROCESSING_QUEUE)) d"

lemma apply_retag:
  assumes "rlists d PROCESSING_QUEUE = r # rs"
  shows "snd (apply_cmds [LREM1 PROCESSING_QUEUE r, LPUSH PROCESSING_QUEUE u] d)
    = set_list PROCESSING_QUEUE (u # rs) d"
  using assms by (simp add: set_list_def)

end
