(* ===== verification/BaselineStore.thy ===== *)
theory BaselineStore
  imports Settings
begin

text \<open>
  \<open>app/services/baseline_store.py\<close>: the ring buffer of feature vectors the model is trained on, with
  the parallel deque of source addresses and the per-IP quota.
\<close>

section \<open>The store\<close>

definition FEATURE_DIM :: nat where "FEATURE_DIM = 4"

record baseline =
  max_size :: int
  vec_dim :: "nat option"
  buffer :: "rat list list"
  ip_buffer :: "string option list"

definition MAX_PER_IP_FRACTION :: rat where
  "MAX_PER_IP_FRACTION = fl (5 / 100)"

text \<open>
  \<open>max_size or settings.BASELINE_BUFFER_MAX\<close>: an absent or zero size takes the setting's.
  \<open>deque(maxlen=...)\<close> raises \<open>ValueError\<close> on a negative bound.
\<close>

definition new_baseline :: "settings \<Rightarrow> int option \<Rightarrow> nat option \<Rightarrow> exn + baseline" where
  "new_baseline cfg limit fdim =
     (let m = (case limit of None \<Rightarrow> BASELINE_BUFFER_MAX cfg
                | Some n \<Rightarrow> if n \<noteq> 0 then n else BASELINE_BUFFER_MAX cfg)
      in if m < 0 then Inl ValueError
         else Inr \<lparr>max_size = m, vec_dim = fdim, buffer = [], ip_buffer = []\<rparr>)"

text \<open>\<open>int(self._max_size * self._MAX_PER_IP_FRACTION)\<close>; the size is not negative.\<close>

definition max_allowed :: "int \<Rightarrow> int" where
  "max_allowed m = \<lfloor>fl (fl (of_int m) * MAX_PER_IP_FRACTION)\<rfloor>"

definition ip_count :: "string option list \<Rightarrow> string \<Rightarrow> int" where
  "ip_count ips ip = int (length (filter (\<lambda>stored_ip. stored_ip = Some ip) ips))"

definition over_quota :: "baseline \<Rightarrow> string option \<Rightarrow> bool" where
  "over_quota st ip = (case ip of None \<Rightarrow> False
     | Some a \<Rightarrow> max_allowed (max_size st) \<le> ip_count (ip_buffer st) a)"

definition wrong_dim :: "baseline \<Rightarrow> rat list \<Rightarrow> bool" where
  "wrong_dim st features = (case vec_dim st of None \<Rightarrow> False | Some d \<Rightarrow> length features \<noteq> d)"

definition baseline_add :: "rat list \<Rightarrow> string option \<Rightarrow> (baseline, unit) eff" where
  "baseline_add features ip st =
     (if wrong_dim st features then (Inl ValueError, st)
      else if over_quota st ip then (Inr (), st)
      else (Inr (), st\<lparr>buffer := deque_append (nat (max_size st)) (buffer st) features,
                       ip_buffer := deque_append (nat (max_size st)) (ip_buffer st) ip\<rparr>))"

definition baseline_size :: "baseline \<Rightarrow> int" where
  "baseline_size st = int (length (buffer st))"

text \<open>\<open>np.array\<close> of the rows: rows of different lengths are a \<open>ValueError\<close>.\<close>

definition get_training_data :: "baseline \<Rightarrow> exn + rat list list" where
  "get_training_data st =
     (case buffer st of [] \<Rightarrow> Inr []
      | v # vs \<Rightarrow> if list_all (\<lambda>w. length w = length v) vs then Inr (v # vs) else Inl ValueError)"

definition baseline_clear :: "baseline \<Rightarrow> baseline" where
  "baseline_clear st = st\<lparr>buffer := [], ip_buffer := []\<rparr>"

text \<open>The calls the services make, in any order.\<close>

datatype baseline_op = Add "rat list" "string option" | Clear

fun baseline_run :: "baseline_op list \<Rightarrow> baseline \<Rightarrow> baseline" where
  "baseline_run [] st = st"
| "baseline_run (Add v ip # ops) st = baseline_run ops (snd (baseline_add v ip st))"
| "baseline_run (Clear # ops) st = baseline_run ops (baseline_clear st)"

section \<open>Invariant\<close>

lemma max_allowed_nonneg: "0 \<le> m \<Longrightarrow> 0 \<le> max_allowed m"
  by (simp add: max_allowed_def MAX_PER_IP_FRACTION_def)

lemma max_allowed_mono: "m \<le> n \<Longrightarrow> max_allowed m \<le> max_allowed n"
  unfolding max_allowed_def MAX_PER_IP_FRACTION_def
  by (intro floor_mono fl_mono mult_right_mono) simp_all

lemma max_allowed_small: "m < 20 \<Longrightarrow> max_allowed m \<le> 0"
proof -
  assume "m < 20"
  then have "max_allowed m \<le> max_allowed 19" by (intro max_allowed_mono) simp
  also have "max_allowed 19 = 0" by code_simp
  finally show ?thesis .
qed

definition baseline_ok :: "baseline \<Rightarrow> bool" where
  "baseline_ok st \<longleftrightarrow> 0 \<le> max_size st
     \<and> length (ip_buffer st) = length (buffer st)
     \<and> baseline_size st \<le> max_size st
     \<and> (\<forall>v\<in>set (buffer st). \<not> wrong_dim st v)
     \<and> (\<forall>a. ip_count (ip_buffer st) a \<le> max_allowed (max_size st))"

lemma ip_count_append: "ip_count (xs @ ys) a = ip_count xs a + ip_count ys a"
  by (simp add: ip_count_def)

lemma ip_count_deque_append:
  "ip_count (deque_append n ips ip) a \<le> ip_count ips a + (if ip = Some a then 1 else 0)"
proof -
  have "suffix (deque_append n ips ip) (ips @ [ip])" by (rule suffix_deque_append)
  then obtain pre where "ips @ [ip] = pre @ deque_append n ips ip" by (rule suffixE)
  then have "ip_count (ips @ [ip]) a = ip_count pre a + ip_count (deque_append n ips ip) a"
    by (simp only: ip_count_append)
  moreover have "0 \<le> ip_count pre a" by (simp add: ip_count_def)
  moreover have "ip_count [ip] a = (if ip = Some a then 1 else 0)" by (simp add: ip_count_def)
  ultimately show ?thesis by (simp only: ip_count_append)
qed

lemma baseline_add_frame:
  "max_size (snd (baseline_add v ip st)) = max_size st"
  "vec_dim (snd (baseline_add v ip st)) = vec_dim st"
  by (simp_all add: baseline_add_def)

lemma baseline_add_ok:
  assumes ok: "baseline_ok st"
  shows "baseline_ok (snd (baseline_add v ip st))"
proof (cases "wrong_dim st v \<or> over_quota st ip")
  case True
  then show ?thesis using ok by (auto simp: baseline_add_def)
next
  case False
  let ?n = "nat (max_size st)"
  have st': "snd (baseline_add v ip st) = st\<lparr>buffer := deque_append ?n (buffer st) v,
      ip_buffer := deque_append ?n (ip_buffer st) ip\<rparr>"
    using False by (simp add: baseline_add_def)
  have q: "ip_count (deque_append ?n (ip_buffer st) ip) a \<le> max_allowed (max_size st)" for a
    using ip_count_deque_append [of ?n "ip_buffer st" ip a] ok False
    by (auto simp: baseline_ok_def over_quota_def split: if_splits option.splits)
      (smt (verit) not_less)+
  have d: "\<forall>w\<in>set (deque_append ?n (buffer st) v). \<not> wrong_dim st w"
    using ok False set_deque_append [of ?n "buffer st" v] by (auto simp: baseline_ok_def)
  show ?thesis
    unfolding st' using ok q d length_deque_append_le [of ?n "buffer st" v]
    by (auto simp: baseline_ok_def baseline_size_def length_deque_append wrong_dim_def)
qed

lemma baseline_clear_ok: "baseline_ok st \<Longrightarrow> baseline_ok (baseline_clear st)"
  by (simp add: baseline_ok_def baseline_clear_def baseline_size_def ip_count_def max_allowed_nonneg)

lemma new_baseline_ok: "new_baseline cfg limit fdim = Inr st \<Longrightarrow> baseline_ok st"
  by (auto simp: new_baseline_def Let_def baseline_ok_def baseline_size_def ip_count_def
      max_allowed_nonneg split: if_splits option.splits)

lemma baseline_run_ok: "baseline_ok st \<Longrightarrow> baseline_ok (baseline_run ops st)"
  by (induction ops st rule: baseline_run.induct) (simp_all add: baseline_add_ok baseline_clear_ok)

lemma baseline_run_frame:
  "max_size (baseline_run ops st) = max_size st" "vec_dim (baseline_run ops st) = vec_dim st"
  by (induction ops st rule: baseline_run.induct)
    (simp_all add: baseline_add_frame baseline_clear_def)

lemma training_rows:
  assumes "baseline_ok st" and "vec_dim st = Some d"
  shows "get_training_data st = Inr (buffer st)"
  using assms
  by (cases "buffer st")
    (auto simp: get_training_data_def baseline_ok_def wrong_dim_def list_all_iff)

text \<open>
  C29. Whatever is added and cleared, and in whatever order: the two deques stay parallel, the store
  holds at most \<open>max_size\<close> vectors, no address has more than its quota of them (so one source
  cannot dominate the training data), and the training data are rows of the configured dimension,
  so building the array never fails.
\<close>

theorem baseline_training_data_bounded:
  assumes "new_baseline cfg limit (Some d) = Inr st0"
    and "st = baseline_run ops st0"
  shows "length (ip_buffer st) = length (buffer st)
    \<and> get_training_data st = Inr (buffer st)
    \<and> int (length (buffer st)) \<le> max_size st0
    \<and> (\<forall>v\<in>set (buffer st). length v = d)
    \<and> (\<forall>a. ip_count (ip_buffer st) a \<le> max_allowed (max_size st0))"
proof -
  have d: "vec_dim st0 = Some d"
    using assms(1) by (auto simp: new_baseline_def Let_def split: if_splits)
  have ok: "baseline_ok st" using new_baseline_ok [OF assms(1)] by (simp add: assms(2) baseline_run_ok)
  have f: "max_size st = max_size st0" "vec_dim st = Some d"
    by (simp_all add: assms(2) baseline_run_frame d)
  show ?thesis
    using ok training_rows [OF ok f(2)] f
    by (auto simp: baseline_ok_def baseline_size_def wrong_dim_def)
qed

definition small_baseline :: "nat \<Rightarrow> baseline" where
  "small_baseline n = \<lparr>max_size = int n, vec_dim = Some 4, buffer = [], ip_buffer = []\<rparr>"

theorem baseline_training_data_bounded_witness:
  "ip_count (ip_buffer (baseline_run (replicate 5 (Add [1, 20, 1, 0] (Some ''10.0.0.1'')))
     (small_baseline 40))) ''10.0.0.1'' \<le> 2"
proof -
  have n: "new_baseline (default_settings []) (Some 40) (Some 4) = Inr (small_baseline 40)"
    by (simp add: new_baseline_def small_baseline_def)
  have q: "max_allowed (max_size (small_baseline 40)) = 2" by code_simp
  show ?thesis
    using baseline_training_data_bounded [OF n refl,
        of "replicate 5 (Add [1, 20, 1, 0] (Some ''10.0.0.1''))"] unfolding q by blast
qed

section \<open>The ring buffer\<close>

text \<open>The vectors that an add sequence accepts, oldest first.\<close>

fun accepted :: "(rat list \<times> string option) list \<Rightarrow> baseline \<Rightarrow> (rat list \<times> string option) list" where
  "accepted [] st = []"
| "accepted ((v, ip) # vs) st =
     (if wrong_dim st v \<or> over_quota st ip then [] else [(v, ip)])
      @ accepted vs (snd (baseline_add v ip st))"

lemma ring_step:
  assumes "buffer st = map fst (last_n (nat (max_size st)) h)"
    and "ip_buffer st = map snd (last_n (nat (max_size st)) h)"
    and "\<not> (wrong_dim st v \<or> over_quota st ip)"
  shows "buffer (snd (baseline_add v ip st)) = map fst (last_n (nat (max_size st)) (h @ [(v, ip)]))"
    and "ip_buffer (snd (baseline_add v ip st)) = map snd (last_n (nat (max_size st)) (h @ [(v, ip)]))"
  using assms by (simp_all add: baseline_add_def last_n_snoc [symmetric] map_deque_append)

lemma ring_of_history:
  assumes "buffer st = map fst (last_n (nat (max_size st)) h)"
    and "ip_buffer st = map snd (last_n (nat (max_size st)) h)"
  shows "buffer (baseline_run (map (\<lambda>(v, ip). Add v ip) vs) st)
      = map fst (last_n (nat (max_size st)) (h @ accepted vs st))
    \<and> ip_buffer (baseline_run (map (\<lambda>(v, ip). Add v ip) vs) st)
      = map snd (last_n (nat (max_size st)) (h @ accepted vs st))"
  using assms
proof (induction vs st arbitrary: h rule: accepted.induct)
  case (1 st)
  then show ?case by simp
next
  case (2 v ip vs st)
  show ?case
  proof (cases "wrong_dim st v \<or> over_quota st ip")
    case True
    then have "snd (baseline_add v ip st) = st" by (auto simp: baseline_add_def)
    then show ?thesis using 2 True by simp
  next
    case False
    then show ?thesis
      using "2.IH" [OF ring_step(1) [OF "2.prems" False, folded baseline_add_frame(1) [of v ip st]]
          ring_step(2) [OF "2.prems" False, folded baseline_add_frame(1) [of v ip st]]]
      by (simp add: baseline_add_frame)
  qed
qed

text \<open>
  C28. The store is a ring buffer over what it accepts: after any sequence of adds, it holds the last
  \<open>max_size\<close> accepted vectors in order, each beside the address it came with.
\<close>

theorem baseline_holds_last_accepted:
  assumes "new_baseline cfg limit fdim = Inr st0"
  shows "zip (buffer (baseline_run (map (\<lambda>(v, ip). Add v ip) vs) st0))
      (ip_buffer (baseline_run (map (\<lambda>(v, ip). Add v ip) vs) st0))
    = last_n (nat (max_size st0)) (accepted vs st0)"
proof -
  have "buffer st0 = map fst (last_n (nat (max_size st0)) ([] :: (rat list \<times> string option) list))"
    "ip_buffer st0 = map snd (last_n (nat (max_size st0)) ([] :: (rat list \<times> string option) list))"
    using assms by (auto simp: new_baseline_def Let_def last_n_def split: if_splits option.splits)
  from ring_of_history [OF this, of vs] show ?thesis by (simp add: zip_map_fst_snd)
qed

theorem baseline_holds_last_accepted_witness:
  "zip (buffer (baseline_run (map (\<lambda>(v, ip). Add v ip) [([1,2,0,0], None), ([2,3,0,0], None)])
       (small_baseline 1)))
     (ip_buffer (baseline_run (map (\<lambda>(v, ip). Add v ip) [([1,2,0,0], None), ([2,3,0,0], None)])
       (small_baseline 1))) = [([2,3,0,0], None)]"
proof -
  have n: "new_baseline (default_settings []) (Some 1) (Some 4) = Inr (small_baseline 1)"
    by (simp add: new_baseline_def small_baseline_def)
  have a: "last_n (nat (max_size (small_baseline 1)))
      (accepted [([1,2,0,0], None), ([2,3,0,0], None)] (small_baseline 1)) = [([2,3,0,0], None)]"
    by code_simp
  show ?thesis
    by (rule baseline_holds_last_accepted [OF n,
          of "[([1,2,0,0], None), ([2,3,0,0], None)]", unfolded a])
qed

text \<open>A store of fewer than twenty vectors has a quota of none: it refuses every vector that has an address.\<close>

lemma small_baseline_refuses_addresses:
  assumes "max_size st < 20" and "\<not> wrong_dim st v"
  shows "baseline_add v (Some ip) st = (Inr (), st)"
proof -
  have "max_allowed (max_size st) \<le> 0" using assms(1) by (rule max_allowed_small)
  moreover have "0 \<le> ip_count (ip_buffer st) ip" by (simp add: ip_count_def)
  ultimately show ?thesis using assms(2) by (simp add: baseline_add_def over_quota_def)
qed

end
