(* ===== verification/IsolationEngine.thy ===== *)
theory IsolationEngine
  imports QueueService BaselineStore
begin

text \<open>
  \<open>app/services/isolation_engine.py\<close>: scoring, the retraining decision, the retraining task cut at
  its \<open>await\<close>s, and the persistence of the model. scikit-learn, joblib, hashlib and the ISO dates
  are a record of functions, \<open>'m ml\<close>; nothing is assumed of them. A date is its ISO text.
\<close>

section \<open>State\<close>

record 'm ml =
  ml_fit :: "rat \<Rightarrow> rat list list \<Rightarrow> exn + 'm"
  ml_decision :: "'m \<Rightarrow> rat list \<Rightarrow> exn + rat"
  ml_dump :: "'m \<Rightarrow> nat list"
  ml_load :: "nat list \<Rightarrow> exn + 'm"
  ml_sha256 :: "nat list \<Rightarrow> string"
  ml_fromisoformat :: "string \<Rightarrow> exn + string"

record 'm isolation =
  model :: "'m option"
  trained :: bool
  retraining :: bool
  contamination :: rat
  last_retrain_at :: "string option"
  last_retrain_time :: rat
  samples_at_last_retrain :: int
  last_discrimination_score :: rat
  model_id :: "json option"

definition MODEL_ARTIFACT_KEY :: string where
  "MODEL_ARTIFACT_KEY = ''sentinel:model:artifact''"

definition MODEL_PROVENANCE_KEY :: string where
  "MODEL_PROVENANCE_KEY = ''sentinel:model:provenance''"

definition new_engine :: "settings \<Rightarrow> 'm isolation" where
  "new_engine cfg = \<lparr>model = None, trained = False, retraining = False,
     contamination = ISOLATION_CONTAMINATION cfg, last_retrain_at = None, last_retrain_time = 0,
     samples_at_last_retrain = 0, last_discrimination_score = 0, model_id = None\<rparr>"

definition engine_reset :: "'m isolation \<Rightarrow> 'm isolation" where
  "engine_reset eng = eng\<lparr>model := None, trained := False, retraining := False,
     last_retrain_at := None, last_retrain_time := 0, samples_at_last_retrain := 0,
     last_discrimination_score := 0, model_id := None\<rparr>"

text \<open>
  A process that scores: its engine and its baseline beside the connection and the counters.
\<close>

record ('r, 'm) ml_env = "'r env" +
  engine :: "'m isolation"
  baseline_store :: baseline

section \<open>Scoring\<close>

definition scale_decision :: "rat \<Rightarrow> rat" where
  "scale_decision raw =
     (let normalised = max (min (- raw) (1 / 2)) (- (1 / 2));
          scaled = fl (fl (normalised + 1 / 2) / 1)
      in py_round (min (max scaled 0) 1) 4)"

definition engine_score :: "'m ml \<Rightarrow> rat list \<Rightarrow> 'm isolation \<Rightarrow> exn + rat" where
  "engine_score lib features eng =
     (if length features \<noteq> FEATURE_DIM then Inr 0
      else case model eng of
          None \<Rightarrow> Inr 0
        | Some m \<Rightarrow> if \<not> trained eng then Inr 0
            else (case ml_decision lib m features of
                Inl e \<Rightarrow> Inl e
              | Inr raw \<Rightarrow> Inr (scale_decision raw)))"

section \<open>The retraining decision\<close>

definition should_retrain :: "settings \<Rightarrow> rat \<Rightarrow> int \<Rightarrow> 'm isolation \<Rightarrow> bool" where
  "should_retrain cfg now bsize eng =
     (if retraining eng then False
      else if bsize - samples_at_last_retrain eng < MODEL_RETRAIN_INTERVAL cfg then False
      else if 0 < last_retrain_time eng
        \<and> fl (now - last_retrain_time eng) < of_int (RETRAIN_COOLDOWN_SECONDS cfg) then False
      else True)"

section \<open>The holdout evaluation\<close>

definition HOLDOUT :: "(rat list \<times> bool) list" where
  "HOLDOUT = [([1, 25, 0, 0], False), ([1, 30, 1, 0], False), ([0, 15, 0, 0], False),
     ([1, 40, 1, 0], False),
     ([4, 500, 1, 4], True), ([3, 350, 1, 3], True), ([4, 400, 1, 4], True)]"

fun decision_rows :: "'m ml \<Rightarrow> 'm \<Rightarrow> rat list list \<Rightarrow> exn + rat list" where
  "decision_rows lib m [] = Inr []"
| "decision_rows lib m (x # xs) = (case ml_decision lib m x of
       Inl e \<Rightarrow> Inl e
     | Inr y \<Rightarrow> (case decision_rows lib m xs of Inl e \<Rightarrow> Inl e | Inr ys \<Rightarrow> Inr (y # ys)))"

text \<open>The pairs the double loop visits: an anomalous row and a normal one.\<close>

definition ordered_pairs :: "(rat \<times> bool) list \<Rightarrow> (rat \<times> rat) list" where
  "ordered_pairs scored =
     [(si, sj). (si, li) \<leftarrow> scored, (sj, lj) \<leftarrow> scored, li \<and> \<not> lj]"

definition discrimination :: "(rat \<times> bool) list \<Rightarrow> rat" where
  "discrimination scored =
     (let pairs = ordered_pairs scored;
          correct = length (filter (\<lambda>(si, sj). si < sj) pairs)
      in if length pairs = 0 then fl (6 / 10)
         else fl (of_nat correct / of_nat (length pairs)))"

definition compute_discrimination_score :: "'m ml \<Rightarrow> 'm \<Rightarrow> exn + rat" where
  "compute_discrimination_score lib m =
     (if HOLDOUT = [] then Inr (fl (6 / 10))
      else case decision_rows lib m (map fst HOLDOUT) of
          Inl e \<Rightarrow> Inl e
        | Inr raw_scores \<Rightarrow> Inr (discrimination (zip raw_scores (map snd HOLDOUT))))"

section \<open>Persistence\<close>

record provenance =
  p_model_id :: string
  p_trained_at :: string
  p_n_samples :: int
  p_discrimination :: rat

definition provenance_json :: "rat \<Rightarrow> provenance \<Rightarrow> json" where
  "provenance_json contam p = JObj
     [(''model_id'', JStr (p_model_id p)), (''trained_at'', JStr (p_trained_at p)),
      (''n_samples'', JInt (p_n_samples p)), (''contamination'', JFloat contam),
      (''feature_dim'', JInt (int FEATURE_DIM)),
      (''discrimination_score'', JFloat (py_round (p_discrimination p) 4))]"

definition persist_model_to_redis ::
  "'r redis_conn \<Rightarrow> settings \<Rightarrow> nat list \<Rightarrow> rat \<Rightarrow> provenance \<Rightarrow> (('r, 'z) env_scheme, unit) eff" where
  "persist_model_to_redis R cfg artifact contam p =
     (let ttl = (if MODEL_ARTIFACT_TTL cfg = 0 then None else Some (MODEL_ARTIFACT_TTL cfg)) in
      tryE
        (thenE (redisE (redis_set R MODEL_ARTIFACT_KEY (Blob artifact) ttl))
          (thenE (redisE (redis_set R MODEL_PROVENANCE_KEY (json_dumps (provenance_json contam p)) ttl))
            (set_last_model_retrain R (p_trained_at p))))
        (\<lambda>_. returnE ()))"

text \<open>The fields that \<open>restore_from_redis\<close> reads from the provenance, with their defaults.\<close>

definition restored_score :: "json pydict \<Rightarrow> exn + rat" where
  "restored_score p = (case json_num (dict_get_or p ''discrimination_score'' (JFloat 0)) of
       None \<Rightarrow> Inl TypeError | Some x \<Rightarrow> Inr (fl x))"

definition restored_date :: "'m ml \<Rightarrow> string \<Rightarrow> json pydict \<Rightarrow> exn + string" where
  "restored_date lib utc_now p =
     (let v = dict_get_or p ''trained_at'' JNull in
      if \<not> json_truthy v then Inr utc_now
      else case v of JStr s \<Rightarrow> ml_fromisoformat lib s | _ \<Rightarrow> Inl TypeError)"

definition load_provenance :: "stored option \<Rightarrow> exn + json pydict" where
  "load_provenance raw = (case raw of
       None \<Rightarrow> Inr []
     | Some (RawText []) \<Rightarrow> Inr []
     | Some r \<Rightarrow> (case json_loads r of
           Inl e \<Rightarrow> Inl e | Inr (JObj d) \<Rightarrow> Inr d | Inr _ \<Rightarrow> Inl AttributeError))"

text \<open>An intermediate result that is an exception is raised.\<close>

definition liftE :: "exn + 'a \<Rightarrow> ('s, 'a) eff" where
  "liftE r = (case r of Inl e \<Rightarrow> raiseE e | Inr x \<Rightarrow> returnE x)"

text \<open>The assignments under the lock; the conversion of the score comes after the first four.\<close>

definition restore_model :: "rat \<Rightarrow> 'm \<Rightarrow> string \<Rightarrow> 'm isolation \<Rightarrow> 'm isolation" where
  "restore_model now m trained_at eng = eng\<lparr>model := Some m, trained := True,
     last_retrain_at := Some trained_at, last_retrain_time := now\<rparr>"

definition restore_score :: "rat \<Rightarrow> json \<Rightarrow> 'm isolation \<Rightarrow> 'm isolation" where
  "restore_score disc mid eng = eng\<lparr>last_discrimination_score := disc, model_id := Some mid\<rparr>"

definition engineE ::
  "('m isolation \<Rightarrow> 'm isolation) \<Rightarrow> (('r, 'm, 'z) ml_env_scheme, unit) eff" where
  "engineE f = modifyE (\<lambda>w. w\<lparr>engine := f (engine w)\<rparr>)"

definition restore_from_redis ::
  "'r redis_conn \<Rightarrow> 'm ml \<Rightarrow> rat \<Rightarrow> string \<Rightarrow> (('r, 'm, 'z) ml_env_scheme, bool) eff" where
  "restore_from_redis R lib now utc_now =
     tryE
       (bindE (redisE (redis_get R MODEL_ARTIFACT_KEY)) (\<lambda>artifact. case artifact of
          None \<Rightarrow> returnE False
        | Some a \<Rightarrow>
          bindE (redisE (redis_get R MODEL_PROVENANCE_KEY)) (\<lambda>provenance_raw.
          bindE (liftE (load_provenance provenance_raw)) (\<lambda>p.
          bindE (liftE (bytes_io a)) (\<lambda>bytes.
          bindE (liftE (ml_load lib bytes)) (\<lambda>m.
          bindE (liftE (restored_date lib utc_now p)) (\<lambda>trained_at.
          thenE (engineE (restore_model now m trained_at))
          (bindE (liftE (restored_score p)) (\<lambda>disc.
          thenE (engineE (restore_score disc (dict_get_or p ''model_id'' (JStr ''unknown''))))
            (returnE True)))))))))
       )
       (\<lambda>_. returnE False)"

section \<open>The retraining task\<close>

text \<open>
  \<open>retrain_async\<close> runs in pieces between its \<open>await\<close>s: up to the thread that fits the model,
  from there to the Redis calls, and the end. A task is where it stands.
\<close>

datatype retrain_task =
    Started
  | Fitting "rat list list"
  | Persisting "nat list" provenance
  | Finished "exn option"

definition retrain_finish :: "'m isolation \<Rightarrow> 'm isolation" where
  "retrain_finish eng = eng\<lparr>retraining := False\<rparr>"

definition retrain_begin ::
  "settings \<Rightarrow> baseline \<Rightarrow> 'm isolation \<Rightarrow> retrain_task \<times> 'm isolation" where
  "retrain_begin cfg bs eng =
     (if retraining eng then (Finished None, eng)
      else let eng' = eng\<lparr>retraining := True\<rparr> in
        case get_training_data bs of
          Inl e \<Rightarrow> (Finished (Some e), retrain_finish eng')
        | Inr data \<Rightarrow>
            if int (length data) < MODEL_RETRAIN_INTERVAL cfg then (Finished None, retrain_finish eng')
            else (Fitting data, eng'))"

definition rejects :: "rat \<Rightarrow> rat \<Rightarrow> bool" where
  "rejects prev_disc disc_score \<longleftrightarrow> 0 < prev_disc \<and> disc_score < fl (prev_disc - fl (5 / 100))"

definition accept_model ::
  "rat \<Rightarrow> string \<Rightarrow> int \<Rightarrow> 'm \<Rightarrow> string \<Rightarrow> rat \<Rightarrow> 'm isolation \<Rightarrow> 'm isolation" where
  "accept_model clock utc_now bsize m mid disc eng = eng\<lparr>model := Some m, trained := True,
     last_retrain_at := Some utc_now, last_retrain_time := clock, samples_at_last_retrain := bsize,
     last_discrimination_score := disc, model_id := Some (JStr mid)\<rparr>"

definition retrain_fitted ::
  "'m ml \<Rightarrow> rat \<Rightarrow> string \<Rightarrow> int \<Rightarrow> rat list list \<Rightarrow> 'm isolation \<Rightarrow> retrain_task \<times> 'm isolation" where
  "retrain_fitted lib clock utc_now bsize data eng =
     (case ml_fit lib (contamination eng) data of
        Inl e \<Rightarrow> (Finished (Some e), retrain_finish eng)
      | Inr m \<Rightarrow> (case compute_discrimination_score lib m of
          Inl e \<Rightarrow> (Finished (Some e), retrain_finish eng)
        | Inr disc \<Rightarrow>
            if rejects (last_discrimination_score eng) disc then (Finished None, retrain_finish eng)
            else let artifact = ml_dump lib m; mid = take 12 (ml_sha256 lib artifact) in
              (Persisting artifact \<lparr>p_model_id = mid, p_trained_at = utc_now,
                 p_n_samples = int (length data), p_discrimination = disc\<rparr>,
               accept_model clock utc_now bsize m mid disc eng)))"

text \<open>One piece of the task on the state of the process.\<close>

definition retrain_piece ::
  "'r redis_conn \<Rightarrow> settings \<Rightarrow> 'm ml \<Rightarrow> rat \<Rightarrow> string \<Rightarrow> retrain_task \<Rightarrow>
     ('r, 'm, 'z) ml_env_scheme \<Rightarrow> retrain_task \<times> ('r, 'm, 'z) ml_env_scheme" where
  "retrain_piece R cfg lib clock utc_now t w = (case t of
       Started \<Rightarrow> (case retrain_begin cfg (baseline_store w) (engine w) of
           (t', eng) \<Rightarrow> (t', w\<lparr>engine := eng\<rparr>))
     | Fitting data \<Rightarrow>
         (case retrain_fitted lib clock utc_now (baseline_size (baseline_store w)) data (engine w) of
           (t', eng) \<Rightarrow> (t', w\<lparr>engine := eng\<rparr>))
     | Persisting artifact p \<Rightarrow>
         (case persist_model_to_redis R cfg artifact (contamination (engine w)) p w of
           (_, w') \<Rightarrow> (Finished None, w'\<lparr>engine := retrain_finish (engine w')\<rparr>))
     | Finished e \<Rightarrow> (Finished e, w))"

text \<open>The task on its own, from its start to its end.\<close>

definition retrain_async ::
  "'r redis_conn \<Rightarrow> settings \<Rightarrow> 'm ml \<Rightarrow> rat \<Rightarrow> string \<Rightarrow>
     ('r, 'm, 'z) ml_env_scheme \<Rightarrow> retrain_task \<times> ('r, 'm, 'z) ml_env_scheme" where
  "retrain_async R cfg lib clock utc_now w =
     (let piece = (\<lambda>(t, w). retrain_piece R cfg lib clock utc_now t w)
      in piece (piece (piece (Started, w))))"

end
