(* ===== verification/SlidingWindow.thy ===== *)
theory SlidingWindow
  imports PyFloat
begin

text \<open>
  The sliding windows of the rule engine and of the profile store: append the event at the right
  end of a deque, then drop events from the left end while they are older than the cutoff. The
  contract is a locale over any store with such a window; its client facts say what the window
  holds after a whole history of events, in terms of the history.
\<close>

text \<open>\<open>while q and q[0] < cutoff: q.popleft()\<close>\<close>

fun evict :: "rat \<Rightarrow> (rat \<times> 'x) list \<Rightarrow> (rat \<times> 'x) list" where
  "evict cutoff [] = []"
| "evict cutoff (e # q) = (if fst e < cutoff then evict cutoff q else e # q)"

lemma evict_sorted: "sorted (map fst q) \<Longrightarrow> evict c q = filter (\<lambda>e. c \<le> fst e) q"
proof (induction q)
  case Nil
  then show ?case by simp
next
  case (Cons e q)
  then show ?case
    by (cases "fst e < c") (auto intro!: filter_True [symmetric])
qed

lemma sorted_suffix: "suffix ys xs \<Longrightarrow> sorted (map f xs) \<Longrightarrow> sorted (map f ys)"
  by (auto simp: suffix_def sorted_append)

lemma sorted_filter_fst: "sorted (map fst q) \<Longrightarrow> sorted (map fst (filter P q))"
  by (rule sorted_filter)

text \<open>
  Dropping what is too old before the append does not change what is there after the append and
  the eviction with a later cutoff, even when the bound makes the append drop an event.
\<close>

lemma filter_deque_append_filter:
  assumes "c \<le> c'" and "length q \<le> n" and srt: "sorted (map fst q)"
  shows "filter (\<lambda>e. c' \<le> fst e) (deque_append n (filter (\<lambda>e. c \<le> fst e) q) x)
    = filter (\<lambda>e. c' \<le> fst e) (deque_append n q x)"
proof -
  have ff: "filter (\<lambda>e. c' \<le> fst e) (filter (\<lambda>e. c \<le> fst e) q) = filter (\<lambda>e. c' \<le> fst e) q"
    using assms(1) by (auto intro: filter_cong)
  show ?thesis
  proof (cases "length q < n")
    case True
    then have "length (filter (\<lambda>e. c \<le> fst e) q) < n"
      by (rule le_less_trans [OF length_filter_le])
    with True ff show ?thesis by (simp add: deque_append_room)
  next
    case False
    with assms(2) have n: "length q = n" by simp
    show ?thesis
    proof (cases q)
      case Nil
      then show ?thesis by simp
    next
      case (Cons e q')
      show ?thesis
      proof (cases "c \<le> fst e")
        case True
        with srt Cons have "filter (\<lambda>e. c \<le> fst e) q = q"
          by (intro filter_True) auto
        then show ?thesis by simp
      next
        case False
        have eq: "filter (\<lambda>e. c \<le> fst e) q = filter (\<lambda>e. c \<le> fst e) q'"
          using False Cons by simp
        have "length (filter (\<lambda>e. c \<le> fst e) q) < n"
          unfolding eq using n Cons by (metis length_filter_le le_imp_less_Suc length_Cons)
        moreover have "\<not> c' \<le> fst e" using False assms(1) by simp
        ultimately show ?thesis
          using ff n Cons by (simp add: deque_append_room deque_append_full)
      qed
    qed
  qed
qed

lemma filter_py_deque_append_filter:
  assumes "c \<le> c'" and "sorted (map fst q)" and "last_opt m q = q"
  shows "filter (\<lambda>e. c' \<le> fst e) (py_deque_append m (filter (\<lambda>e. c \<le> fst e) q) x)
    = filter (\<lambda>e. c' \<le> fst e) (py_deque_append m q x)"
proof (cases m)
  case None
  have "filter (\<lambda>e. c' \<le> fst e) (filter (\<lambda>e. c \<le> fst e) q) = filter (\<lambda>e. c' \<le> fst e) q"
    using assms(1) by (auto intro: filter_cong)
  with None show ?thesis by (simp add: py_deque_append_def)
next
  case (Some n)
  with assms(3) have "last_n n q = q" by (simp add: last_opt_def)
  then have "length q \<le> n" by (metis length_last_n min.cobounded1)
  with Some assms(1,2) show ?thesis
    by (simp add: py_deque_append_def filter_deque_append_filter)
qed

lemma last_opt_idem: "last_opt m (last_opt m xs) = last_opt m xs"
  by (auto simp: last_opt_def last_n_def split: option.splits)

section \<open>The contract\<close>

text \<open>
  \<open>window w\<close> is the deque a store holds for one key. An event of the store concerns it or
  does not: \<open>stamp e\<close> is the timestamped value the event adds.
\<close>

locale sliding_window =
  fixes step :: "'e \<Rightarrow> 'w \<Rightarrow> 'w"
    and stamp :: "'e \<Rightarrow> (rat \<times> 'x) option"
    and window :: "'w \<Rightarrow> (rat \<times> 'x) list"
    and cutoff :: "rat \<Rightarrow> rat"
    and maxlen :: "nat option"
  assumes other: "stamp e = None \<Longrightarrow> window (step e w) = window w"
    and own: "stamp e = Some x \<Longrightarrow>
      window (step e w) = evict (cutoff (fst x)) (py_deque_append maxlen (window w) x)"
    and cutoff_mono: "s \<le> t \<Longrightarrow> cutoff s \<le> cutoff t"
begin

definition stamps :: "'e list \<Rightarrow> (rat \<times> 'x) list" where
  "stamps es = List.map_filter stamp es"

text \<open>What the window is to hold after the events: of the last \<open>maxlen\<close> the recent ones.\<close>

definition recent :: "(rat \<times> 'x) list \<Rightarrow> (rat \<times> 'x) list" where
  "recent xs = (if xs = [] then [] else filter (\<lambda>x. cutoff (fst (last xs)) \<le> fst x) (last_opt maxlen xs))"

lemma stamps_snoc: "stamps (es @ [e]) = stamps es @ (case stamp e of None \<Rightarrow> [] | Some x \<Rightarrow> [x])"
  by (simp add: stamps_def List.map_filter_def split: option.splits)

lemma recent_snoc:
  assumes "sorted (map fst (xs @ [x]))"
  shows "evict (cutoff (fst x)) (py_deque_append maxlen (recent xs) x) = recent (xs @ [x])"
proof -
  let ?L = "last_opt maxlen xs"
  have sL: "sorted (map fst (last_opt maxlen (xs @ [x])))"
    using sorted_suffix [OF suffix_last_opt assms] .
  have app: "py_deque_append maxlen ?L x = last_opt maxlen (xs @ [x])" by (rule last_opt_snoc)
  show ?thesis
  proof (cases "xs = []")
    case True
    have "recent [] = last_opt maxlen []" by (simp add: recent_def)
    with True app have "py_deque_append maxlen (recent xs) x = last_opt maxlen (xs @ [x])" by simp
    with sL show ?thesis by (simp add: evict_sorted recent_def)
  next
    case False
    let ?c = "cutoff (fst (last xs))" and ?c' = "cutoff (fst x)"
    have le: "?c \<le> ?c'"
      using assms False by (intro cutoff_mono) (auto simp: sorted_append last_in_set)
    have s: "sorted (map fst ?L)"
      using assms by (intro sorted_suffix [OF suffix_last_opt]) (simp add: sorted_append)
    have rec: "recent xs = filter (\<lambda>e. ?c \<le> fst e) ?L" using False by (simp add: recent_def)
    have sub: "set (py_deque_append maxlen (recent xs) x) \<subseteq> insert x (set xs)"
      and srt: "sorted (map fst (py_deque_append maxlen (recent xs) x))"
    proof -
      have suf: "suffix (py_deque_append maxlen (recent xs) x) (recent xs @ [x])"
        by (rule suffix_py_deque_append)
      have "\<forall>y \<in> set xs. fst y \<le> fst x" using assms by (simp add: sorted_append)
      with set_last_opt [of maxlen xs] have "\<forall>y \<in> set ?L. fst y \<le> fst x" by blast
      with s have "sorted (map fst (recent xs @ [x]))"
        by (simp add: rec sorted_append sorted_filter_fst)
      with suf show "sorted (map fst (py_deque_append maxlen (recent xs) x))"
        by (rule sorted_suffix)
      show "set (py_deque_append maxlen (recent xs) x) \<subseteq> insert x (set xs)"
        using set_mono_suffix [OF suf] set_last_opt [of maxlen xs] by (auto simp: rec)
    qed
    have "evict ?c' (py_deque_append maxlen (recent xs) x)
        = filter (\<lambda>e. ?c' \<le> fst e) (py_deque_append maxlen (recent xs) x)"
      using srt by (rule evict_sorted)
    also have "\<dots> = filter (\<lambda>e. ?c' \<le> fst e) (py_deque_append maxlen ?L x)"
      unfolding rec by (rule filter_py_deque_append_filter [OF le s last_opt_idem])
    also have "\<dots> = recent (xs @ [x])" unfolding app by (simp add: recent_def)
    finally show ?thesis .
  qed
qed

text \<open>
  After any history with a clock that does not go back, the window holds exactly the recent
  events of the history.
\<close>

lemma window_of_history:
  assumes "window w = []" and "sorted (map fst (stamps es))"
  shows "window (fold step es w) = recent (stamps es)"
  using assms(2)
proof (induction es rule: rev_induct)
  case Nil
  then show ?case using assms(1) by (simp add: stamps_def recent_def List.map_filter_def)
next
  case (snoc e es)
  show ?case
  proof (cases "stamp e")
    case None
    with snoc show ?thesis by (simp add: stamps_snoc other)
  next
    case (Some x)
    with snoc.prems have srt: "sorted (map fst (stamps es @ [x]))" by (simp add: stamps_snoc)
    then have "window (fold step es w) = recent (stamps es)"
      by (intro snoc.IH) (simp add: sorted_append)
    with Some srt show ?thesis by (simp add: own stamps_snoc recent_snoc)
  qed
qed

lemma window_bounded: "maxlen = Some n \<Longrightarrow> length (window w) \<le> n \<Longrightarrow> length (window (step e w)) \<le> n"
proof (cases "stamp e")
  case (Some x)
  have evict_le: "length (evict c q) \<le> length q" for c and q :: "(rat \<times> 'x) list"
    by (induction q) auto
  assume "maxlen = Some n"
  with Some show ?thesis
    using evict_le [of "cutoff (fst x)" "deque_append n (window w) x"]
      length_deque_append_le [of n "window w" x]
    by (simp add: own py_deque_append_def)
qed (simp add: other)

end

end
