(* ===== verification/RuleEngine.thy ===== *)
theory RuleEngine
  imports Settings SlidingWindow
begin

text \<open>
  \<open>app/services/rule_engine.py\<close>: the keyword and level rules, and the per-IP burst tracker. The
  clock reading of \<open>time.monotonic()\<close> is the argument \<open>now\<close>; the tracker is passed along.
\<close>

section \<open>The burst tracker\<close>

record ip_tracker =
  window_seconds :: int
  threshold :: int
  buckets :: "string \<rightharpoonup> rat list"

definition new_tracker :: "settings \<Rightarrow> ip_tracker" where
  "new_tracker cfg = \<lparr>window_seconds = IP_RATE_WINDOW_SECONDS cfg,
     threshold = IP_RATE_THRESHOLD cfg, buckets = Map.empty\<rparr>"

text \<open>The bucket of an address; \<open>defaultdict(deque)\<close> makes an empty one.\<close>

definition bucket :: "ip_tracker \<Rightarrow> string \<Rightarrow> rat list" where
  "bucket tr ip = (case buckets tr ip of None \<Rightarrow> [] | Some q \<Rightarrow> q)"

fun evict_times :: "rat \<Rightarrow> rat list \<Rightarrow> rat list" where
  "evict_times cutoff [] = []"
| "evict_times cutoff (t # q) = (if t < cutoff then evict_times cutoff q else t # q)"

definition tracker_record :: "rat \<Rightarrow> string \<Rightarrow> ip_tracker \<Rightarrow> bool \<times> ip_tracker" where
  "tracker_record now ip tr =
     (let q = bucket tr ip @ [now];
          cutoff = fl (now - of_int (window_seconds tr));
          q' = evict_times cutoff q
      in (threshold tr < int (length q'), tr\<lparr>buckets := (buckets tr)(ip \<mapsto> q')\<rparr>))"

section \<open>The rules\<close>

record rule_result =
  severity :: string
  reason :: string

definition high_keywords :: "string list" where
  "high_keywords = [''failed login'', ''unauthorized'', ''script'', ''or '1'='1'', ''passwd'',
     ''.git/'', ''wp-config'']"

definition keyword_result :: "string \<Rightarrow> rule_result" where
  "keyword_result kw = \<lparr>severity = ''HIGH'',
     reason = ''Message contains '' @ [CHR 0x22] @ kw @ [CHR 0x22]\<rparr>"

text \<open>The first keyword of the list that occurs in the message.\<close>

definition first_keyword :: "string list \<Rightarrow> string \<Rightarrow> string option" where
  "first_keyword kws msg = find (\<lambda>kw. str_contains kw msg) kws"

definition burst_result :: "ip_tracker \<Rightarrow> string \<Rightarrow> rule_result" where
  "burst_result tr ip = \<lparr>severity = ''MEDIUM'',
     reason = ''More than '' @ str_of_int (threshold tr) @ '' logs from IP '' @ ip
       @ '' within '' @ str_of_int (window_seconds tr) @ ''s''\<rparr>"

definition evaluate ::
  "rat \<Rightarrow> string \<Rightarrow> string \<Rightarrow> string option \<Rightarrow> ip_tracker \<Rightarrow> rule_result option \<times> ip_tracker" where
  "evaluate now log_level message ip_address tr =
     (let level = str_upper log_level; msg_lower = str_lower message in
      if level = ''ERROR'' then
        (Some \<lparr>severity = ''HIGH'', reason = ''Log level is ERROR''\<rparr>, tr)
      else case first_keyword high_keywords msg_lower of
        Some kw \<Rightarrow> (Some (keyword_result kw), tr)
      | None \<Rightarrow>
        (case ip_address of
           None \<Rightarrow> (None, tr)
         | Some ip \<Rightarrow>
             if ip = [] then (None, tr)
             else case tracker_record now ip tr of (exceeded, tr') \<Rightarrow>
               (if exceeded then Some (burst_result tr' ip) else None, tr')))"

section \<open>The tracker is a sliding window per address\<close>

lemma evict_times_evict: "map (\<lambda>t. (t, ())) (evict_times c q) = evict c (map (\<lambda>t. (t, ())) q)"
  by (induction q) auto

lemma evict_times_snoc: "map (\<lambda>t. (t, ())) (evict_times c (q @ [now]))
    = evict c (map (\<lambda>t. (t, ())) q @ [(now, ())])"
  by (simp add: evict_times_evict)

lemma tracker_record_constants [simp]:
  "window_seconds (snd (tracker_record now ip tr)) = window_seconds tr"
  "threshold (snd (tracker_record now ip tr)) = threshold tr"
  by (simp_all add: tracker_record_def Let_def)

lemma bucket_tracker_record:
  "bucket (snd (tracker_record now ip tr)) ip' =
     (if ip' = ip then evict_times (fl (now - of_int (window_seconds tr))) (bucket tr ip @ [now])
      else bucket tr ip')"
  by (simp add: tracker_record_def bucket_def Let_def)

text \<open>
  The events of the tracker are pairs of a time and an address. Its window length never changes,
  so the contract is stated for the trackers of one length: the others are made so.
\<close>

definition track :: "int \<Rightarrow> rat \<times> string \<Rightarrow> ip_tracker \<Rightarrow> ip_tracker" where
  "track W e tr = snd (tracker_record (fst e) (snd e) (tr\<lparr>window_seconds := W\<rparr>))"

interpretation tracker: sliding_window
  "track W" "\<lambda>e. if snd e = ip then Some (fst e, ()) else None"
  "\<lambda>tr. map (\<lambda>t. (t, ())) (bucket tr ip)" "\<lambda>now. fl (now - of_int W)" None
  for W ip
proof
  fix e :: "rat \<times> string" and tr
  have b: "bucket (tr\<lparr>window_seconds := W\<rparr>) ip = bucket tr ip" by (simp add: bucket_def)
  show "map (\<lambda>t. (t, ())) (bucket (track W e tr) ip) = map (\<lambda>t. (t, ())) (bucket tr ip)"
    if "(if snd e = ip then Some (fst e, ()) else None) = None"
    using that by (auto simp: track_def bucket_tracker_record b split: if_splits)
  show "map (\<lambda>t. (t, ())) (bucket (track W e tr) ip)
      = evict (fl (fst x - of_int W)) (py_deque_append None (map (\<lambda>t. (t, ())) (bucket tr ip)) x)"
    if "(if snd e = ip then Some (fst e, ()) else None) = Some x" for x
    using that
    by (auto simp: track_def bucket_tracker_record b evict_times_snoc py_deque_append_def split: if_splits)
  show "fl (s - of_int W) \<le> fl (t - of_int W)" if "s \<le> t" for s t :: rat
    using that by (intro fl_mono) simp
qed

text \<open>The recordings of a history, oldest first, and the last answer.\<close>

definition record_all :: "(rat \<times> string) list \<Rightarrow> ip_tracker \<Rightarrow> ip_tracker" where
  "record_all es tr = fold (\<lambda>e t. snd (tracker_record (fst e) (snd e) t)) es tr"

lemma record_all_track: "record_all es tr = fold (track (window_seconds tr)) es tr"
proof (induction es arbitrary: tr)
  case Nil
  then show ?case by (simp add: record_all_def)
next
  case (Cons e es)
  have "track (window_seconds tr) e tr = snd (tracker_record (fst e) (snd e) tr)"
    by (simp add: track_def)
  with Cons [of "snd (tracker_record (fst e) (snd e) tr)"] show ?case
    by (simp add: record_all_def)
qed

lemma record_all_constants [simp]:
  "window_seconds (record_all es tr) = window_seconds tr"
  "threshold (record_all es tr) = threshold tr"
  by (induction es arbitrary: tr) (simp_all add: record_all_def)

definition times_of :: "string \<Rightarrow> (rat \<times> string) list \<Rightarrow> rat list" where
  "times_of ip es = map fst (filter (\<lambda>e. snd e = ip) es)"

lemma tracker_stamps: "tracker.stamps ip es = map (\<lambda>t. (t, ())) (times_of ip es)"
  by (induction es)
    (auto simp: tracker.stamps_def times_of_def List.map_filter_def)

lemma bucket_of_history:
  assumes "bucket tr ip = []" and "sorted (times_of ip es)" and "times_of ip es \<noteq> []"
  shows "bucket (record_all es tr) ip = filter (\<lambda>t. fl (last (times_of ip es)
    - of_int (window_seconds tr)) \<le> t) (times_of ip es)"
proof -
  let ?W = "window_seconds tr" and ?ts = "times_of ip es"
  have "map (\<lambda>t. (t, ())) (bucket (record_all es tr) ip) = tracker.recent ?W (map (\<lambda>t. (t, ())) ?ts)"
    unfolding record_all_track tracker_stamps [symmetric]
    by (rule tracker.window_of_history)
      (simp_all add: assms(1) tracker_stamps o_def assms(2))
  also have "\<dots> = map (\<lambda>t. (t, ())) (filter (\<lambda>t. fl (last ?ts - of_int ?W) \<le> t) ?ts)"
    using assms(3) by (simp add: tracker.recent_def last_opt_def last_map filter_map o_def)
  finally have "map fst (map (\<lambda>t. (t, ())) (bucket (record_all es tr) ip))
      = map fst (map (\<lambda>t. (t, ())) (filter (\<lambda>t. fl (last ?ts - of_int ?W) \<le> t) ?ts))"
    by (rule arg_cong)
  then show ?thesis by (simp add: o_def)
qed



section \<open>The decision\<close>

definition high_rule :: "string \<Rightarrow> string \<Rightarrow> bool" where
  "high_rule log_level message \<longleftrightarrow> str_upper log_level = ''ERROR''
     \<or> (\<exists>kw \<in> set high_keywords. str_contains kw (str_lower message))"

lemma first_keyword_None: "first_keyword kws m = None \<longleftrightarrow> (\<forall>kw \<in> set kws. \<not> str_contains kw m)"
  by (auto simp: first_keyword_def find_None_iff)

lemma first_keyword_Some: "first_keyword kws m = Some kw \<Longrightarrow> kw \<in> set kws \<and> str_contains kw m"
  by (auto simp: first_keyword_def find_Some_iff)

lemma evaluate_high:
  assumes "high_rule log_level message"
  shows "\<exists>res. evaluate now log_level message ip tr = (Some res, tr) \<and> severity res = ''HIGH''"
proof (cases "str_upper log_level = ''ERROR''")
  case True
  then show ?thesis by (simp add: evaluate_def Let_def)
next
  case False
  with assms obtain kw where "first_keyword high_keywords (str_lower message) = Some kw"
    using first_keyword_None [of high_keywords "str_lower message"]
    by (auto simp: high_rule_def)
  with False show ?thesis by (simp add: evaluate_def Let_def keyword_result_def)
qed

lemma evaluate_not_high:
  assumes "\<not> high_rule log_level message"
  shows "evaluate now log_level message ip tr =
    (case ip of None \<Rightarrow> (None, tr) | Some a \<Rightarrow> if a = [] then (None, tr)
      else (if fst (tracker_record now a tr) then Some (burst_result tr a) else None,
            snd (tracker_record now a tr)))"
proof -
  have "first_keyword high_keywords (str_lower message) = None"
    using assms by (auto simp: high_rule_def first_keyword_None)
  moreover have "burst_result t a = burst_result tr a" if "tracker_record now a tr = (x, t)" for x t a
    using tracker_record_constants [of now a tr] that by (simp add: burst_result_def)
  ultimately show ?thesis
    using assms
    by (auto simp: evaluate_def Let_def high_rule_def split: option.splits prod.splits)
qed

text \<open>
  The decision of the rule engine: an \<open>ERROR\<close> level or a keyword gives a \<open>HIGH\<close> result and
  leaves the burst tracker untouched; otherwise there is a result exactly when the log has a
  non-empty address whose burst threshold is exceeded, and it is \<open>MEDIUM\<close>; the tracker records
  the log exactly when there is such an address.
\<close>

theorem evaluate_decides:
  "evaluate now log_level message ip tr = (res, tr') \<Longrightarrow>
   (if high_rule log_level message
    then map_option severity res = Some ''HIGH'' \<and> tr' = tr
    else if \<not> truthy ip then res = None \<and> tr' = tr
    else tr' = snd (tracker_record now (the ip) tr)
      \<and> map_option severity res =
          (if fst (tracker_record now (the ip) tr) then Some ''MEDIUM'' else None))"
  using evaluate_high [of log_level message now ip tr]
    evaluate_not_high [of log_level message now ip tr]
  by (auto simp: burst_result_def truthy_def split: option.splits if_splits)

theorem evaluate_decides_witness:
  "map_option severity (fst (evaluate 5 ''info'' ''GET /etc/passwd'' (Some ''10.0.0.1'')
     (new_tracker (default_settings [])))) = Some ''HIGH''"
proof -
  let ?tr = "new_tracker (default_settings [])"
  have h: "high_rule ''info'' ''GET /etc/passwd''" by code_simp
  from evaluate_decides [OF prod.collapse [symmetric], of "''info''" "''GET /etc/passwd''" 5
      "Some ''10.0.0.1''" ?tr]
  show ?thesis using h by simp
qed

end
