(* ===== verification/ProfileStore.thy ===== *)
theory ProfileStore
  imports Settings SlidingWindow
begin

text \<open>
  \<open>app/services/profile_store.py\<close>: sliding windows of (time, is-error) events per address and for
  all events, both with a hard bound, and the statistics snapshot \<open>record\<close> returns (the operation
  is \<open>profile_record\<close> here). \<open>now\<close> is the reading of \<open>time.monotonic()\<close>.
\<close>

definition MAX_PER_IP_EVENTS :: nat where "MAX_PER_IP_EVENTS = 10000"
definition MAX_GLOBAL_EVENTS :: nat where "MAX_GLOBAL_EVENTS = 50000"

type_synonym event = "rat \<times> bool"

record profile_stats =
  ip_rate :: int
  ip_error_ratio :: rat
  global_rate :: int
  global_error_ratio :: rat

record profile_store =
  store_window :: int
  profiles :: "string \<rightharpoonup> event list"
  global_events :: "event list"

text \<open>\<open>window or settings.IP_RATE_WINDOW_SECONDS\<close>\<close>

definition new_profile_store :: "settings \<Rightarrow> int option \<Rightarrow> profile_store" where
  "new_profile_store cfg w = \<lparr>
     store_window = (case w of None \<Rightarrow> IP_RATE_WINDOW_SECONDS cfg
       | Some n \<Rightarrow> if n = 0 then IP_RATE_WINDOW_SECONDS cfg else n),
     profiles = Map.empty, global_events = []\<rparr>"

definition profile_events :: "profile_store \<Rightarrow> string \<Rightarrow> event list" where
  "profile_events st ip = (case profiles st ip of None \<Rightarrow> [] | Some es \<Rightarrow> es)"

text \<open>The number of errors, and \<open>errors / max(rate, 1)\<close>.\<close>

definition error_count :: "event list \<Rightarrow> int" where
  "error_count es = int (length (filter snd es))"

definition error_ratio :: "event list \<Rightarrow> rat" where
  "error_ratio es = fl (of_int (error_count es) / of_int (max (int (length es)) 1))"

definition evict_global :: "rat \<Rightarrow> profile_store \<Rightarrow> profile_store" where
  "evict_global now st =
     st\<lparr>global_events := evict (fl (now - of_int (store_window st))) (global_events st)\<rparr>"

definition global_snapshot :: "profile_store \<Rightarrow> profile_stats" where
  "global_snapshot st = \<lparr>ip_rate = 0, ip_error_ratio = 0,
     global_rate = int (length (global_events st)),
     global_error_ratio = error_ratio (global_events st)\<rparr>"

definition profile_record ::
  "rat \<Rightarrow> string option \<Rightarrow> bool \<Rightarrow> profile_store \<Rightarrow> profile_stats \<times> profile_store" where
  "profile_record now ip is_error st0 =
     (let st1 = st0\<lparr>global_events :=
            deque_append MAX_GLOBAL_EVENTS (global_events st0) (now, is_error)\<rparr>;
          st = evict_global now st1
      in case ip of
        None \<Rightarrow> (global_snapshot st, st)
      | Some a \<Rightarrow>
          (let events = deque_append MAX_PER_IP_EVENTS (profile_events st a) (now, is_error);
               cutoff = fl (now - of_int (store_window st));
               events' = evict cutoff events;
               st' = st\<lparr>profiles := (profiles st)(a \<mapsto> events')\<rparr>
           in (\<lparr>ip_rate = int (length events'), ip_error_ratio = error_ratio events',
                global_rate = int (length (global_events st')),
                global_error_ratio = error_ratio (global_events st')\<rparr>, st')))"

definition profile_clear :: "profile_store \<Rightarrow> profile_store" where
  "profile_clear st = st\<lparr>profiles := Map.empty, global_events := []\<rparr>"

section \<open>Windows\<close>

lemma profile_record_window [simp]: "store_window (snd (profile_record now ip b st)) = store_window st"
  by (simp add: profile_record_def evict_global_def Let_def split: option.splits)

lemma global_profile_record:
  "global_events (snd (profile_record now ip b st)) =
     evict (fl (now - of_int (store_window st)))
       (deque_append MAX_GLOBAL_EVENTS (global_events st) (now, b))"
  by (simp add: profile_record_def evict_global_def Let_def split: option.splits)

lemma profile_events_record:
  "profile_events (snd (profile_record now ip b st)) a =
     (if ip = Some a then evict (fl (now - of_int (store_window st)))
        (deque_append MAX_PER_IP_EVENTS (profile_events st a) (now, b))
      else profile_events st a)"
  by (auto simp: profile_record_def evict_global_def profile_events_def Let_def split: option.splits)

text \<open>One recording as an event of a store whose window length is fixed.\<close>

record recording =
  at_time :: rat
  of_ip :: "string option"
  is_err :: bool

definition profile_step :: "int \<Rightarrow> recording \<Rightarrow> profile_store \<Rightarrow> profile_store" where
  "profile_step W e st = snd (profile_record (at_time e) (of_ip e) (is_err e) (st\<lparr>store_window := W\<rparr>))"

lemma store_window_irrelevant [simp]:
  "profile_events (st\<lparr>store_window := W\<rparr>) a = profile_events st a"
  "global_events (st\<lparr>store_window := W\<rparr>) = global_events st"
  by (simp_all add: profile_events_def)

interpretation per_ip: sliding_window
  "profile_step W" "\<lambda>e. if of_ip e = Some a then Some (at_time e, is_err e) else None"
  "\<lambda>st. profile_events st a" "\<lambda>now. fl (now - of_int W)" "Some MAX_PER_IP_EVENTS"
  for W a
  by unfold_locales
    (auto simp: profile_step_def profile_events_record py_deque_append_def fl_mono split: if_splits)

interpretation all_ips: sliding_window
  "profile_step W" "\<lambda>e. Some (at_time e, is_err e)"
  "global_events" "\<lambda>now. fl (now - of_int W)" "Some MAX_GLOBAL_EVENTS"
  for W
  by unfold_locales
    (auto simp: profile_step_def global_profile_record py_deque_append_def fl_mono)

definition profile_record_all :: "recording list \<Rightarrow> profile_store \<Rightarrow> profile_store" where
  "profile_record_all es st =
     fold (\<lambda>e s. snd (profile_record (at_time e) (of_ip e) (is_err e) s)) es st"

lemma profile_record_all_step: "profile_record_all es st = fold (profile_step (store_window st)) es st"
proof (induction es arbitrary: st)
  case Nil
  then show ?case by (simp add: profile_record_all_def)
next
  case (Cons e es)
  have "profile_step (store_window st) e st = snd (profile_record (at_time e) (of_ip e) (is_err e) st)"
    by (simp add: profile_step_def)
  with Cons [of "snd (profile_record (at_time e) (of_ip e) (is_err e) st)"] show ?case
    by (simp add: profile_record_all_def)
qed

definition events_of :: "string \<Rightarrow> recording list \<Rightarrow> event list" where
  "events_of a es = map (\<lambda>e. (at_time e, is_err e)) (filter (\<lambda>e. of_ip e = Some a) es)"

lemma per_ip_stamps: "per_ip.stamps a es = events_of a es"
  by (induction es) (auto simp: per_ip.stamps_def events_of_def List.map_filter_def)



section \<open>Statistics\<close>

lemma error_ratio_bounds: "0 \<le> error_ratio es \<and> error_ratio es \<le> 1"
proof -
  have "error_count es \<le> max (int (length es)) 1" by (simp add: error_count_def le_max_iff_disj)
  then have "(of_int (error_count es) :: rat) \<le> of_int (max (int (length es)) 1)"
    by (simp only: of_int_le_iff)
  moreover have "(0 :: rat) < of_int (max (int (length es)) 1)" by simp
  ultimately have "of_int (error_count es) / of_int (max (int (length es)) 1) \<le> (1 :: rat)"
    by (simp only: divide_le_eq_1_pos)
  then show ?thesis by (simp add: error_ratio_def error_count_def fl_le_1)
qed

lemma length_evict: "length (evict c q) \<le> length q"
  by (induction q) auto

text \<open>
  The snapshot a recording returns is within its bounds: rates are counts of the stored
  events, never above the hard caps whatever the clock does, and the error ratios are in [0, 1];
  without an address the address part is zero and no profile changes.
\<close>

theorem profile_record_bounds:
  "profile_record now ip b st = (stats, st') \<Longrightarrow>
     0 \<le> ip_rate stats \<and> ip_rate stats \<le> int MAX_PER_IP_EVENTS
   \<and> global_rate stats = int (length (global_events st'))
   \<and> length (global_events st') \<le> MAX_GLOBAL_EVENTS
   \<and> 0 \<le> ip_error_ratio stats \<and> ip_error_ratio stats \<le> 1
   \<and> 0 \<le> global_error_ratio stats \<and> global_error_ratio stats \<le> 1
   \<and> (case ip of None \<Rightarrow> ip_rate stats = 0 \<and> ip_error_ratio stats = 0 \<and> profiles st' = profiles st
      | Some a \<Rightarrow> ip_rate stats = int (length (profile_events st' a)))"
proof -
  assume run: "profile_record now ip b st = (stats, st')"
  have g: "length (global_events st') \<le> MAX_GLOBAL_EVENTS"
    using global_profile_record [of now ip b st] run
      le_trans [OF length_evict length_deque_append_le] by simp
  have c: "length (evict c (deque_append MAX_PER_IP_EVENTS q x)) \<le> MAX_PER_IP_EVENTS" for c q x
    by (rule le_trans [OF length_evict length_deque_append_le])
  show ?thesis
  proof (cases ip)
    case None
    with run g show ?thesis
      by (auto simp: profile_record_def Let_def global_snapshot_def evict_global_def error_ratio_bounds)
  next
    case (Some a)
    with run g c show ?thesis
      by (auto simp: profile_record_def Let_def error_ratio_bounds profile_events_def)
  qed
qed

theorem profile_record_bounds_witness:
  "ip_rate (fst (profile_record 5 (Some ''a'') True (new_profile_store (default_settings []) None)))
    \<le> int MAX_PER_IP_EVENTS"
  using profile_record_bounds [OF prod.collapse [symmetric], of 5 "Some ''a''" True
    "new_profile_store (default_settings []) None"] by blast

text \<open>The keys of the profile dictionary are never dropped, so it grows with every new address.\<close>

lemma profile_keys_grow: "dom (profiles (snd (profile_record now ip b st))) = dom (profiles st) \<union> set_option ip"
  by (auto simp: profile_record_def Let_def evict_global_def split: option.splits)

end
