(* ===== verification/StatisticalEngine.thy ===== *)
theory StatisticalEngine
  imports ProfileStore BaselineStore
begin

text \<open>
  \<open>app/services/statistical_engine.py\<close>: the statistical score of a log (\<open>stat_score\<close>, the name
  the worker imports it under) and the feature vector of the isolation forest. Every float
  operation is rounded as Python does.
\<close>

definition is_error_level :: "string \<Rightarrow> bool" where
  "is_error_level log_level = (str_upper log_level \<in> {''ERROR'', ''CRITICAL'', ''FATAL''})"

text \<open>The three components, from the snapshot.\<close>

definition ip_rate_score :: "settings \<Rightarrow> profile_stats \<Rightarrow> rat" where
  "ip_rate_score cfg stats =
     (let rate_ratio = min (fl (of_int (ip_rate stats) / of_int (max (IP_RATE_THRESHOLD cfg) 1))) 2
      in fl (fl (rate_ratio / 2) * fl (40 / 100)))"

definition err_score :: "profile_stats \<Rightarrow> rat" where
  "err_score stats =
     (let err_deviation = max (fl (ip_error_ratio stats - global_error_ratio stats)) 0
      in fl (min err_deviation 1 * fl (35 / 100)))"

definition spike_score :: "settings \<Rightarrow> profile_stats \<Rightarrow> rat" where
  "spike_score cfg stats =
     (let spike_ratio =
        min (fl (of_int (global_rate stats) / of_int (max (IP_RATE_THRESHOLD cfg * 3) 1))) 2
      in fl (fl (spike_ratio / 2) * fl (25 / 100)))"

definition stats_score :: "settings \<Rightarrow> profile_stats \<Rightarrow> rat" where
  "stats_score cfg stats =
     (let total = fl (fl (ip_rate_score cfg stats + err_score stats) + spike_score cfg stats)
      in py_round (min total 1) 4)"

definition stat_score ::
  "settings \<Rightarrow> rat \<Rightarrow> string \<Rightarrow> string option \<Rightarrow> profile_store \<Rightarrow> rat \<times> profile_store" where
  "stat_score cfg now log_level ip_address st =
     (case profile_record now ip_address (is_error_level log_level) st of
        (stats, st') \<Rightarrow> (stats_score cfg stats, st'))"

definition level_map :: "(string \<times> int) list" where
  "level_map = [(''DEBUG'', 0), (''INFO'', 1), (''WARNING'', 2), (''WARN'', 2), (''ERROR'', 3),
     (''CRITICAL'', 4), (''FATAL'', 4)]"

definition feature_keywords :: "string list" where
  "feature_keywords =
     [''failed login'', ''unauthorized'', ''error'', ''denied'', ''timeout'', ''attack'']"

definition extract_features :: "string \<Rightarrow> string \<Rightarrow> string option \<Rightarrow> rat list" where
  "extract_features log_level message ip_address =
     (let level_num = dict_get_or level_map (str_upper log_level) 1;
          msg_lower = str_lower message;
          keyword_hits = length (filter (\<lambda>kw. str_contains kw msg_lower) feature_keywords)
      in [of_int level_num, of_nat (min (length message) 1000),
          of_nat (if truthy ip_address then 1 else 0), of_nat keyword_hits])"

section \<open>Bounds and monotonicity\<close>

definition stats_ok :: "profile_stats \<Rightarrow> bool" where
  "stats_ok s \<longleftrightarrow> 0 \<le> ip_rate s \<and> 0 \<le> global_rate s"

lemma ip_rate_score_nonneg: "stats_ok s \<Longrightarrow> 0 \<le> ip_rate_score cfg s"
  by (simp add: ip_rate_score_def Let_def stats_ok_def)

lemma err_score_nonneg: "0 \<le> err_score s"
  by (simp add: err_score_def Let_def)

lemma spike_score_nonneg: "stats_ok s \<Longrightarrow> 0 \<le> spike_score cfg s"
  by (simp add: spike_score_def Let_def stats_ok_def)

lemma stats_score_bounds: "stats_ok s \<Longrightarrow> 0 \<le> stats_score cfg s \<and> stats_score cfg s \<le> 1"
  using ip_rate_score_nonneg [of s cfg] err_score_nonneg [of s] spike_score_nonneg [of s cfg]
  by (simp add: stats_score_def Let_def py_round_le_1)

lemma profile_record_stats_ok: "stats_ok (fst (profile_record now ip b st))"
  by (auto simp: stats_ok_def profile_record_def Let_def global_snapshot_def split: option.splits)

text \<open>
  The statistical score is in [0, 1] for every log, address, clock reading, store and
  setting, with the float rounding of every operation.
\<close>

theorem stat_score_in_unit_interval:
  "0 \<le> fst (stat_score cfg now log_level ip st) \<and> fst (stat_score cfg now log_level ip st) \<le> 1"
  using stats_score_bounds [OF profile_record_stats_ok]
  by (simp add: stat_score_def split: prod.splits) (metis fst_conv)

text \<open>
  A snapshot is at least as suspicious as another: higher rates, a larger excess of the address's
  error ratio over the global one.
\<close>

definition more_suspicious :: "profile_stats \<Rightarrow> profile_stats \<Rightarrow> bool" where
  "more_suspicious s t \<longleftrightarrow> ip_rate t \<le> ip_rate s \<and> global_rate t \<le> global_rate s
     \<and> ip_error_ratio t - global_error_ratio t \<le> ip_error_ratio s - global_error_ratio s"

lemma capped_ratio_mono:
  assumes "m \<le> n" and "0 \<le> d"
  shows "min (fl (of_int m / of_int (max k 1))) 2 \<le> min (fl (of_int n / of_int (max k 1))) 2"
proof -
  have "(of_int m :: rat) / of_int (max k 1) \<le> of_int n / of_int (max k 1)"
    using assms by (intro divide_right_mono) simp_all
  then have "fl (of_int m / of_int (max k 1)) \<le> fl (of_int n / of_int (max k 1))" by (rule fl_mono)
  then show ?thesis by (rule min.mono) simp
qed

text \<open>
  The score is monotone: a snapshot that is more suspicious in its rates and in its error
  deviation never scores lower, in spite of the caps and the roundings.
\<close>

theorem stats_score_mono:
  assumes "more_suspicious s t"
  shows "stats_score cfg t \<le> stats_score cfg s"
proof -
  have w: "0 \<le> fl (40 / 100)" "0 \<le> fl (35 / 100)" "0 \<le> fl (25 / 100)" by simp_all
  have a: "ip_rate_score cfg t \<le> ip_rate_score cfg s"
    unfolding ip_rate_score_def Let_def
    using assms capped_ratio_mono [of "ip_rate t" "ip_rate s" 0] w(1)
    by (intro fl_mono mult_right_mono divide_right_mono) (auto simp: more_suspicious_def)
  have "fl (ip_error_ratio t - global_error_ratio t) \<le> fl (ip_error_ratio s - global_error_ratio s)"
    using assms by (intro fl_mono) (simp add: more_suspicious_def)
  then have "max (fl (ip_error_ratio t - global_error_ratio t)) 0
      \<le> max (fl (ip_error_ratio s - global_error_ratio s)) 0" by (rule max.mono) simp
  then have "min (max (fl (ip_error_ratio t - global_error_ratio t)) 0) 1
      \<le> min (max (fl (ip_error_ratio s - global_error_ratio s)) 0) 1" by (rule min.mono) simp
  then have b: "err_score t \<le> err_score s"
    unfolding err_score_def Let_def using w(2) by (rule fl_mono [OF mult_right_mono])
  have c: "spike_score cfg t \<le> spike_score cfg s"
    unfolding spike_score_def Let_def
    using assms capped_ratio_mono [of "global_rate t" "global_rate s" 0] w(3)
    by (intro fl_mono mult_right_mono divide_right_mono) (auto simp: more_suspicious_def)
  have "fl (fl (ip_rate_score cfg t + err_score t) + spike_score cfg t)
      \<le> fl (fl (ip_rate_score cfg s + err_score s) + spike_score cfg s)"
    using a b c by (intro fl_mono add_mono)
  then show ?thesis
    unfolding stats_score_def Let_def by (intro py_round_mono min.mono) simp_all
qed

theorem stats_score_mono_witness:
  "stats_score (default_settings []) \<lparr>ip_rate = 2, ip_error_ratio = 0, global_rate = 2, global_error_ratio = 0\<rparr>
   \<le> stats_score (default_settings []) \<lparr>ip_rate = 6, ip_error_ratio = 1, global_rate = 6, global_error_ratio = 1\<rparr>"
  by (rule stats_score_mono) (simp add: more_suspicious_def)

section \<open>Features\<close>

lemma level_map_range: "0 \<le> dict_get_or level_map k 1 \<and> dict_get_or level_map k 1 \<le> 4"
  by (auto simp: dict_get_or_def level_map_def dict_get_def split: option.splits if_splits)

text \<open>
  A feature vector has \<open>FEATURE_DIM\<close> components within the ranges its documentation gives:
  level 0 to 4, length 0 to 1000, address flag 0 or 1, keyword hits 0 to 6; the level does not
  depend on the case of its name.
\<close>

theorem extract_features_ranges:
  "\<exists>level len has_ip hits. extract_features log_level message ip =
     [of_int level, of_nat len, of_nat has_ip, of_nat hits]
   \<and> 0 \<le> level \<and> level \<le> 4 \<and> len \<le> 1000 \<and> has_ip \<le> 1 \<and> hits \<le> 6
   \<and> (has_ip = 1 \<longleftrightarrow> truthy ip)
   \<and> length (extract_features log_level message ip) = FEATURE_DIM
   \<and> extract_features (str_upper log_level) message ip = extract_features log_level message ip"
proof -
  have k: "length (filter P feature_keywords) \<le> 6" for P
    using length_filter_le [of P feature_keywords] by (simp add: feature_keywords_def)
  show ?thesis
    by (intro exI [of _ "dict_get_or level_map (str_upper log_level) 1"]
        exI [of _ "min (length message) 1000"] exI [of _ "if truthy ip then 1 else 0"]
        exI [of _ "length (filter (\<lambda>kw. str_contains kw (str_lower message)) feature_keywords)"])
      (simp add: extract_features_def Let_def FEATURE_DIM_def level_map_range k)
qed

end
