(* ===== verification/ScoringEngine.thy ===== *)
theory ScoringEngine
  imports Settings
begin

text \<open>
  \<open>app/services/scoring_engine.py\<close>: the weighted risk score, the severity and the anomaly label.
\<close>

section \<open>The engine\<close>

definition severity_order :: "(string \<times> int) list" where
  "severity_order = [(''NONE'', 0), (''LOW'', 1), (''MEDIUM'', 2), (''HIGH'', 3)]"

text \<open>\<open>_SEVERITY_ORDER.get(s, 0)\<close>; a severity that is absent ranks lowest.\<close>

definition severity_rank :: "string \<Rightarrow> int" where
  "severity_rank s = dict_get_or severity_order s 0"

definition optional_rank :: "string option \<Rightarrow> int" where
  "optional_rank s = (case s of None \<Rightarrow> 0 | Some s \<Rightarrow> severity_rank s)"

record score_result =
  risk_score :: rat
  breakdown :: "(string \<times> rat) list"
  anomaly_type :: string
  final_severity :: string

fun str_join :: "string \<Rightarrow> string list \<Rightarrow> string" where
  "str_join sep [] = []"
| "str_join sep [s] = s"
| "str_join sep (s # t # ss) = s @ sep @ str_join sep (t # ss)"

definition classify :: "rat \<Rightarrow> rat \<Rightarrow> bool \<Rightarrow> string" where
  "classify stat isol rule_hit =
     (let parts = (if rule_hit then [''rule_match''] else [])
            @ (if fl (15 / 100) \<le> stat then [''statistical_anomaly''] else [])
            @ (if fl (15 / 100) \<le> isol then [''isolation_anomaly''] else [])
      in if parts \<noteq> [] then str_join ''+'' parts else ''normal'')"

text \<open>The severity of a risk score, by the thresholds.\<close>

definition threshold_severity :: "settings \<Rightarrow> rat \<Rightarrow> string" where
  "threshold_severity cfg risk =
     (if ANOMALY_THRESHOLD_HIGH cfg \<le> risk then ''HIGH''
      else if ANOMALY_THRESHOLD_MEDIUM cfg \<le> risk then ''MEDIUM''
      else if ANOMALY_THRESHOLD_LOW cfg \<le> risk then ''LOW''
      else ''NONE'')"

definition rule_score :: "bool \<Rightarrow> rat" where
  "rule_score rule_triggered = (if rule_triggered then 1 else 0)"

definition weighted_score :: "settings \<Rightarrow> rat \<Rightarrow> rat \<Rightarrow> bool \<Rightarrow> rat" where
  "weighted_score cfg statistical isolation rule_triggered =
     fl (fl (fl (RULE_WEIGHT cfg * rule_score rule_triggered) + fl (STAT_WEIGHT cfg * statistical))
         + fl (ISO_WEIGHT cfg * isolation))"

definition base_risk :: "settings \<Rightarrow> rat \<Rightarrow> rat \<Rightarrow> bool \<Rightarrow> rat" where
  "base_risk cfg statistical isolation rule_triggered =
     min 1 (max 0 (py_round (weighted_score cfg statistical isolation rule_triggered) 4))"

definition compute :: "settings \<Rightarrow> rat \<Rightarrow> rat \<Rightarrow> bool \<Rightarrow> string option \<Rightarrow> score_result" where
  "compute cfg statistical isolation rule_triggered rule_severity =
     (let risk = base_risk cfg statistical isolation rule_triggered;
          sev = threshold_severity cfg risk;
          floored = rule_triggered \<and> sev \<in> {''NONE'', ''LOW''};
          sev1 = (if floored then ''MEDIUM'' else sev);
          risk1 = (if floored then max risk (ANOMALY_THRESHOLD_MEDIUM cfg) else risk);
          sev2 = (case rule_severity of
              None \<Rightarrow> sev1
            | Some s \<Rightarrow> if s \<noteq> [] \<and> severity_rank sev1 < severity_rank s then s else sev1)
      in \<lparr>risk_score = risk1,
          breakdown = [(''rule'', rule_score rule_triggered), (''statistical'', statistical),
            (''isolation'', isolation)],
          anomaly_type = classify statistical isolation rule_triggered,
          final_severity = sev2\<rparr>)"

section \<open>Ranks\<close>

lemma severity_rank_simps [simp]:
  "severity_rank ''NONE'' = 0" "severity_rank ''LOW'' = 1" "severity_rank ''MEDIUM'' = 2"
  "severity_rank ''HIGH'' = 3" "severity_rank [] = 0"
  by (simp_all add: severity_rank_def dict_get_or_def severity_order_def dict_get_def)

lemma severity_rank_range: "0 \<le> severity_rank s \<and> severity_rank s \<le> 3"
  by (auto simp: severity_rank_def dict_get_or_def severity_order_def dict_get_def
      split: option.splits if_splits)

lemma threshold_severity_mono:
  assumes "thresholds_ok cfg" and "r \<le> r'"
  shows "severity_rank (threshold_severity cfg r) \<le> severity_rank (threshold_severity cfg r')"
  using assms by (auto simp: threshold_severity_def thresholds_ok_def)

lemma severity_rank_preserved:
  "severity_rank (case rs of None \<Rightarrow> sev
     | Some s \<Rightarrow> if s \<noteq> [] \<and> severity_rank sev < severity_rank s then s else sev)
   = max (severity_rank sev) (optional_rank rs)"
proof (cases rs)
  case None
  then show ?thesis using severity_rank_range [of sev] by (simp add: optional_rank_def)
next
  case (Some s)
  then show ?thesis
    using severity_rank_range [of sev] by (cases "s = []") (simp_all add: optional_rank_def max_def)
qed

lemma severity_rank_floor:
  "severity_rank (if t \<and> threshold_severity cfg r \<in> {''NONE'', ''LOW''} then ''MEDIUM''
     else threshold_severity cfg r)
   = max (severity_rank (threshold_severity cfg r)) (if t then 2 else 0)"
  by (simp add: threshold_severity_def)

text \<open>The risk score and the rank of the severity of a result.\<close>

lemma compute_fields:
  "risk_score (compute cfg s i t rs) =
     (if t \<and> threshold_severity cfg (base_risk cfg s i t) \<in> {''NONE'', ''LOW''}
      then max (base_risk cfg s i t) (ANOMALY_THRESHOLD_MEDIUM cfg) else base_risk cfg s i t)"
  "severity_rank (final_severity (compute cfg s i t rs)) =
     max (max (severity_rank (threshold_severity cfg (base_risk cfg s i t))) (if t then 2 else 0))
       (optional_rank rs)"
  unfolding compute_def Let_def
  by (simp only: score_result.simps)
    (simp only: score_result.simps severity_rank_preserved, simp only: severity_rank_floor)

lemma base_risk_range: "0 \<le> base_risk cfg s i t \<and> base_risk cfg s i t \<le> 1"
  by (simp add: base_risk_def)

lemma base_risk_mono:
  assumes "weights_nonneg cfg" "s \<le> s'" "i \<le> i'" "t \<longrightarrow> t'"
  shows "base_risk cfg s i t \<le> base_risk cfg s' i' t'"
proof -
  have r: "RULE_WEIGHT cfg * rule_score t \<le> RULE_WEIGHT cfg * rule_score t'"
    using assms by (intro mult_left_mono) (auto simp: rule_score_def weights_nonneg_def)
  have "STAT_WEIGHT cfg * s \<le> STAT_WEIGHT cfg * s'" "ISO_WEIGHT cfg * i \<le> ISO_WEIGHT cfg * i'"
    using assms by (auto intro: mult_left_mono simp: weights_nonneg_def)
  then have "weighted_score cfg s i t \<le> weighted_score cfg s' i' t'"
    unfolding weighted_score_def using r by (intro fl_mono add_mono)
  then have "py_round (weighted_score cfg s i t) 4 \<le> py_round (weighted_score cfg s' i' t') 4"
    by (rule py_round_mono)
  then show ?thesis unfolding base_risk_def by (intro min.mono max.mono order_refl)
qed

section \<open>Properties\<close>



text \<open>
  The assessment is monotone in its evidence: higher scores, a rule that triggers and a higher
  rule severity never lower the risk score or the severity, whatever the roundings.
\<close>

theorem compute_mono:
  assumes "thresholds_ok cfg" "weights_nonneg cfg"
    and "s \<le> s'" "i \<le> i'" "t \<longrightarrow> t'" "optional_rank rs \<le> optional_rank rs'"
  shows "risk_score (compute cfg s i t rs) \<le> risk_score (compute cfg s' i' t' rs')
    \<and> severity_rank (final_severity (compute cfg s i t rs))
      \<le> severity_rank (final_severity (compute cfg s' i' t' rs'))"
proof -
  have b: "base_risk cfg s i t \<le> base_risk cfg s' i' t'"
    using assms by (intro base_risk_mono)
  have sev: "severity_rank (threshold_severity cfg (base_risk cfg s i t))
      \<le> severity_rank (threshold_severity cfg (base_risk cfg s' i' t'))"
    using assms(1) b by (rule threshold_severity_mono)
  have "risk_score (compute cfg s i t rs) \<le> risk_score (compute cfg s' i' t' rs')"
    unfolding compute_fields using b assms(1,5)
    by (auto simp: threshold_severity_def thresholds_ok_def max_def split: if_splits)
  then show ?thesis
    unfolding compute_fields using sev assms(5,6) by (auto simp: max_def)
qed

theorem compute_mono_witness:
  "risk_score (compute (default_settings []) 0 0 False None)
     \<le> risk_score (compute (default_settings []) 1 (1/2) True (Some ''MEDIUM''))"
  using compute_mono [OF thresholds_ok_default weights_nonneg_default,
      of 0 1 0 "1/2" False True None "Some ''MEDIUM''"]
  by (simp add: optional_rank_def)

text \<open>
  The label is \<open>normal\<close> exactly when no engine contributed.
\<close>

lemma classify_normal_iff:
  "anomaly_type (compute cfg s i t rs) = ''normal'' \<longleftrightarrow>
     \<not> t \<and> s < fl (15 / 100) \<and> i < fl (15 / 100)"
  by (auto simp: compute_def Let_def classify_def)

text \<open>
  A log that only a HIGH rule flags has severity HIGH and a risk score of 0.5: below the HIGH
  threshold, so a reader that buckets alerts by risk score counts it as medium.
\<close>

lemma rule_high_keeps_medium_risk:
  "final_severity (compute (default_settings []) 0 0 True (Some ''HIGH'')) = ''HIGH''
   \<and> risk_score (compute (default_settings []) 0 0 True (Some ''HIGH'')) = 1 / 2"
  by code_simp

end
