(* ===== verification/PyUuid.thy ===== *)
theory PyUuid
  imports PyText
begin

text \<open>
  The identifiers of \<open>uuid\<close>: a UUID is its 32 lower-case hexadecimal digits. \<open>uuid_str\<close> is \<open>str\<close>,
  \<open>uuid_parse\<close> the constructor on a text. (A sign, blank, underscore or \<open>0x\<close> that \<open>int(hex, 16)\<close>
  would also take is an error here.)
\<close>

definition hex_digits :: string where
  "hex_digits = ''0123456789abcdef''"

definition is_uuid :: "string \<Rightarrow> bool" where
  "is_uuid u \<longleftrightarrow> length u = 32 \<and> list_all (\<lambda>c. c \<in> set hex_digits) u"

definition uuid_str :: "string \<Rightarrow> string" where
  "uuid_str u = take 8 u @ ''-'' @ take 4 (drop 8 u) @ ''-'' @ take 4 (drop 12 u) @ ''-''
     @ take 4 (drop 16 u) @ ''-'' @ drop 20 u"

text \<open>\<open>s.replace(pat, "")\<close>\<close>

fun str_remove :: "string \<Rightarrow> string \<Rightarrow> string" where
  "str_remove pat [] = []"
| "str_remove pat (c # s) =
     (if prefix pat (c # s) then str_remove pat (drop (length pat - 1) s) else c # str_remove pat s)"

definition str_strip_by :: "(char \<Rightarrow> bool) \<Rightarrow> string \<Rightarrow> string" where
  "str_strip_by p s = str_rstrip_by p (dropWhile p s)"

definition uuid_parse :: "string \<Rightarrow> exn + string" where
  "uuid_parse s =
     (let h = str_remove ''uuid:'' (str_remove ''urn:'' s);
          h = str_lower (str_remove ''-'' (str_strip_by (\<lambda>c. c \<in> set ''{}'') h))
      in if is_uuid h then Inr h else Inl ValueError)"

lemma str_remove_absent: "c \<notin> set s \<Longrightarrow> str_remove (c # pat) s = s"
  by (induction s) (auto simp: prefix_Cons)

lemma str_remove_append_dash:
  "str_remove ''-'' (s @ t) = str_remove ''-'' s @ str_remove ''-'' t"
  by (induction s) (auto simp: prefix_Cons)

lemma dropWhile_none: "list_all (\<lambda>c. \<not> p c) s \<Longrightarrow> dropWhile p s = s"
  by (cases s) auto

lemma str_strip_by_none: "list_all (\<lambda>c. \<not> p c) s \<Longrightarrow> str_strip_by p s = s"
  by (simp add: str_strip_by_def str_rstrip_by_def dropWhile_none)

lemma hex_digit_facts:
  assumes "c \<in> set hex_digits"
  shows "c \<noteq> CHR ''u''" "c \<noteq> CHR ''-''" "c \<notin> set ''{}''" "char_lower c = c"
  using assms by (auto simp: hex_digits_def char_lower_def)

lemma uuid_parse_str:
  assumes "is_uuid u"
  shows "uuid_parse (uuid_str u) = Inr u"
proof -
  have hex: "c \<in> set hex_digits" if "c \<in> set u" for c
    using assms that by (auto simp: is_uuid_def list_all_iff)
  have sub: "set (take n u) \<subseteq> set u" "set (drop n u) \<subseteq> set u" "set (take k (drop n u)) \<subseteq> set u" for n k
    by (auto dest: in_set_takeD in_set_dropD)
  have chars: "c \<in> set u \<or> c = CHR ''-''" if "c \<in> set (uuid_str u)" for c
    using that by (auto simp: uuid_str_def dest: in_set_takeD in_set_dropD)
  have ok: "c \<noteq> CHR ''u''" "c \<notin> set ''{}''" if "c \<in> set (uuid_str u)" for c
    using chars [OF that] hex_digit_facts(1,3) [OF hex] by auto
  have nodash: "str_remove ''-'' s = s" if "set s \<subseteq> set u" for s
    using that hex_digit_facts(2) [OF hex] by (intro str_remove_absent) blast
  have "str_remove ''uuid:'' (str_remove ''urn:'' (uuid_str u)) = uuid_str u"
    using ok(1) by (subst str_remove_absent [of "CHR ''u''" "uuid_str u"], blast)+ simp
  moreover have "str_strip_by (\<lambda>c. c \<in> set ''{}'') (uuid_str u) = uuid_str u"
    using ok(2) by (intro str_strip_by_none) (auto simp: list_all_iff)
  moreover have "str_remove ''-'' (uuid_str u) = take 8 u @ take 4 (drop 8 u) @ take 4 (drop 12 u)
      @ take 4 (drop 16 u) @ drop 20 u"
    unfolding uuid_str_def str_remove_append_dash using sub by (simp add: nodash)
  moreover have "\<dots> = u"
    using append_take_drop_id [of 4 "drop 16 u"] append_take_drop_id [of 4 "drop 12 u"]
      append_take_drop_id [of 4 "drop 8 u"] append_take_drop_id [of 8 u] by simp
  moreover have "str_lower u = u"
    using hex_digit_facts(4) [OF hex] by (simp add: str_lower_def map_idI)
  ultimately show ?thesis using assms by (simp add: uuid_parse_def Let_def)
qed

end
