(* ===== verification/PyTime.thy ===== *)
theory PyTime
  imports PyText
begin

text \<open>
  Dates. An aware \<open>datetime\<close> is its instant, in microseconds since 1970 UTC (the resolution of
  Python's type); a naive one is its wall-clock reading counted the same way.
\<close>

type_synonym instant = int

datatype py_datetime = Naive int | Aware instant

text \<open>\<open>v if v.tzinfo is not None else v.replace(tzinfo=timezone.utc)\<close>\<close>

fun as_utc :: "py_datetime \<Rightarrow> instant" where
  "as_utc (Naive t) = t"
| "as_utc (Aware t) = t"

definition us_per_second :: int where "us_per_second = 1000000"
definition us_per_minute :: int where "us_per_minute = 60000000"
definition us_per_day :: int where "us_per_day = 86400000000"

definition minutes :: "int \<Rightarrow> int" where "minutes n = n * us_per_minute"
definition days :: "int \<Rightarrow> int" where "days n = n * us_per_day"

text \<open>\<open>t.replace(second=0, microsecond=0)\<close>, also for instants before 1970.\<close>

definition floor_minute :: "instant \<Rightarrow> instant" where
  "floor_minute t = t - t mod us_per_minute"

section \<open>Texts\<close>

text \<open>The year, month and day of a day number, in the proleptic Gregorian calendar.\<close>

definition civil_date :: "int \<Rightarrow> int \<times> int \<times> int" where
  "civil_date day =
     (let z = day + 719468; era = z div 146097; doe = z mod 146097;
          yoe = (doe - doe div 1460 + doe div 36524 - doe div 146096) div 365;
          doy = doe - (365 * yoe + yoe div 4 - yoe div 100);
          mp = (5 * doy + 2) div 153;
          d = doy - (153 * mp + 2) div 5 + 1;
          m = (if mp < 10 then mp + 3 else mp - 9);
          y = yoe + era * 400
      in (if m \<le> 2 then y + 1 else y, m, d))"

text \<open>The day number of a date, and which dates there are: the years of Python's calendar are 1 to 9999.\<close>

definition days_from_civil :: "int \<Rightarrow> int \<Rightarrow> int \<Rightarrow> int" where
  "days_from_civil y m d =
     (let y = (if m \<le> 2 then y - 1 else y); era = y div 400; yoe = y mod 400;
          mp = (if 2 < m then m - 3 else m + 9);
          doy = (153 * mp + 2) div 5 + d - 1;
          doe = yoe * 365 + yoe div 4 - yoe div 100 + doy
      in era * 146097 + doe - 719468)"

definition is_leap :: "int \<Rightarrow> bool" where
  "is_leap y \<longleftrightarrow> y mod 4 = 0 \<and> (y mod 100 \<noteq> 0 \<or> y mod 400 = 0)"

definition days_in_month :: "int \<Rightarrow> int \<Rightarrow> int" where
  "days_in_month y m = (if m = 2 then (if is_leap y then 29 else 28)
     else if m \<in> {4, 6, 9, 11} then 30 else 31)"

definition valid_date :: "int \<Rightarrow> int \<Rightarrow> int \<Rightarrow> bool" where
  "valid_date y m d \<longleftrightarrow> 1 \<le> y \<and> y \<le> 9999 \<and> 1 \<le> m \<and> m \<le> 12 \<and> 1 \<le> d \<and> d \<le> days_in_month y m"

text \<open>\<open>datetime(y, m, d, hh, mm, ss, us)\<close>, naive, or \<open>ValueError\<close>.\<close>

definition make_datetime :: "int \<Rightarrow> int \<Rightarrow> int \<Rightarrow> int \<Rightarrow> int \<Rightarrow> int \<Rightarrow> int \<Rightarrow> exn + int" where
  "make_datetime y m d hh mm ss us =
     (if valid_date y m d \<and> 0 \<le> hh \<and> hh < 24 \<and> 0 \<le> mm \<and> mm < 60 \<and> 0 \<le> ss \<and> ss < 60
      then Inr (days (days_from_civil y m d) + (hh * 3600 + mm * 60 + ss) * us_per_second + us)
      else Inl ValueError)"

text \<open>The first and the last instant of the calendar; \<open>astimezone\<close> raises \<open>OverflowError\<close> outside.\<close>

definition first_instant :: instant where "first_instant = days (days_from_civil 1 1 1)"
definition last_instant :: instant where "last_instant = days (days_from_civil 9999 12 31) + us_per_day - 1"

definition pad :: "nat \<Rightarrow> int \<Rightarrow> string" where
  "pad n i = (let s = str_of_int i in replicate (n - length s) (CHR ''0'') @ s)"

text \<open>The text up to the seconds, with the microseconds when there are any.\<close>

definition iso_body :: "instant \<Rightarrow> string" where
  "iso_body t =
     (case civil_date (t div us_per_day) of (y, m, d) \<Rightarrow>
      let r = t mod us_per_day; sec = r div us_per_second; us = r mod us_per_second
      in pad 4 y @ ''-'' @ pad 2 m @ ''-'' @ pad 2 d @ ''T'' @ pad 2 (sec div 3600) @ '':''
         @ pad 2 (sec div 60 mod 60) @ '':'' @ pad 2 (sec mod 60)
         @ (if us = 0 then [] else ''.'' @ pad 6 us))"

text \<open>\<open>isoformat()\<close> of a UTC datetime, and its text in the JSON of a pydantic model.\<close>

definition isoformat_utc :: "instant \<Rightarrow> string" where
  "isoformat_utc t = iso_body t @ ''+00:00''"

definition json_datetime :: "instant \<Rightarrow> string" where
  "json_datetime t = iso_body t @ ''Z''"

lemma iso_examples:
  "isoformat_utc 0 = ''1970-01-01T00:00:00+00:00''"
  "json_datetime 1709210096000250 = ''2024-02-29T12:34:56.000250Z''"
  by code_simp+

lemma civil_examples:
  "days_from_civil 1970 1 1 = 0" "days_from_civil 2024 2 29 = 19782" "civil_date 19782 = (2024, 2, 29)"
  "days_from_civil 2000 3 1 = 11017" "civil_date (days_from_civil 1 1 1) = (1, 1, 1)"
  by code_simp+

lemma floor_minute_bounds: "floor_minute t \<le> t \<and> t < floor_minute t + us_per_minute"
  using pos_mod_bound [of us_per_minute t] pos_mod_sign [of us_per_minute t]
  unfolding floor_minute_def by (simp add: us_per_minute_def)

lemma floor_minute_minutes [simp]: "floor_minute (floor_minute t + minutes n) = floor_minute t + minutes n"
proof -
  have "us_per_minute dvd floor_minute t" by (simp add: floor_minute_def minus_mod_eq_mult_div)
  then have "us_per_minute dvd floor_minute t + minutes n" by (simp add: minutes_def)
  then show ?thesis unfolding floor_minute_def by simp
qed

end
