(* ===== verification/SqlClient.thy ===== *)
theory SqlClient
  imports PyUuid PyTime Settings
begin

text \<open>
  The database is not part of the program either. The tables are those of \<open>app/models/log.py\<close> and
  \<open>app/models/alert.py\<close>; a session reaches the server with one statement at a time, a query or the
  commit of a list of changes, through the operation \<open>D\<close>. \<open>sql_ok D view others\<close> states what the
  code relies on: before a statement runs, other processes may have changed the data as \<open>others\<close>
  allows; a statement that returns has run with its documented meaning; a commit that violates a
  constraint raises \<open>IntegrityError\<close> and changes nothing; any other error is a \<open>DatabaseError\<close> and
  leaves the commit undone, or done with the answer lost. \<open>sim_sql\<close> is such a server in memory.
\<close>

section \<open>The tables\<close>

record log_row =
  log_key :: string
  log_source :: string
  log_lvl :: string
  log_message :: string
  log_timestamp :: py_datetime
  log_ip :: "string option"
  log_enqueued :: bool
  log_created :: instant

record alert_row =
  alert_key :: string
  alert_log :: string
  alert_severity :: string
  alert_reason :: string
  alert_risk :: rat
  alert_breakdown :: "(string \<times> rat) list"
  alert_type :: string
  alert_created :: instant

record sql_db =
  logs :: "log_row list"
  alerts :: "alert_row list"

definition log_levels :: "string list" where
  "log_levels = [''DEBUG'', ''INFO'', ''WARNING'', ''WARN'', ''ERROR'', ''CRITICAL'', ''FATAL'']"

definition alert_severities :: "string list" where
  "alert_severities = [''LOW'', ''MEDIUM'', ''HIGH'']"

text \<open>The column lengths; PostgreSQL refuses longer texts.\<close>

definition log_fits :: "log_row \<Rightarrow> bool" where
  "log_fits l \<longleftrightarrow> length (log_source l) \<le> 255 \<and> length (log_lvl l) \<le> 50
     \<and> (case log_ip l of None \<Rightarrow> True | Some ip \<Rightarrow> length ip \<le> 45)"

definition alert_fits :: "alert_row \<Rightarrow> bool" where
  "alert_fits a \<longleftrightarrow> length (alert_severity a) \<le> 10 \<and> length (alert_type a) \<le> 100
     \<and> \<bar>alert_risk a\<bar> < 10"

text \<open>\<open>Numeric(5, 4)\<close> keeps four decimals.\<close>

definition numeric_5_4 :: "rat \<Rightarrow> rat" where
  "numeric_5_4 x = of_int \<lfloor>x * 10000 + 1 / 2\<rfloor> / 10000"

section \<open>Reading statements\<close>

text \<open>
  The \<open>SELECT\<close>s of the read endpoints. SQL leaves the order of rows with equal keys open; here they
  come in the order of the table. An aggregate over no rows is \<open>None\<close> (\<open>NULL\<close>) unless it counts; the
  average of a \<open>numeric\<close> column is exact here, where PostgreSQL keeps some sixteen digits.
\<close>

datatype alert_sort = TimestampDesc | TimestampAsc | RiskScoreDesc | RiskScoreAsc

datatype query =
    SelectOne
  | CountAlerts "string option"
  | PageOfAlerts "string option" alert_sort nat nat
  | RiskCounts rat rat
  | LogsPerMinute instant
  | AlertsPerMinute instant
  | AggregateOf string "string list" instant

datatype answer =
    Scalars "int list"
  | Page "alert_row list"
  | Buckets "(instant \<times> int) list"
  | Aggregate int "int option" "instant option" rat "int option"

definition alerts_where :: "string option \<Rightarrow> sql_db \<Rightarrow> alert_row list" where
  "alerts_where sev d = (case sev of
       None \<Rightarrow> alerts d
     | Some v \<Rightarrow> filter (\<lambda>a. alert_severity a = v) (alerts d))"

fun order_alerts :: "alert_sort \<Rightarrow> alert_row list \<Rightarrow> alert_row list" where
  "order_alerts TimestampDesc = sort_key (\<lambda>a. - alert_created a)"
| "order_alerts TimestampAsc = sort_key alert_created"
| "order_alerts RiskScoreDesc = sort_key (\<lambda>a. - alert_risk a)"
| "order_alerts RiskScoreAsc = sort_key alert_risk"

definition count_of :: "('a \<Rightarrow> bool) \<Rightarrow> 'a list \<Rightarrow> int" where
  "count_of P xs = int (length (filter P xs))"

text \<open>\<open>GROUP BY\<close> the minute, \<open>ORDER BY\<close> the minute, of the times from \<open>start\<close> on.\<close>

definition per_minute :: "instant \<Rightarrow> instant list \<Rightarrow> (instant \<times> int) list" where
  "per_minute start ts = (let ms = map floor_minute (filter (\<lambda>t. start \<le> t) ts) in
     map (\<lambda>m. (m, count_of ((=) m) ms)) (sort (remdups ms)))"

text \<open>The rows of \<open>logs LEFT JOIN alerts ON alerts.log_id = logs.id\<close> for one address.\<close>

definition joined :: "string \<Rightarrow> sql_db \<Rightarrow> (log_row \<times> alert_row option) list" where
  "joined ip d = concat (map (\<lambda>l. case filter (\<lambda>a. alert_log a = log_key l) (alerts d) of
       [] \<Rightarrow> [(l, None)]
     | as \<Rightarrow> map (\<lambda>a. (l, Some a)) as) (filter (\<lambda>l. log_ip l = Some ip) (logs d)))"

definition sum_case :: "('a \<Rightarrow> bool) \<Rightarrow> 'a list \<Rightarrow> int option" where
  "sum_case P xs = (if xs = [] then None else Some (count_of P xs))"

definition avg_or_zero :: "rat list \<Rightarrow> rat" where
  "avg_or_zero xs = (if xs = [] then 0 else sum_list xs / of_nat (length xs))"

fun answer_of :: "query \<Rightarrow> sql_db \<Rightarrow> answer" where
  "answer_of SelectOne d = Scalars [1]"
| "answer_of (CountAlerts sev) d = Scalars [int (length (alerts_where sev d))]"
| "answer_of (PageOfAlerts sev srt limit offset) d =
     Page (take limit (drop offset (order_alerts srt (alerts_where sev d))))"
| "answer_of (RiskCounts medium high) d = Scalars
     [count_of (\<lambda>a. high \<le> alert_risk a) (alerts d),
      count_of (\<lambda>a. medium \<le> alert_risk a \<and> alert_risk a < high) (alerts d),
      count_of (\<lambda>a. alert_risk a < medium) (alerts d)]"
| "answer_of (LogsPerMinute start) d = Buckets (per_minute start (map log_created (logs d)))"
| "answer_of (AlertsPerMinute start) d = Buckets (per_minute start (map alert_created (alerts d)))"
| "answer_of (AggregateOf ip levels cutoff) d =
     (let rs = joined ip d in
      Aggregate (int (length rs))
        (sum_case (\<lambda>(l, _). log_lvl l \<in> set levels) rs)
        (if rs = [] then None else Some (Max (set (map (\<lambda>(l, _). as_utc (log_timestamp l)) rs))))
        (avg_or_zero (List.map_filter (\<lambda>(_, a). map_option alert_risk a) rs))
        (sum_case (\<lambda>(_, a). case a of None \<Rightarrow> False | Some a \<Rightarrow> cutoff \<le> alert_created a) rs))"

section \<open>Statements and their documented meaning\<close>

datatype change =
    InsertLog log_row
  | SetEnqueued string
  | DeleteLog string
  | InsertAlert alert_row

datatype stmt =
    SelectUnenqueued
  | SelectLog string
  | SelectAlertsOf string
  | Commit "change list"
  | Read query

datatype rows = LogRows "log_row list" | AlertRows "alert_row list" | Committed | Answer answer

definition mark_enqueued :: "string \<Rightarrow> log_row \<Rightarrow> log_row" where
  "mark_enqueued u l = (if log_key l = u then l\<lparr>log_enqueued := True\<rparr> else l)"

fun apply_change :: "change \<Rightarrow> sql_db \<Rightarrow> exn + sql_db" where
  "apply_change (InsertLog l) d =
     (if \<not> log_fits l then Inl DatabaseError
      else if log_key l \<in> log_key ` set (logs d) \<or> log_lvl l \<notin> set log_levels then Inl IntegrityError
      else Inr (d\<lparr>logs := logs d @ [l]\<rparr>))"
| "apply_change (SetEnqueued u) d =
     (if u \<in> log_key ` set (logs d)
      then Inr (d\<lparr>logs := map (mark_enqueued u) (logs d)\<rparr>)
      else Inl DatabaseError)"
| "apply_change (DeleteLog u) d =
     Inr (d\<lparr>logs := filter (\<lambda>l. log_key l \<noteq> u) (logs d),
            alerts := filter (\<lambda>a. alert_log a \<noteq> u) (alerts d)\<rparr>)"
| "apply_change (InsertAlert a) d =
     (if \<not> alert_fits a then Inl DatabaseError
      else if alert_key a \<in> alert_key ` set (alerts d) \<or> alert_log a \<in> alert_log ` set (alerts d)
        \<or> alert_log a \<notin> log_key ` set (logs d) \<or> alert_severity a \<notin> set alert_severities
        then Inl IntegrityError
      else Inr (d\<lparr>alerts := alerts d @ [a\<lparr>alert_risk := numeric_5_4 (alert_risk a)\<rparr>]\<rparr>))"

fun apply_changes :: "change list \<Rightarrow> sql_db \<Rightarrow> exn + sql_db" where
  "apply_changes [] d = Inr d"
| "apply_changes (c # cs) d = (case apply_change c d of Inl e \<Rightarrow> Inl e | Inr d' \<Rightarrow> apply_changes cs d')"

fun run_stmt :: "stmt \<Rightarrow> sql_db \<Rightarrow> (exn + rows) \<times> sql_db" where
  "run_stmt SelectUnenqueued d = (Inr (LogRows (filter (\<lambda>l. \<not> log_enqueued l) (logs d))), d)"
| "run_stmt (SelectLog u) d = (Inr (LogRows (filter (\<lambda>l. log_key l = u) (logs d))), d)"
| "run_stmt (SelectAlertsOf u) d = (Inr (AlertRows (filter (\<lambda>a. alert_log a = u) (alerts d))), d)"
| "run_stmt (Commit cs) d =
     (case apply_changes cs d of Inl e \<Rightarrow> (Inl e, d) | Inr d' \<Rightarrow> (Inr Committed, d'))"
| "run_stmt (Read q) d = (Inr (Answer (answer_of q d)), d)"

section \<open>The connection\<close>

type_synonym 'd sql_conn = "stmt \<Rightarrow> ('d, rows) eff"

definition sql_ok :: "'d sql_conn \<Rightarrow> ('d \<Rightarrow> sql_db) \<Rightarrow> (sql_db \<Rightarrow> sql_db \<Rightarrow> bool) \<Rightarrow> bool" where
  "sql_ok D view others \<longleftrightarrow> (\<forall>st s. \<exists>d. others (view s) d \<and> (case D st s of
       (Inr r, s') \<Rightarrow> run_stmt st d = (Inr r, view s')
     | (Inl e, s') \<Rightarrow> e = IntegrityError \<and> run_stmt st d = (Inl IntegrityError, view s')
         \<or> e = DatabaseError \<and> (view s' = d \<or> view s' = snd (run_stmt st d))))"

definition sql_up :: "'d sql_conn \<Rightarrow> ('d \<Rightarrow> sql_db) \<Rightarrow> bool" where
  "sql_up D view \<longleftrightarrow> (\<forall>st s. \<exists>s'. D st s = (fst (run_stmt st (view s)), s')
     \<and> view s' = snd (run_stmt st (view s)))"

datatype sql_fault = Runs | Fails | AnswerLost

fun sim_sql :: "(sql_fault list \<times> sql_db) sql_conn" where
  "sim_sql st (Fails # fs, d) = (Inl DatabaseError, (fs, d))"
| "sim_sql st (AnswerLost # fs, d) = (Inl DatabaseError, (fs, snd (run_stmt st d)))"
| "sim_sql st (fs, d) = (fst (run_stmt st d), (tl fs, snd (run_stmt st d)))"

definition mem_sql :: "sql_db sql_conn" where
  "mem_sql st d = run_stmt st d"

lemma apply_change_error:
  "apply_change c d = Inl e \<Longrightarrow> e = IntegrityError \<or> e = DatabaseError"
  by (cases c) (auto split: if_splits)

lemma apply_changes_error:
  "apply_changes cs d = Inl e \<Longrightarrow> e = IntegrityError \<or> e = DatabaseError"
  by (induction cs arbitrary: d) (auto split: sum.splits dest: apply_change_error)

lemma run_stmt_error:
  assumes "run_stmt st d = (Inl e, d')"
  shows "(e = IntegrityError \<or> e = DatabaseError) \<and> d' = d"
proof (cases st)
  case (Commit cs)
  with assms show ?thesis using apply_changes_error [of cs d] by (cases "apply_changes cs d") auto
qed (use assms in auto)

lemma sql_ok_mem: "sql_ok mem_sql (\<lambda>d. d) (=)"
  unfolding sql_ok_def mem_sql_def
proof (intro allI exI conjI)
  fix st s
  show "case run_stmt st s of
       (Inr r, s') \<Rightarrow> run_stmt st s = (Inr r, s')
     | (Inl e, s') \<Rightarrow> e = IntegrityError \<and> run_stmt st s = (Inl IntegrityError, s')
         \<or> e = DatabaseError \<and> (s' = s \<or> s' = snd (run_stmt st s))"
    using run_stmt_error [of st s] by (cases "run_stmt st s"; cases "fst (run_stmt st s)") auto
qed simp

lemma sql_up_mem: "sql_up mem_sql (\<lambda>d. d)"
  by (simp add: sql_up_def mem_sql_def)

lemma sql_ok_sim: "sql_ok sim_sql snd (=)"
  unfolding sql_ok_def
proof (intro allI exI conjI)
  fix st :: stmt and s :: "sql_fault list \<times> sql_db"
  show "case sim_sql st s of
       (Inr r, s') \<Rightarrow> run_stmt st (snd s) = (Inr r, snd s')
     | (Inl e, s') \<Rightarrow> e = IntegrityError \<and> run_stmt st (snd s) = (Inl IntegrityError, snd s')
         \<or> e = DatabaseError \<and> (snd s' = snd s \<or> snd s' = snd (run_stmt st (snd s)))"
    using run_stmt_error [of st "snd s"]
    by (cases "(st, s)" rule: sim_sql.cases; cases "run_stmt st (snd s)"; cases "fst (run_stmt st (snd s))")
      auto
qed simp

section \<open>What the constraints keep\<close>

definition db_ok :: "sql_db \<Rightarrow> bool" where
  "db_ok d \<longleftrightarrow> distinct (map log_key (logs d)) \<and> distinct (map alert_key (alerts d))
     \<and> distinct (map alert_log (alerts d)) \<and> alert_log ` set (alerts d) \<subseteq> log_key ` set (logs d)
     \<and> log_lvl ` set (logs d) \<subseteq> set log_levels \<and> alert_severity ` set (alerts d) \<subseteq> set alert_severities"

lemma mark_enqueued_simps [simp]:
  "log_key (mark_enqueued u l) = log_key l" "log_lvl (mark_enqueued u l) = log_lvl l"
  "log_message (mark_enqueued u l) = log_message l" "log_ip (mark_enqueued u l) = log_ip l"
  "log_enqueued (mark_enqueued u l) \<longleftrightarrow> log_key l = u \<or> log_enqueued l"
  by (simp_all add: mark_enqueued_def)

lemma apply_change_ok:
  assumes "db_ok d" and "apply_change c d = Inr d'"
  shows "db_ok d'"
proof (cases c)
  case (InsertLog l)
  with assms show ?thesis by (auto simp: db_ok_def image_subset_iff split: if_splits)
next
  case (SetEnqueued u)
  then have d': "d' = d\<lparr>logs := map (mark_enqueued u) (logs d)\<rparr>"
    using assms(2) by (simp split: if_splits)
  have eq: "log_key ` set (logs d') = log_key ` set (logs d)" "log_lvl ` set (logs d') = log_lvl ` set (logs d)"
    "map log_key (logs d') = map log_key (logs d)" "alerts d' = alerts d"
    unfolding d' by (simp_all add: image_image comp_def)
  show ?thesis using assms(1) unfolding db_ok_def eq .
next
  case (DeleteLog u)
  then have d': "d' = d\<lparr>logs := filter (\<lambda>l. log_key l \<noteq> u) (logs d),
      alerts := filter (\<lambda>a. alert_log a \<noteq> u) (alerts d)\<rparr>"
    using assms(2) by simp
  have k: "alert_log ` set (alerts d) \<subseteq> log_key ` set (logs d)" using assms(1) by (simp add: db_ok_def)
  have "alert_log a \<in> log_key ` {l \<in> set (logs d). log_key l \<noteq> u}"
    if "a \<in> set (alerts d)" "alert_log a \<noteq> u" for a
  proof -
    from that(1) k have "alert_log a \<in> log_key ` set (logs d)" by blast
    with that(2) show ?thesis by auto
  qed
  then show ?thesis
    using assms(1) unfolding d' by (simp add: db_ok_def distinct_map_filter image_subset_iff)
next
  case (InsertAlert a)
  with assms show ?thesis by (auto simp: db_ok_def image_subset_iff split: if_splits)
qed

lemma apply_changes_ok: "db_ok d \<Longrightarrow> apply_changes cs d = Inr d' \<Longrightarrow> db_ok d'"
  by (induction cs arbitrary: d) (auto split: sum.splits dest: apply_change_ok)

lemma run_stmt_ok: "db_ok d \<Longrightarrow> db_ok (snd (run_stmt st d))"
  by (cases st) (auto split: sum.splits dest: apply_changes_ok)

lemma empty_sql_ok: "db_ok \<lparr>logs = [], alerts = []\<rparr>"
  by (simp add: db_ok_def)

text \<open>The cases of a statement: the data \<open>d\<close> it ran on, what it left, and what the result tells.\<close>

lemma sql_cases:
  assumes "sql_ok D view others" and "D st s = (r, s')"
  obtains d where "others (view s) d"
    and "view s' = d \<or> view s' = snd (run_stmt st d)"
    and "\<And>x. r = Inr x \<Longrightarrow> run_stmt st d = (Inr x, view s')"
    and "r = Inl IntegrityError \<Longrightarrow> run_stmt st d = (Inl IntegrityError, view s')"
    and "\<And>e. r = Inl e \<Longrightarrow> e = IntegrityError \<or> e = DatabaseError"
proof -
  from assms(1) have "\<exists>d. others (view s) d \<and> (case D st s of
       (Inr r, s') \<Rightarrow> run_stmt st d = (Inr r, view s')
     | (Inl e, s') \<Rightarrow> e = IntegrityError \<and> run_stmt st d = (Inl IntegrityError, view s')
         \<or> e = DatabaseError \<and> (view s' = d \<or> view s' = snd (run_stmt st d)))"
    unfolding sql_ok_def by (elim allE)
  then obtain d where o: "others (view s) d" and c: "case D st s of
       (Inr r, s') \<Rightarrow> run_stmt st d = (Inr r, view s')
     | (Inl e, s') \<Rightarrow> e = IntegrityError \<and> run_stmt st d = (Inl IntegrityError, view s')
         \<or> e = DatabaseError \<and> (view s' = d \<or> view s' = snd (run_stmt st d))"
    by (elim exE conjE)
  show thesis
  proof (cases r)
    case (Inl e)
    with c assms(2) have c': "e = IntegrityError \<and> run_stmt st d = (Inl IntegrityError, view s')
         \<or> e = DatabaseError \<and> (view s' = d \<or> view s' = snd (run_stmt st d))" by simp
    show thesis
      by (rule that [OF o]) (use c' Inl in auto)
  next
    case (Inr x)
    with c assms(2) have c': "run_stmt st d = (Inr x, view s')" by simp
    show thesis
      by (rule that [OF o]) (use c' Inr in auto)
  qed
qed

text \<open>A reading statement that returns gives its answer on the data as it was when it ran.\<close>

lemma read_answer:
  assumes "sql_ok D view others" and "D (Read q) s = (Inr x, s')"
  obtains d where "others (view s) d" "x = Answer (answer_of q d)" "view s' = d"
proof (rule sql_cases [OF assms])
  fix d
  assume o: "others (view s) d" and run: "\<And>y. Inr x = Inr y \<Longrightarrow> run_stmt (Read q) d = (Inr y, view s')"
  have "x = Answer (answer_of q d)" "view s' = d" using run [of x] by auto
  with o show thesis by (rule that)
qed

end
