(* ===== verification/LogSchema.thy ===== *)
theory LogSchema
  imports SqlClient
begin

text \<open>
  \<open>app/schemas/log.py\<close>: the validation of a log that is posted. The text of an address is checked as
  Python's \<open>ipaddress\<close> does.
\<close>

section \<open>Addresses\<close>

definition is_hex_digit :: "char \<Rightarrow> bool" where
  "is_hex_digit c \<longleftrightarrow> c \<in> set ''0123456789abcdefABCDEF''"

text \<open>An octet: one to three decimal digits, no leading zero, at most 255.\<close>

definition ipv4_octet :: "string \<Rightarrow> bool" where
  "ipv4_octet s \<longleftrightarrow> s \<noteq> [] \<and> list_all is_digit s \<and> length s \<le> 3
     \<and> (s \<noteq> ''0'' \<longrightarrow> hd s \<noteq> CHR ''0'') \<and> digits_value 0 s \<le> 255"

definition is_ipv4 :: "string \<Rightarrow> bool" where
  "is_ipv4 s = (let octets = str_split (CHR ''.'') s in length octets = 4 \<and> list_all ipv4_octet octets)"

definition hextet :: "string \<Rightarrow> bool" where
  "hextet s \<longleftrightarrow> s \<noteq> [] \<and> list_all is_hex_digit s \<and> length s \<le> 4"

text \<open>The positions of the empty parts other than the first and the last.\<close>

definition inner_empty :: "string list \<Rightarrow> nat list" where
  "inner_empty parts = filter (\<lambda>i. parts ! i = []) [1..<length parts - 1]"

definition ipv6_parts :: "string list \<Rightarrow> bool" where
  "ipv6_parts parts =
     (if length parts < 3 \<or> 9 < length parts then False
      else case inner_empty parts of
        [] \<Rightarrow> length parts = 8 \<and> list_all hextet parts
      | [i] \<Rightarrow>
          (let hi = (if hd parts = [] then i - 1 else i);
               lo = length parts - i - 1;
               lo = (if last parts = [] then lo - 1 else lo)
           in (hd parts = [] \<longrightarrow> hi = 0) \<and> (last parts = [] \<longrightarrow> lo = 0) \<and> hi + lo < 8
              \<and> list_all hextet (take hi parts) \<and> list_all hextet (drop (length parts - lo) parts))
      | _ \<Rightarrow> False)"

text \<open>A dotted quad at the end stands for two parts.\<close>

definition is_ipv6_address :: "string \<Rightarrow> bool" where
  "is_ipv6_address s =
     (let parts = str_split (CHR '':'') s in
      if length parts < 3 \<or> CHR ''/'' \<in> set s then False
      else if CHR ''.'' \<in> set (last parts)
        then is_ipv4 (last parts) \<and> ipv6_parts (butlast parts @ [''0'', ''0''])
      else ipv6_parts parts)"

text \<open>The scope after a percent sign is neither empty nor has another one.\<close>

definition is_ipv6 :: "string \<Rightarrow> bool" where
  "is_ipv6 s = (case str_split (CHR ''%'') s of
       [a] \<Rightarrow> is_ipv6_address a
     | [a, scope] \<Rightarrow> scope \<noteq> [] \<and> is_ipv6_address a
     | _ \<Rightarrow> False)"

definition is_ip_address :: "string \<Rightarrow> bool" where
  "is_ip_address s \<longleftrightarrow> is_ipv4 s \<or> is_ipv6 s"

lemma ip_address_examples:
  "is_ip_address ''192.168.1.100''" "is_ip_address ''::1''" "is_ip_address ''fe80::1%eth0''"
  "is_ip_address ''1:2:3:4:5:6:7:8''" "is_ip_address ''::ffff:10.0.0.1''" "is_ip_address ''1::''"
  "\<not> is_ip_address ''1.2.3''" "\<not> is_ip_address ''01.2.3.4''" "\<not> is_ip_address ''1.2.3.256''"
  "\<not> is_ip_address ''1::2::3''" "\<not> is_ip_address '':1''" "\<not> is_ip_address ''unknown''"
  "\<not> is_ip_address ''''"
  by code_simp+

section \<open>The schema\<close>

record log_create =
  lc_source :: string
  lc_level :: string
  lc_message :: string
  lc_timestamp :: py_datetime
  lc_ip :: "string option"

definition valid_log_levels :: "string list" where
  "valid_log_levels = [''DEBUG'', ''INFO'', ''WARNING'', ''WARN'', ''ERROR'', ''CRITICAL'', ''FATAL'']"

definition fields_ok :: "log_create \<Rightarrow> bool" where
  "fields_ok p \<longleftrightarrow> 1 \<le> length (lc_source p) \<and> length (lc_source p) \<le> 255
     \<and> 1 \<le> length (lc_level p) \<and> length (lc_level p) \<le> 50 \<and> 1 \<le> length (lc_message p)
     \<and> (case lc_ip p of None \<Rightarrow> True | Some ip \<Rightarrow> length ip \<le> 45)"

definition validate_log_level :: "string \<Rightarrow> exn + string" where
  "validate_log_level v =
     (if str_upper v \<notin> set valid_log_levels then Inl ValueError else Inr (str_upper v))"

definition validate_timestamp :: "instant \<Rightarrow> py_datetime \<Rightarrow> exn + py_datetime" where
  "validate_timestamp now v =
     (let v_utc = as_utc v in
      if now + minutes 5 < v_utc then Inl ValueError
      else if v_utc < now - days 365 then Inl ValueError
      else Inr v)"

definition validate_ip_address :: "string option \<Rightarrow> exn + string option" where
  "validate_ip_address v = (case v of
       None \<Rightarrow> Inr None
     | Some s \<Rightarrow> if is_ip_address s then Inr v else Inl ValueError)"

definition validate_log :: "instant \<Rightarrow> log_create \<Rightarrow> exn + log_create" where
  "validate_log now p =
     (if \<not> fields_ok p then Inl ValueError
      else case validate_log_level (lc_level p) of
        Inl e \<Rightarrow> Inl e
      | Inr level \<Rightarrow> (case validate_timestamp now (lc_timestamp p) of
          Inl e \<Rightarrow> Inl e
        | Inr ts \<Rightarrow> (case validate_ip_address (lc_ip p) of
            Inl e \<Rightarrow> Inl e
          | Inr ip \<Rightarrow> Inr (p\<lparr>lc_level := level, lc_timestamp := ts, lc_ip := ip\<rparr>))))"

text \<open>The row that \<open>ingest_log\<close> makes of a validated log.\<close>

definition new_log :: "string \<Rightarrow> instant \<Rightarrow> log_create \<Rightarrow> log_row" where
  "new_log key now p = \<lparr>log_key = key, log_source = lc_source p, log_lvl = str_upper (lc_level p),
     log_message = lc_message p, log_timestamp = lc_timestamp p, log_ip = lc_ip p,
     log_enqueued = False, log_created = now\<rparr>"

section \<open>What validation guarantees\<close>

lemma validate_log_Inr:
  assumes "validate_log now p = Inr q"
  shows "fields_ok p \<and> str_upper (lc_level p) \<in> set valid_log_levels
    \<and> q = p\<lparr>lc_level := str_upper (lc_level p)\<rparr> \<and> as_utc (lc_timestamp p) \<le> now + minutes 5
    \<and> now - days 365 \<le> as_utc (lc_timestamp p)
    \<and> (\<forall>ip. lc_ip p = Some ip \<longrightarrow> is_ip_address ip)"
  using assms
  by (auto simp: validate_log_def validate_log_level_def validate_timestamp_def
      validate_ip_address_def Let_def split: if_splits sum.splits option.splits)


definition sample_post :: log_create where
  "sample_post = \<lparr>lc_source = ''firewall'', lc_level = ''error'', lc_message = ''denied'',
     lc_timestamp = Aware 0, lc_ip = Some ''10.0.0.1''\<rparr>"


text \<open>
  Validation is idempotent and normalises the level only: the validated log passes again,
  unchanged, at the same time, and a later post of the same log fails only by the age of its
  timestamp.
\<close>

theorem validate_log_idempotent:
  assumes "validate_log now p = Inr q" and "now \<le> later" and "later \<le> as_utc (lc_timestamp p) + days 365"
  shows "validate_log later q = Inr q \<and> q = p\<lparr>lc_level := str_upper (lc_level p)\<rparr>"
proof -
  note v = validate_log_Inr [OF assms(1)]
  have l: "length (str_upper s) = length s" for s by simp
  have "fields_ok q" using v by (simp add: fields_ok_def)
  then show ?thesis
    using v assms(2,3)
    by (auto simp: validate_log_def validate_log_level_def validate_timestamp_def
        validate_ip_address_def Let_def split: option.splits)
qed

theorem validate_log_idempotent_witness:
  "validate_log 60000000 (sample_post\<lparr>lc_level := ''ERROR''\<rparr>) = Inr (sample_post\<lparr>lc_level := ''ERROR''\<rparr>)"
proof -
  have "validate_log 0 sample_post = Inr (sample_post\<lparr>lc_level := ''ERROR''\<rparr>)" by code_simp
  from conjunct1 [OF validate_log_idempotent [OF this, of 60000000]] show ?thesis
    by (simp add: sample_post_def days_def us_per_day_def)
qed

end
