(* ===== verification/Frames.thy ===== *)
theory Frames
  imports QueueService
begin

text \<open>
  What the queue operations leave alone: they change the connection and the counters of the process
  and nothing else of its state.
\<close>

definition redis_only :: "(('r, 'z) env_scheme, 'a) eff \<Rightarrow> bool" where
  "redis_only f \<longleftrightarrow> (\<forall>w. \<exists>c k. snd (f w) = w\<lparr>conn := c, counters := k\<rparr>)"

named_theorems redis_only_intros

lemma redis_onlyD: "redis_only f \<Longrightarrow> f w = (r, w') \<Longrightarrow> \<exists>c k. w' = w\<lparr>conn := c, counters := k\<rparr>"
  unfolding redis_only_def by (metis snd_conv)

lemma redis_onlyE:
  assumes "redis_only f" and "f w = (r, w')"
  obtains c k where "w' = w\<lparr>conn := c, counters := k\<rparr>"
  using redis_onlyD [OF assms] by blast

lemma redis_onlyI: "(\<And>w. \<exists>c k. snd (f w) = w\<lparr>conn := c, counters := k\<rparr>) \<Longrightarrow> redis_only f"
  by (simp add: redis_only_def)

lemma env_self: "\<exists>c k. w = w\<lparr>conn := c, counters := k\<rparr>"
  by (intro exI [of _ "conn w"] exI [of _ "counters w"]) simp

lemma redis_only_return [redis_only_intros]: "redis_only (returnE x)"
  by (rule redis_onlyI) (simp add: returnE_apply env_self)

lemma redis_only_raise [redis_only_intros]: "redis_only (raiseE e)"
  by (rule redis_onlyI) (simp add: raiseE_apply env_self)

lemma redis_only_redisE [redis_only_intros]: "redis_only (redisE m)"
proof (rule redis_onlyI)
  fix w :: "('a, 'b) env_scheme"
  show "\<exists>c k. snd (redisE m w) = w\<lparr>conn := c, counters := k\<rparr>"
    by (intro exI [of _ "snd (m (conn w))"] exI [of _ "counters w"])
      (simp add: redisE_apply split: prod.splits)
qed

lemma redis_only_count [redis_only_intros]:
  "redis_only (modifyE (\<lambda>w. w\<lparr>counters := f (counters w)\<rparr>))"
proof (rule redis_onlyI)
  fix w :: "('a, 'b) env_scheme"
  show "\<exists>c k. snd (modifyE (\<lambda>w. w\<lparr>counters := f (counters w)\<rparr>) w) = w\<lparr>conn := c, counters := k\<rparr>"
    by (intro exI [of _ "conn w"] exI [of _ "f (counters w)"]) (simp add: modifyE_apply)
qed

lemma redis_only_bind [redis_only_intros]:
  fixes m :: "(('r, 'z) env_scheme, 'a) eff"
  assumes "redis_only m" and "\<And>x. redis_only (f x)"
  shows "redis_only (bindE m f)"
proof (rule redis_onlyI)
  fix w
  obtain r w1 where 1: "m w = (r, w1)" by fastforce
  from redis_onlyD [OF assms(1) this] obtain c k where w1: "w1 = w\<lparr>conn := c, counters := k\<rparr>" by blast
  show "\<exists>c k. snd (bindE m f w) = w\<lparr>conn := c, counters := k\<rparr>"
  proof (cases r)
    case (Inl e)
    with 1 w1 show ?thesis by (auto simp: bindE_apply)
  next
    case (Inr x)
    obtain r2 w2 where 2: "f x w1 = (r2, w2)" by fastforce
    from redis_onlyD [OF assms(2) this] obtain c' k' where "w2 = w1\<lparr>conn := c', counters := k'\<rparr>" by blast
    with 1 2 w1 Inr show ?thesis by (auto simp: bindE_apply)
  qed
qed

lemma redis_only_then [redis_only_intros]:
  "redis_only m \<Longrightarrow> redis_only k \<Longrightarrow> redis_only (thenE m k)"
  unfolding thenE_def by (rule redis_only_bind)

lemma redis_only_try [redis_only_intros]:
  fixes m :: "(('r, 'z) env_scheme, 'a) eff"
  assumes "redis_only m" and "\<And>e. redis_only (h e)"
  shows "redis_only (tryE m h)"
proof (rule redis_onlyI)
  fix w
  obtain r w1 where 1: "m w = (r, w1)" by fastforce
  from redis_onlyD [OF assms(1) this] obtain c k where w1: "w1 = w\<lparr>conn := c, counters := k\<rparr>" by blast
  show "\<exists>c k. snd (tryE m h w) = w\<lparr>conn := c, counters := k\<rparr>"
  proof (cases r)
    case (Inl e)
    obtain r2 w2 where 2: "h e w1 = (r2, w2)" by fastforce
    from redis_onlyD [OF assms(2) this] obtain c' k' where "w2 = w1\<lparr>conn := c', counters := k'\<rparr>" by blast
    with 1 2 w1 Inl show ?thesis by (auto simp: tryE_apply)
  next
    case (Inr x)
    with 1 w1 show ?thesis by (auto simp: tryE_apply)
  qed
qed

section \<open>The operations\<close>

lemma redis_only_increment [redis_only_intros]: "redis_only (increment_async R n a)"
  unfolding increment_async_def by (intro redis_only_intros)

lemma redis_only_enqueue [redis_only_intros]: "redis_only (enqueue R cfg now p)"
  unfolding enqueue_def by (auto intro!: redis_only_intros)

lemma redis_only_tag [redis_only_intros]: "redis_only (tag_entry R now r)"
  unfolding tag_entry_def
  by (auto intro!: redis_only_intros simp: Let_def split: sum.splits json.splits)

lemma redis_only_dequeue [redis_only_intros]: "redis_only (dequeue R now)"
  unfolding dequeue_def by (auto intro!: redis_only_intros split: option.splits)

lemma redis_only_acknowledge [redis_only_intros]: "redis_only (acknowledge R m)"
  unfolding acknowledge_def by (intro redis_only_intros)

lemma redis_only_retry [redis_only_intros]: "redis_only (retry_or_dlq R now m)"
  unfolding retry_or_dlq_def
  by (auto intro!: redis_only_intros simp: Let_def split: option.splits)

lemma redis_only_requeue [redis_only_intros]: "redis_only (requeue_raw R r)"
  unfolding requeue_raw_def by (intro redis_only_intros)

lemma redis_only_recover_loop: "redis_only (recover_loop R now rs n)"
  by (induction R now rs n rule: recover_loop.induct)
    (auto intro!: redis_only_intros split: staleness.splits)

lemma redis_only_recover [redis_only_intros]: "redis_only (recover_processing_queue R now)"
  unfolding recover_processing_queue_def
  by (auto intro!: redis_only_intros redis_only_recover_loop)

end
