(* ===== verification/LogService.thy ===== *)
theory LogService
  imports QueueService LogSchema Frames
begin

text \<open>
  \<open>app/services/log_service.py\<close> and \<open>app/api/logs.py\<close>: a log is written to the database, its message
  enqueued, and the row marked. The state of an API process is its connection, its counters and
  its database session.
\<close>

section \<open>State\<close>

record ('r, 'd) api = "'r env" +
  api_sql :: 'd

definition apiE :: "'d sql_conn \<Rightarrow> stmt \<Rightarrow> (('r, 'd, 'z) api_scheme, rows) eff" where
  "apiE D st = zoomE api_sql (\<lambda>d w. w\<lparr>api_sql := d\<rparr>) (D st)"

text \<open>The payload of the message of a log; the sweep of the worker sends the same.\<close>

definition log_payload :: "log_row \<Rightarrow> json" where
  "log_payload l = JObj [(''log_id'', JStr (uuid_str (log_key l))), (''log_level'', JStr (log_lvl l)),
     (''message'', JStr (log_message l)), (''ip_address'', json_opt_str (log_ip l))]"

section \<open>Ingestion\<close>

text \<open>
  \<open>_get_enqueue\<close>: the queue service is imported when it is first needed; \<open>available\<close> tells whether
  the import works.
\<close>

definition get_enqueue ::
  "bool \<Rightarrow> 'r redis_conn \<Rightarrow> settings \<Rightarrow> (rat \<Rightarrow> json \<Rightarrow> (('r, 'z) env_scheme, unit) eff) option" where
  "get_enqueue available R cfg = (if available then Some (enqueue R cfg) else None)"

text \<open>The row as \<open>session.refresh\<close> reads it back.\<close>

definition refresh :: "'d sql_conn \<Rightarrow> string \<Rightarrow> (('r, 'd, 'z) api_scheme, log_row) eff" where
  "refresh D u = bindE (apiE D (SelectLog u)) (\<lambda>r. case r of
       LogRows (l # _) \<Rightarrow> returnE l
     | _ \<Rightarrow> raiseE DatabaseError)"

text \<open>The handler of what the enqueueing raised.\<close>

definition ingest_failed ::
  "'r redis_conn \<Rightarrow> 'd sql_conn \<Rightarrow> log_row \<Rightarrow> exn \<Rightarrow> (('r, 'd, 'z) api_scheme, log_row) eff" where
  "ingest_failed R D l e =
     (if e = QueueFull then
        thenE (apiE D (Commit [DeleteLog (log_key l)])) (raiseE (HTTPException 429))
      else thenE (tryE (increment_async R ''enqueue_failures'' 1) (\<lambda>_. returnE ())) (returnE l))"

definition ingest_log ::
  "bool \<Rightarrow> 'r redis_conn \<Rightarrow> 'd sql_conn \<Rightarrow> settings \<Rightarrow> string \<Rightarrow> instant \<Rightarrow> rat \<Rightarrow> log_create \<Rightarrow>
     (('r, 'd, 'z) api_scheme, log_row) eff" where
  "ingest_log available R D cfg key utc_now now p =
     thenE (apiE D (Commit [InsertLog (new_log key utc_now p)]))
       (bindE (refresh D key) (\<lambda>l.
          case get_enqueue available R cfg of
            None \<Rightarrow> returnE l
          | Some enqueue_fn \<Rightarrow>
              tryE
                (thenE (enqueue_fn now (log_payload l))
                  (thenE (apiE D (Commit [SetEnqueued (log_key l)]))
                    (returnE (l\<lparr>log_enqueued := True\<rparr>))))
                (ingest_failed R D l)))"

section \<open>The endpoint\<close>

text \<open>\<open>LogResponseRef\<close>; \<open>ts\<close> is the text of the posted timestamp.\<close>

definition log_response :: "(py_datetime \<Rightarrow> string) \<Rightarrow> log_row \<Rightarrow> json" where
  "log_response ts l = JObj
     [(''id'', JStr (uuid_str (log_key l))), (''source'', JStr (log_source l)),
      (''log_level'', JStr (log_lvl l)), (''message'', JStr (log_message l)),
      (''timestamp'', JStr (ts (log_timestamp l))), (''ip_address'', json_opt_str (log_ip l)),
      (''created_at'', JStr (json_datetime (log_created l)))]"

definition create_log ::
  "bool \<Rightarrow> 'r redis_conn \<Rightarrow> 'd sql_conn \<Rightarrow> settings \<Rightarrow> (py_datetime \<Rightarrow> string) \<Rightarrow> string \<Rightarrow> instant \<Rightarrow>
     rat \<Rightarrow> log_create \<Rightarrow> (('r, 'd, 'z) api_scheme, json) eff" where
  "create_log available R D cfg ts key utc_now now p =
     bindE (ingest_log available R D cfg key utc_now now p) (\<lambda>l.
     thenE (increment_async R ''logs_received'' 1)
       (returnE (JObj [(''log'', log_response ts l), (''alert'', JNull)])))"

section \<open>Frames\<close>

lemma apiE_cases:
  assumes "apiE D st w = (r, w')"
  shows "D st (api_sql w) = (r, api_sql w') \<and> conn w' = conn w \<and> counters w' = counters w"
  using assms by (auto simp: apiE_def zoomE_apply split: prod.splits)

lemma redis_only_api_sql:
  assumes "redis_only f" and "f w = (r, w')"
  shows "api_sql w' = api_sql w"
  using redis_onlyD [OF assms] by auto

end
