(* ===== verification/AlertWorker.thy ===== *)
theory AlertWorker
  imports IsolationEngine RuleEngine StatisticalEngine ScoringEngine LogService
begin

text \<open>
  \<open>app/workers/alert_worker.py\<close>: the processing of one message, the start-up (restore, recovery,
  sweep), one round of the loop, and the heartbeat. The state of the process extends that of the
  scoring process by the database session, the burst tracker, the profiles and the tasks it has
  spawned, newest first. Clock readings and fresh identifiers are a record, \<open>readings\<close>.
\<close>

section \<open>State\<close>

datatype task = PublishTask json | RetrainTask retrain_task

record ('r, 'm, 'd) worker = "('r, 'm) ml_env" +
  sql :: 'd
  tracker :: ip_tracker
  profiling :: profile_store
  tasks :: "task list"

record readings =
  rd_dequeued :: rat
  rd_delay :: rat
  rd_rule :: rat
  rd_stat :: rat
  rd_retrain :: rat
  rd_alert_key :: string
  rd_created :: instant
  rd_retry :: rat
  rd_retry2 :: rat

definition sqlE :: "'d sql_conn \<Rightarrow> stmt \<Rightarrow> (('r, 'm, 'd, 'z) worker_scheme, rows) eff" where
  "sqlE D st = zoomE sql (\<lambda>d w. w\<lparr>sql := d\<rparr>) (D st)"

definition spawn :: "task \<Rightarrow> (('r, 'm, 'd, 'z) worker_scheme, unit) eff" where
  "spawn t = modifyE (\<lambda>w. w\<lparr>tasks := t # tasks w\<rparr>)"

section \<open>Reading the message\<close>

text \<open>\<open>message["payload"].get("log_id")\<close>\<close>

definition message_log_id :: "queue_message \<Rightarrow> exn + json" where
  "message_log_id m = (case dict_get (msg_fields m) ''payload'' of
       None \<Rightarrow> Inl KeyError
     | Some (JObj p) \<Rightarrow> Inr (dict_get_or p ''log_id'' JNull)
     | Some _ \<Rightarrow> Inl AttributeError)"

text \<open>The delay a retried message still has to wait: nothing here depends on the time it takes.\<close>

definition retry_delay :: "rat \<Rightarrow> queue_message \<Rightarrow> exn + rat" where
  "retry_delay now m = (case json_num (dict_get_or (msg_fields m) ''process_after'' (JInt 0)) of
       None \<Rightarrow> Inl TypeError
     | Some process_after \<Rightarrow>
         Inr (if now < process_after then min (fl (process_after - now)) 5 else 0))"

definition parse_log_id :: "json \<Rightarrow> exn + string" where
  "parse_log_id v = (case v of JStr s \<Rightarrow> uuid_parse s | _ \<Rightarrow> Inl AttributeError)"

section \<open>Database access\<close>

definition get_log :: "'d sql_conn \<Rightarrow> string \<Rightarrow> (('r, 'm, 'd, 'z) worker_scheme, log_row option) eff" where
  "get_log D u = bindE (sqlE D (SelectLog u)) (\<lambda>r. case r of
       LogRows [] \<Rightarrow> returnE None
     | LogRows (l # _) \<Rightarrow> returnE (Some l)
     | _ \<Rightarrow> raiseE ProtocolError)"

definition alert_exists :: "'d sql_conn \<Rightarrow> string \<Rightarrow> (('r, 'm, 'd, 'z) worker_scheme, bool) eff" where
  "alert_exists D u = bindE (sqlE D (SelectAlertsOf u)) (\<lambda>r. case r of
       AlertRows as \<Rightarrow> returnE (as \<noteq> [])
     | _ \<Rightarrow> raiseE ProtocolError)"

section \<open>Assessing a log\<close>

record assessment =
  as_rule :: "rule_result option"
  as_statistical :: rat
  as_features :: "rat list"
  as_result :: score_result

definition combine ::
  "settings \<Rightarrow> log_row \<Rightarrow> rule_result option \<Rightarrow> rat \<Rightarrow> rat \<Rightarrow> assessment" where
  "combine cfg l rule statistical isolation =
     \<lparr>as_rule = rule, as_statistical = statistical,
      as_features = extract_features (log_lvl l) (log_message l) (log_ip l),
      as_result = compute cfg statistical isolation (rule \<noteq> None) (map_option severity rule)\<rparr>"

text \<open>Steps 1 to 4: rules, statistics, isolation forest, combined score.\<close>

definition assess ::
  "settings \<Rightarrow> 'm ml \<Rightarrow> readings \<Rightarrow> log_row \<Rightarrow> (('r, 'm, 'd, 'z) worker_scheme, assessment) eff" where
  "assess cfg lib rd l w =
     (case evaluate (rd_rule rd) (log_lvl l) (log_message l) (log_ip l) (tracker w) of
        (rule, tr) \<Rightarrow>
      case stat_score cfg (rd_stat rd) (log_lvl l) (log_ip l) (profiling w) of
        (statistical, ps) \<Rightarrow>
      case engine_score lib (extract_features (log_lvl l) (log_message l) (log_ip l)) (engine w) of
        Inl e \<Rightarrow> (Inl e, w\<lparr>tracker := tr, profiling := ps\<rparr>)
      | Inr isolation \<Rightarrow>
          (Inr (combine cfg l rule statistical isolation), w\<lparr>tracker := tr, profiling := ps\<rparr>))"

text \<open>\<open>f"{x:.3f}"\<close> of a number that is not negative.\<close>

definition format_3f :: "rat \<Rightarrow> string" where
  "format_3f x = (let n = nat (round_even (x * 1000)); f = n mod 1000 in
     str_of_nat (n div 1000) @ ''.'' @ str_of_nat (f div 100) @ str_of_nat (f div 10 mod 10)
       @ str_of_nat (f mod 10))"

definition reason_of :: "assessment \<Rightarrow> string" where
  "reason_of a = (case as_rule a of
       Some rule \<Rightarrow> reason rule
     | None \<Rightarrow> if final_severity (as_result a) \<noteq> ''NONE''
         then ''Anomaly detected: '' @ anomaly_type (as_result a) @ '' (risk=''
           @ format_3f (risk_score (as_result a)) @ '')''
         else ''No anomaly'')"

definition new_alert :: "readings \<Rightarrow> log_row \<Rightarrow> assessment \<Rightarrow> alert_row" where
  "new_alert rd l a = \<lparr>alert_key = rd_alert_key rd, alert_log = log_key l,
     alert_severity = final_severity (as_result a), alert_reason = reason_of a,
     alert_risk = risk_score (as_result a), alert_breakdown = breakdown (as_result a),
     alert_type = anomaly_type (as_result a), alert_created = rd_created rd\<rparr>"

definition alert_event :: "alert_row \<Rightarrow> json" where
  "alert_event a = JObj [(''type'', JStr ''alert''), (''payload'', JObj
     [(''id'', JStr (uuid_str (alert_key a))), (''log_id'', JStr (uuid_str (alert_log a))),
      (''severity'', JStr (alert_severity a)), (''reason'', JStr (alert_reason a)),
      (''risk_score'', JFloat (alert_risk a)),
      (''score_breakdown'', JObj (map (\<lambda>(k, x). (k, JFloat x)) (alert_breakdown a))),
      (''anomaly_type'', JStr (alert_type a)), (''created_at'', JStr (json_datetime (alert_created a)))])]"

text \<open>
  Step 7: the alert is committed, counted and announced. The result tells whether the commit hit
  the unique index, in which case the session is rolled back.
\<close>

definition commit_alert ::
  "'d sql_conn \<Rightarrow> alert_row \<Rightarrow> (('r, 'm, 'd, 'z) worker_scheme, bool) eff" where
  "commit_alert D al =
     tryE (bindE (sqlE D (Commit [InsertAlert al])) (\<lambda>_. returnE False))
       (\<lambda>e. if e = IntegrityError then returnE True else raiseE e)"

definition raise_alert ::
  "'r redis_conn \<Rightarrow> 'd sql_conn \<Rightarrow> readings \<Rightarrow> log_row \<Rightarrow> assessment \<Rightarrow>
     (('r, 'm, 'd, 'z) worker_scheme, bool) eff" where
  "raise_alert R D rd l a =
     (if final_severity (as_result a) = ''NONE'' then returnE False
      else bindE (commit_alert D (new_alert rd l a)) (\<lambda>duplicate.
        if duplicate then returnE True
        else thenE (increment_async R ''alerts_created'' 1)
          (thenE (spawn (PublishTask (alert_event (new_alert rd l a)))) (returnE False))))"

text \<open>Step 8: only logs below the lowest threshold that no rule flagged are learnt from.\<close>

definition learn_baseline ::
  "settings \<Rightarrow> log_row \<Rightarrow> assessment \<Rightarrow> (('r, 'm, 'd, 'z) worker_scheme, unit) eff" where
  "learn_baseline cfg l a =
     (if as_rule a = None \<and> risk_score (as_result a) < ANOMALY_THRESHOLD_LOW cfg
      then zoomE baseline_store (\<lambda>b w. w\<lparr>baseline_store := b\<rparr>) (baseline_add (as_features a) (log_ip l))
      else returnE ())"

text \<open>Step 9.\<close>

definition trigger_retrain ::
  "settings \<Rightarrow> readings \<Rightarrow> (('r, 'm, 'd, 'z) worker_scheme, unit) eff" where
  "trigger_retrain cfg rd =
     bindE getE (\<lambda>w. if should_retrain cfg (rd_retrain rd) (baseline_size (baseline_store w)) (engine w)
       then spawn (RetrainTask Started) else returnE ())"

section \<open>Processing one message\<close>

definition process_log ::
  "'r redis_conn \<Rightarrow> 'd sql_conn \<Rightarrow> settings \<Rightarrow> 'm ml \<Rightarrow> readings \<Rightarrow> queue_message \<Rightarrow> log_row \<Rightarrow>
     (('r, 'm, 'd, 'z) worker_scheme, unit) eff" where
  "process_log R D cfg lib rd m l =
     bindE (assess cfg lib rd l) (\<lambda>a.
     bindE (raise_alert R D rd l a) (\<lambda>duplicate.
       if duplicate then acknowledge R m
       else thenE (learn_baseline cfg l a)
         (thenE (trigger_retrain cfg rd) (acknowledge R m))))"

definition process_message ::
  "'r redis_conn \<Rightarrow> 'd sql_conn \<Rightarrow> settings \<Rightarrow> 'm ml \<Rightarrow> readings \<Rightarrow> queue_message \<Rightarrow>
     (('r, 'm, 'd, 'z) worker_scheme, unit) eff" where
  "process_message R D cfg lib rd m =
     bindE (liftE (message_log_id m)) (\<lambda>log_id.
       if \<not> json_truthy log_id then thenE (retry_or_dlq R (rd_retry rd) m) (returnE ())
       else bindE (liftE (retry_delay (rd_delay rd) m)) (\<lambda>_.
         bindE (liftE (parse_log_id log_id)) (\<lambda>u.
         bindE (get_log D u) (\<lambda>found. case found of
           None \<Rightarrow> thenE (retry_or_dlq R (rd_retry rd) m) (returnE ())
         | Some l \<Rightarrow>
             bindE (alert_exists D u) (\<lambda>existing.
               if existing then acknowledge R m
               else process_log R D cfg lib rd m l)))))"

text \<open>The body of the loop for a message: what it raises sends the message to retry or dead letters.\<close>

definition handle_message ::
  "'r redis_conn \<Rightarrow> 'd sql_conn \<Rightarrow> settings \<Rightarrow> 'm ml \<Rightarrow> readings \<Rightarrow> queue_message \<Rightarrow>
     (('r, 'm, 'd, 'z) worker_scheme, unit) eff" where
  "handle_message R D cfg lib rd m =
     tryE (process_message R D cfg lib rd m)
       (\<lambda>_. tryE (thenE (retry_or_dlq R (rd_retry2 rd) m) (returnE ())) (\<lambda>_. returnE ()))"

definition worker_round ::
  "'r redis_conn \<Rightarrow> 'd sql_conn \<Rightarrow> settings \<Rightarrow> 'm ml \<Rightarrow> readings \<Rightarrow>
     (('r, 'm, 'd, 'z) worker_scheme, unit) eff" where
  "worker_round R D cfg lib rd =
     tryE
       (bindE (dequeue R (rd_dequeued rd)) (\<lambda>message. case message of
          None \<Rightarrow> returnE ()
        | Some m \<Rightarrow> handle_message R D cfg lib rd m))
       (\<lambda>_. returnE ())"

text \<open>The loop, for as many rounds as there are readings before the shutdown.\<close>

fun worker_loop ::
  "'r redis_conn \<Rightarrow> 'd sql_conn \<Rightarrow> settings \<Rightarrow> 'm ml \<Rightarrow> readings list \<Rightarrow>
     (('r, 'm, 'd, 'z) worker_scheme, unit) eff" where
  "worker_loop R D cfg lib [] = returnE ()"
| "worker_loop R D cfg lib (rd # rds) =
     thenE (worker_round R D cfg lib rd) (worker_loop R D cfg lib rds)"

section \<open>Start-up\<close>

text \<open>The loop of the sweep: the identifiers of the logs it marks, in order.\<close>

fun sweep_loop ::
  "'r redis_conn \<Rightarrow> settings \<Rightarrow> (log_row \<Rightarrow> rat) \<Rightarrow> log_row list \<Rightarrow>
     (('r, 'm, 'd, 'z) worker_scheme, string list) eff" where
  "sweep_loop R cfg nows [] = returnE []"
| "sweep_loop R cfg nows (l # ls) =
     bindE (tryE (thenE (enqueue R cfg (nows l) (log_payload l)) (returnE True)) (\<lambda>_. returnE False))
       (\<lambda>sent. bindE (sweep_loop R cfg nows ls)
         (\<lambda>us. returnE (if sent then log_key l # us else us)))"

definition sweep_unenqueued_logs ::
  "'r redis_conn \<Rightarrow> 'd sql_conn \<Rightarrow> settings \<Rightarrow> (log_row \<Rightarrow> rat) \<Rightarrow>
     (('r, 'm, 'd, 'z) worker_scheme, nat) eff" where
  "sweep_unenqueued_logs R D cfg nows =
     bindE (sqlE D SelectUnenqueued) (\<lambda>r. case r of
         LogRows ls \<Rightarrow>
           bindE (sweep_loop R cfg nows ls) (\<lambda>us.
             if us = [] then returnE 0
             else bindE (sqlE D (Commit (map SetEnqueued us))) (\<lambda>_. returnE (length us)))
       | _ \<Rightarrow> raiseE ProtocolError)"

text \<open>
  \<open>run\<close>: the replica check, restoration, recovery and sweep, then the loop. \<open>replicas\<close> is the value
  of \<open>WORKER_REPLICAS\<close>, \<open>None\<close> when it is no integer.
\<close>

definition worker_start ::
  "'r redis_conn \<Rightarrow> 'd sql_conn \<Rightarrow> settings \<Rightarrow> 'm ml \<Rightarrow> int option \<Rightarrow> rat \<Rightarrow> string \<Rightarrow> rat \<Rightarrow>
     (log_row \<Rightarrow> rat) \<Rightarrow> (('r, 'm, 'd, 'z) worker_scheme, unit) eff" where
  "worker_start R D cfg lib replicas clock utc_now now nows =
     (case replicas of
        None \<Rightarrow> raiseE ValueError
      | Some n \<Rightarrow> if n \<noteq> 1 then raiseE RuntimeError
          else thenE (restore_from_redis R lib clock utc_now)
            (thenE (recover_processing_queue R now)
              (thenE (sweep_unenqueued_logs R D cfg nows) (returnE ()))))"

definition worker_run ::
  "'r redis_conn \<Rightarrow> 'd sql_conn \<Rightarrow> settings \<Rightarrow> 'm ml \<Rightarrow> int option \<Rightarrow> rat \<Rightarrow> string \<Rightarrow> rat \<Rightarrow>
     (log_row \<Rightarrow> rat) \<Rightarrow> readings list \<Rightarrow> (('r, 'm, 'd, 'z) worker_scheme, unit) eff" where
  "worker_run R D cfg lib replicas clock utc_now now nows rds =
     thenE (worker_start R D cfg lib replicas clock utc_now now nows) (worker_loop R D cfg lib rds)"

text \<open>One beat of the heartbeat loop, whatever the connection does.\<close>

definition heartbeat :: "'r redis_conn \<Rightarrow> rat \<Rightarrow> (('r, 'z) env_scheme, unit) eff" where
  "heartbeat R now = tryE (set_worker_heartbeat R now) (\<lambda>_. returnE ())"

end
