(* ===== verification/QueueDelivery.thy ===== *)
theory QueueDelivery
  imports QueueService
begin

text \<open>
  What the queue service promises: no operation but \<open>acknowledge\<close> takes a payload out of the
  three lists while Redis answers, \<open>dequeue\<close> never does whatever fails, a retried message has a
  bounded retry count and a delay, and the recovery moves exactly the stale entries. The failures
  that do lose a message are shown too.
\<close>

section \<open>Conservation of payloads\<close>

lemma payload_retag:
  "payload_of (json_dumps (JObj (public (tagged d now)))) = payload_of (Text (JObj d))"
  by (simp add: dict_get_public tagged_def dict_simps payload_of_def)

lemma tag_entry_garbage:
  assumes "\<nexists>d. r0 = Text (JObj d)"
  shows "\<exists>e. tag_entry R now r0 w = (Inl e, w)"
  using assms by (cases r0) (auto simp: tag_entry_def raiseE_def split: json.splits)

lemma dequeue_split:
  assumes "dequeue R now w = (r, w')"
  obtains (raised) e where "redisE (redis_blmove R MAIN_QUEUE PROCESSING_QUEUE) w = (Inl e, w')" "r = Inl e"
  | (empty) "redisE (redis_blmove R MAIN_QUEUE PROCESSING_QUEUE) w = (Inr None, w')" "r = Inr None"
  | (garbage) r0 e where "redisE (redis_blmove R MAIN_QUEUE PROCESSING_QUEUE) w = (Inr (Some r0), w')"
      "r = Inl e" "\<nexists>d. r0 = Text (JObj d)"
  | (message) d w1 updated r2 where
      "redisE (redis_blmove R MAIN_QUEUE PROCESSING_QUEUE) w = (Inr (Some (Text (JObj d))), w1)"
      "updated = json_dumps (JObj (public (tagged d now)))"
      "redisE (R [LREM1 PROCESSING_QUEUE (Text (JObj d)), LPUSH PROCESSING_QUEUE updated]) w1 = (r2, w')"
      "r = (case r2 of Inl e \<Rightarrow> Inl e
        | Inr _ \<Rightarrow> Inr (Some \<lparr>msg_fields = tagged d now, msg_raw = Some updated\<rparr>))"
proof -
  obtain r1 w1 where 1: "redisE (redis_blmove R MAIN_QUEUE PROCESSING_QUEUE) w = (r1, w1)"
    by fastforce
  consider e where "r1 = Inl e" | "r1 = Inr None" | d where "r1 = Inr (Some (Text (JObj d)))"
    | r0 where "r1 = Inr (Some r0)" "\<nexists>d. r0 = Text (JObj d)"
    by (metis option.exhaust sum.exhaust)
  then show thesis
  proof cases
    case 1
    with \<open>redisE _ w = (r1, w1)\<close> assms show ?thesis
      by (intro raised) (auto simp: dequeue_def bindE_def)
  next
    case 2
    with \<open>redisE _ w = (r1, w1)\<close> assms show ?thesis
      by (intro empty) (auto simp: dequeue_def bindE_def returnE_def)
  next
    case (3 d)
    let ?u = "json_dumps (JObj (public (tagged d now)))"
    obtain r2 w2 where 2: "redisE (R [LREM1 PROCESSING_QUEUE (Text (JObj d)),
        LPUSH PROCESSING_QUEUE ?u]) w1 = (r2, w2)" by fastforce
    with 3 \<open>redisE _ w = (r1, w1)\<close> assms show ?thesis
      by (intro message [of d w1 ?u r2])
        (auto simp: dequeue_def tag_entry_def bindE_def returnE_def Let_def split: sum.splits)
  next
    case (4 r0)
    obtain e where e: "tag_entry R now r0 w1 = (Inl e, w1)"
      using tag_entry_garbage [OF 4(2)] by blast
    with 4 \<open>redisE _ w = (r1, w1)\<close> assms show ?thesis
      by (intro garbage [of r0 e]) (auto simp: dequeue_def bindE_def)
  qed
qed

text \<open>The entry moved to the processing list is its first entry, so the tagging replaces it.\<close>

lemma dequeue_retags:
  assumes "redis_ok R view"
    and "redisE (redis_blmove R MAIN_QUEUE PROCESSING_QUEUE) w = (Inr (Some r0), w1)"
    and "redisE (R [LREM1 PROCESSING_QUEUE r0, LPUSH PROCESSING_QUEUE u]) w1 = (r2, w')"
  defines "q \<equiv> rlists (db view w) MAIN_QUEUE" and "p \<equiv> rlists (db view w) PROCESSING_QUEUE"
  shows "q \<noteq> [] \<and> r0 = last q
    \<and> rlists (db view w1) = (rlists (db view w))(MAIN_QUEUE := butlast q, PROCESSING_QUEUE := r0 # p)
    \<and> db view w1 = moved MAIN_QUEUE PROCESSING_QUEUE (db view w)
    \<and> (db view w' = set_list PROCESSING_QUEUE (u # p) (db view w1)
       \<or> (\<exists>e. r2 = Inl e) \<and> db view w' = db view w1)"
proof -
  from redisE_blmove_cases [OF assms(1,2)]
  have q: "q \<noteq> []" and r0: "r0 = last q" and m: "db view w1 = moved MAIN_QUEUE PROCESSING_QUEUE (db view w)"
    by (auto simp: q_def)
  then have lists: "rlists (db view w1)
      = (rlists (db view w))(MAIN_QUEUE := butlast q, PROCESSING_QUEUE := r0 # p)"
    by (simp add: rlists_moved q_def p_def)
  have ap: "snd (apply_cmds [LREM1 PROCESSING_QUEUE r0, LPUSH PROCESSING_QUEUE u] (db view w1))
      = set_list PROCESSING_QUEUE (u # p) (db view w1)"
    by (rule apply_retag) (simp add: lists)
  from txn_cases [OF assms(1,3)]
  have "db view w' = set_list PROCESSING_QUEUE (u # p) (db view w1)
       \<or> (\<exists>e. r2 = Inl e) \<and> db view w' = db view w1"
    unfolding ap [symmetric] by (metis snd_conv)
  with q r0 m lists show ?thesis by blast
qed

lemma dequeue_conserves:
  assumes "redis_ok R view" and "dequeue R now w = (r, w')"
  shows "in_flight (db view w') = in_flight (db view w)"
  using assms(2)
proof (cases rule: dequeue_split)
  case (raised e)
  with redisE_blmove_cases [OF assms(1) raised(1)] in_flight_moved show ?thesis by auto
next
  case empty
  with redisE_blmove_cases [OF assms(1) empty(1)] show ?thesis by auto
next
  case (garbage r0 e)
  with redisE_blmove_cases [OF assms(1) garbage(1)] in_flight_moved show ?thesis by auto
next
  case (message d w1 updated r2)
  note rt = dequeue_retags [OF assms(1) message(1,3)]
  then have p: "rlists (db view w1) PROCESSING_QUEUE
      = Text (JObj d) # rlists (db view w) PROCESSING_QUEUE" by (metis fun_upd_same)
  have "payload_of updated = payload_of (Text (JObj d))"
    unfolding message(2) by (rule payload_retag)
  then have "in_flight (set_list PROCESSING_QUEUE (updated # rlists (db view w) PROCESSING_QUEUE)
      (db view w1)) = in_flight (db view w1)"
    using p by (simp add: in_flight_def)
  with rt in_flight_moved show ?thesis by auto
qed

text \<open>
  C8. A dequeue takes no payload out of the three lists and adds none, whether it returns or
  raises and wherever the connection fails: the move and the tagging are each one transaction.
\<close>

theorem dequeue_conserves_payloads:
  assumes "redis_ok R view" and "dequeue R now w = (r, w')"
  shows "in_flight (db view w') = in_flight (db view w)"
  using dequeue_conserves [OF assms] .

theorem dequeue_conserves_payloads_witness:
  "in_flight (snd (conn (snd (dequeue sim_redis 7
      \<lparr>conn = ([Works, ReplyLost],
         set_list MAIN_QUEUE [new_message (JStr ''b'') 2, new_message (JStr ''a'') 1] empty_db),
       counters = initial_counters\<rparr>)))) = {#Some (JStr ''a''), Some (JStr ''b'')#}"
proof -
  let ?w = "\<lparr>conn = ([Works, ReplyLost],
         set_list MAIN_QUEUE [new_message (JStr ''b'') 2, new_message (JStr ''a'') 1] empty_db),
       counters = initial_counters\<rparr>"
  have "in_flight (db snd (snd (dequeue sim_redis 7 ?w))) = in_flight (db snd ?w)"
    by (rule dequeue_conserves_payloads [OF redis_ok_sim prod.collapse [symmetric]])
  then show ?thesis by (simp add: in_flight_def empty_db_def)
qed

section \<open>Backpressure\<close>

lemma enqueue_answered:
  assumes "redis_ok R view" and "redis_up R" and "enqueue R cfg now p w = (r, w')"
  shows "(r = Inl QueueFull \<longleftrightarrow> MAX_QUEUE_DEPTH cfg \<le> int (length (rlists (db view w) MAIN_QUEUE)))
    \<and> (r = Inl QueueFull \<longrightarrow> db view w' = db view w)
    \<and> (r \<noteq> Inl QueueFull \<longrightarrow> r = Inr () \<and> rlists (db view w') =
        (rlists (db view w))(MAIN_QUEUE := new_message p now # rlists (db view w) MAIN_QUEUE))
    \<and> int (length (rlists (db view w') MAIN_QUEUE))
        \<le> max (MAX_QUEUE_DEPTH cfg) (int (length (rlists (db view w) MAIN_QUEUE)))"
proof -
  let ?q = "rlists (db view w) MAIN_QUEUE"
  obtain c where 1: "redis_llen R MAIN_QUEUE (conn w) = (Inr (int (length ?q)), c)" and v: "view c = db view w"
    using redis_llen_up [OF assms(1,2)] by blast
  obtain c' where 2: "redis_lpush R MAIN_QUEUE (new_message p now) c = (Inr (), c')"
    and v': "view c' = set_list MAIN_QUEUE (new_message p now # rlists (view c) MAIN_QUEUE) (view c)"
    using redis_lpush_up [OF assms(1,2)] by blast
  from assms(3) show ?thesis
    by (auto simp: enqueue_def bindE_def redisE_apply raiseE_def 1 2 v v' split: if_splits)
qed

text \<open>
  Backpressure: with Redis answering, \<open>enqueue\<close> raises \<open>QueueFull\<close> exactly when the main
  queue has reached \<open>MAX_QUEUE_DEPTH\<close>, and then leaves every list alone; otherwise it returns and
  the new message is the left end of the main queue. The main queue it leaves is never longer
  than the limit or than it was.
\<close>

theorem enqueue_backpressure:
  assumes "redis_ok R view" and "redis_up R" and "enqueue R cfg now p w = (r, w')"
  shows "(r = Inl QueueFull \<longleftrightarrow> MAX_QUEUE_DEPTH cfg \<le> int (length (rlists (db view w) MAIN_QUEUE)))
    \<and> (r = Inl QueueFull \<longrightarrow> db view w' = db view w)
    \<and> (r \<noteq> Inl QueueFull \<longrightarrow> r = Inr () \<and> rlists (db view w') =
        (rlists (db view w))(MAIN_QUEUE := new_message p now # rlists (db view w) MAIN_QUEUE))
    \<and> int (length (rlists (db view w') MAIN_QUEUE))
        \<le> max (MAX_QUEUE_DEPTH cfg) (int (length (rlists (db view w) MAIN_QUEUE)))"
  using assms by (rule enqueue_answered)

theorem enqueue_backpressure_witness:
  "let cfg = (default_settings [])\<lparr>MAX_QUEUE_DEPTH := 1\<rparr>;
       w0 = \<lparr>conn = empty_db, counters = initial_counters\<rparr>;
       w1 = snd (enqueue mem_redis cfg 1 JNull w0)
   in length (rlists (conn w1) MAIN_QUEUE) = 1 \<and> fst (enqueue mem_redis cfg 2 JNull w1) = Inl QueueFull"
proof -
  let ?cfg = "(default_settings [])\<lparr>MAX_QUEUE_DEPTH := 1\<rparr>"
  let ?w0 = "\<lparr>conn = empty_db, counters = initial_counters\<rparr>"
  let ?w1 = "snd (enqueue mem_redis ?cfg 1 JNull ?w0)"
  note h = enqueue_backpressure [OF redis_ok_mem redis_up_mem prod.collapse [symmetric]]
  have "fst (enqueue mem_redis ?cfg 1 JNull ?w0) \<noteq> Inl QueueFull"
    using h [of ?cfg 1 JNull ?w0] by (simp add: empty_db_def)
  then have 1: "rlists (conn ?w1) MAIN_QUEUE = [new_message JNull 1]"
    using h [of ?cfg 1 JNull ?w0] by (simp add: empty_db_def)
  then have "fst (enqueue mem_redis ?cfg 2 JNull ?w1) = Inl QueueFull"
    using h [of ?cfg 2 JNull ?w1] by simp
  with 1 show ?thesis by (simp add: Let_def)
qed

section \<open>Acknowledgement\<close>

lemma dequeue_returned:
  assumes "redis_ok R view" and "dequeue R now w = (Inr (Some m), w')"
  defines "q \<equiv> rlists (db view w) MAIN_QUEUE" and "p \<equiv> rlists (db view w) PROCESSING_QUEUE"
  obtains d u where "q \<noteq> []" and "last q = Text (JObj d)"
    and "u = json_dumps (JObj (public (tagged d now)))"
    and "m = \<lparr>msg_fields = tagged d now, msg_raw = Some u\<rparr>"
    and "rlists (db view w') = (rlists (db view w))(MAIN_QUEUE := butlast q, PROCESSING_QUEUE := u # p)"
  using assms(2)
proof (cases rule: dequeue_split)
  case (message d w1 updated r2)
  from message(4) obtain rs where r2: "r2 = Inr rs"
    and m: "m = \<lparr>msg_fields = tagged d now, msg_raw = Some updated\<rparr>"
    by (cases r2) auto
  note rt = dequeue_retags [OF assms(1) message(1,3)]
  have q: "q \<noteq> []" "last q = Text (JObj d)" using rt by (auto simp: q_def)
  have l1: "rlists (db view w1) = (rlists (db view w))(MAIN_QUEUE := butlast q,
      PROCESSING_QUEUE := Text (JObj d) # p)"
    using rt unfolding q_def p_def by blast
  have "db view w' = set_list PROCESSING_QUEUE (updated # p) (db view w1)"
    using rt r2 unfolding p_def by blast
  then have "rlists (db view w') = (rlists (db view w))(MAIN_QUEUE := butlast q,
      PROCESSING_QUEUE := updated # p)"
    using l1 by (simp add: fun_upd_twist)
  with q message(2) m that show ?thesis by blast
qed simp_all

text \<open>
  Acknowledging the message a dequeue returned takes exactly that message out: the
  processing list is what it was before the dequeue, the main list has lost its oldest entry,
  the dead letters are untouched, and one payload, the message's, is no longer in flight.
\<close>

theorem acknowledge_after_dequeue:
  assumes "redis_ok R view"
    and "dequeue R now w = (Inr (Some m), w1)" and "acknowledge R m w1 = (Inr (), w2)"
  shows "rlists (db view w2) =
      (rlists (db view w))(MAIN_QUEUE := butlast (rlists (db view w) MAIN_QUEUE))
    \<and> in_flight (db view w) = add_mset (dict_get (msg_fields m) ''payload'') (in_flight (db view w2))"
proof -
  let ?q = "rlists (db view w) MAIN_QUEUE" and ?p = "rlists (db view w) PROCESSING_QUEUE"
  obtain d u where u: "u = json_dumps (JObj (public (tagged d now)))"
    and m: "m = \<lparr>msg_fields = tagged d now, msg_raw = Some u\<rparr>"
    and w1: "rlists (db view w1) = (rlists (db view w))(MAIN_QUEUE := butlast ?q, PROCESSING_QUEUE := u # ?p)"
    by (rule dequeue_returned [OF assms(1,2)])
  from assms(3) have "redisE (redis_lrem R PROCESSING_QUEUE u) w1 = (Inr (), w2)"
    by (simp add: acknowledge_def m)
  from redisE_lrem_cases [OF assms(1) this]
  have w2: "db view w2 = set_list PROCESSING_QUEUE (remove1 u (rlists (db view w1) PROCESSING_QUEUE)) (db view w1)"
    by simp
  then have l2: "rlists (db view w2) = (rlists (db view w))(MAIN_QUEUE := butlast ?q)"
    by (simp add: w1 fun_eq_iff)
  have "u \<in> set (rlists (db view w1) PROCESSING_QUEUE)" by (simp add: w1)
  from in_flight_remove [OF this] have "in_flight (db view w1) = add_mset (payload_of u) (in_flight (db view w2))"
    by (simp only: w2)
  moreover have "payload_of u = dict_get (msg_fields m) ''payload''"
    unfolding u m by (simp add: dict_get_public)
  ultimately show ?thesis
    using l2 dequeue_conserves [OF assms(1,2)] by simp
qed

theorem acknowledge_after_dequeue_witness:
  "\<exists>m w1 w2. dequeue mem_redis 7 \<lparr>conn = set_list MAIN_QUEUE [new_message JNull 1] empty_db,
        counters = initial_counters\<rparr> = (Inr (Some m), w1)
    \<and> acknowledge mem_redis m w1 = (Inr (), w2) \<and> in_flight (conn w2) = {#}"
proof -
  let ?w = "\<lparr>conn = set_list MAIN_QUEUE [new_message JNull 1] empty_db, counters = initial_counters\<rparr>"
  let ?d = "tagged [(''payload'', JNull), (''retry_count'', JInt 0), (''enqueued_at'', JFloat 1)] 7"
  let ?m = "\<lparr>msg_fields = ?d, msg_raw = Some (Text (JObj (public ?d)))\<rparr>"
  let ?w1 = "snd (dequeue mem_redis 7 ?w)"
  have "fst (dequeue mem_redis 7 ?w) = Inr (Some ?m)" by code_simp
  then have 1: "dequeue mem_redis 7 ?w = (Inr (Some ?m), ?w1)" by (simp add: prod_eq_iff)
  have "fst (acknowledge mem_redis ?m ?w1) = Inr ()" by code_simp
  then have 2: "acknowledge mem_redis ?m ?w1 = (Inr (), snd (acknowledge mem_redis ?m ?w1))"
    by (simp add: prod_eq_iff)
  from acknowledge_after_dequeue [OF redis_ok_mem 1 2]
  have "in_flight (conn (snd (acknowledge mem_redis ?m ?w1))) = {#}"
    by (simp add: in_flight_def empty_db_def)
  with 1 2 show ?thesis by blast
qed

section \<open>Retries and dead letters\<close>

text \<open>Where the retry puts the message, and what it puts there.\<close>

definition retry_target :: "int \<Rightarrow> string" where
  "retry_target n = (if MAX_RETRIES \<le> n then DLQ else MAIN_QUEUE)"

definition retry_entry :: "rat \<Rightarrow> queue_message \<Rightarrow> int \<Rightarrow> stored" where
  "retry_entry now m n = (if MAX_RETRIES \<le> n then dlq_entry now m n else requeue_entry now m n)"

definition retry_counter :: "int \<Rightarrow> string" where
  "retry_counter n = (if MAX_RETRIES \<le> n then ''dlq_count'' else ''retries'')"

text \<open>The lists after the removal, and after the push.\<close>

definition retry_removed :: "queue_message \<Rightarrow> redis_db \<Rightarrow> redis_db" where
  "retry_removed m d =
     set_list PROCESSING_QUEUE (remove1 (retry_raw m) (rlists d PROCESSING_QUEUE)) d"

definition retry_pushed :: "rat \<Rightarrow> queue_message \<Rightarrow> int \<Rightarrow> redis_db \<Rightarrow> redis_db" where
  "retry_pushed now m n d =
     set_list (retry_target n) (retry_entry now m n # rlists d (retry_target n)) d"

lemma retry_target_not_processing [simp]:
  "retry_target n \<noteq> PROCESSING_QUEUE" "PROCESSING_QUEUE \<noteq> retry_target n"
  by (simp_all add: retry_target_def)

lemma retry_or_dlq_alt:
  assumes "json_int (dict_get_or (public (msg_fields m)) ''retry_count'' (JInt 0)) = Some n0"
  shows "retry_or_dlq R now m =
    thenE (redisE (redis_lrem R PROCESSING_QUEUE (retry_raw m)))
      (thenE (redisE (redis_lpush R (retry_target (n0 + 1)) (retry_entry now m (n0 + 1))))
        (thenE (increment_async R (retry_counter (n0 + 1)) 1) (returnE (n0 + 1 < MAX_RETRIES))))"
  using assms
  by (auto simp: retry_or_dlq_def Let_def retry_target_def retry_entry_def retry_counter_def)

lemma retry_cases:
  assumes ok: "redis_ok R view"
    and int: "json_int (dict_get_or (public (msg_fields m)) ''retry_count'' (JInt 0)) = Some n0"
    and run: "retry_or_dlq R now m w = (r, w')"
  defines "n \<equiv> n0 + 1"
  shows "r = Inr (n < MAX_RETRIES)
       \<and> rlists (db view w') = rlists (retry_pushed now m n (retry_removed m (db view w)))
       \<and> counters w' = increment (retry_counter n) 1 (counters w)
     \<or> (\<exists>e. r = Inl e) \<and> counters w' = counters w
       \<and> db view w' \<in> {db view w, retry_removed m (db view w),
            retry_pushed now m n (retry_removed m (db view w))}"
proof -
  obtain r1 w1 where 1: "redisE (redis_lrem R PROCESSING_QUEUE (retry_raw m)) w = (r1, w1)"
    by fastforce
  have c1: "counters w1 = counters w" by (rule redisE_counters [OF 1])
  note k1 = redisE_lrem_cases [OF ok 1]
  show ?thesis
  proof (cases r1)
    case (Inl e)
    with 1 k1 c1 run show ?thesis
      by (auto simp: retry_or_dlq_alt [OF int] thenE_apply retry_removed_def)
  next
    case (Inr x)
    with k1 have d1: "db view w1 = retry_removed m (db view w)"
      by (auto simp: retry_removed_def)
    obtain r2 w2 where 2: "redisE (redis_lpush R (retry_target n) (retry_entry now m n)) w1 = (r2, w2)"
      by fastforce
    have c2: "counters w2 = counters w" using redisE_counters [OF 2] c1 by simp
    note k2 = redisE_lpush_cases [OF ok 2]
    show ?thesis
    proof (cases r2)
      case (Inl e)
      with 1 2 Inr run have "r = Inl e \<and> w' = w2"
        by (auto simp: retry_or_dlq_alt [OF int] thenE_apply n_def)
      with k2 Inl c2 show ?thesis by (auto simp: retry_pushed_def d1)
    next
      case (Inr y)
      with k2 have d2: "db view w2 = retry_pushed now m n (retry_removed m (db view w))"
        by (auto simp: retry_pushed_def d1)
      obtain c where inc: "increment_async R (retry_counter n) 1 w2 =
          (Inr (), w2\<lparr>counters := increment (retry_counter n) 1 (counters w2), conn := c\<rparr>)"
        and lc: "rlists (view c) = rlists (view (conn w2))"
        using increment_async_returns [OF ok] by blast
      from 1 2 \<open>r1 = Inr x\<close> Inr inc run have "r = Inr (n < MAX_RETRIES)"
        and "w' = w2\<lparr>counters := increment (retry_counter n) 1 (counters w2), conn := c\<rparr>"
        by (auto simp: retry_or_dlq_alt [OF int] thenE_apply returnE_def n_def)
      with lc d2 c2 show ?thesis by simp
    qed
  qed
qed

lemma retry_lists:
  "rlists (retry_pushed now m n (retry_removed m d)) = (rlists d)
     (PROCESSING_QUEUE := remove1 (retry_raw m) (rlists d PROCESSING_QUEUE),
      retry_target n := retry_entry now m n # rlists d (retry_target n))"
  by (simp add: retry_pushed_def retry_removed_def)

lemma dict_get_dlq_entry:
  assumes "dlq_entry now m n = Text (JObj d)"
  shows "dict_get d ''retry_count'' = Some (JInt n)"
    and "dict_get d ''payload'' = dict_get (msg_fields m) ''payload''"
    and "dict_get d ''moved_to_dlq_at'' = Some (JFloat now)"
  using assms by (auto simp: dlq_entry_def retried_def json_dumps_def dict_simps dict_get_public)

lemma dict_get_requeue_entry:
  assumes "requeue_entry now m n = Text (JObj d)"
  shows "dict_get d ''retry_count'' = Some (JInt n)"
    and "dict_get d ''payload'' = dict_get (msg_fields m) ''payload''"
    and "dict_get d ''process_after'' = Some (JFloat (fl (now + fl (2 powi n))))"
  using assms by (auto simp: requeue_entry_def retried_def json_dumps_def dict_simps dict_get_public)

lemma payload_of_retry_entry [simp]:
  "payload_of (retry_entry now m n) = dict_get (msg_fields m) ''payload''"
  by (simp add: retry_entry_def dlq_entry_def requeue_entry_def retried_def dict_simps dict_get_public)

lemma retry_moves:
  assumes "redis_ok R view"
    and "json_int (dict_get_or (public (msg_fields m)) ''retry_count'' (JInt 0)) = Some n0"
    and "retry_or_dlq R now m w = (Inr requeued, w')"
  shows "(requeued \<longleftrightarrow> n0 + 1 < MAX_RETRIES)
    \<and> (\<exists>d. rlists (db view w') = (rlists (db view w))
          (PROCESSING_QUEUE := remove1 (retry_raw m) (rlists (db view w) PROCESSING_QUEUE),
           (if requeued then MAIN_QUEUE else DLQ) :=
              Text (JObj d) # rlists (db view w) (if requeued then MAIN_QUEUE else DLQ))
        \<and> dict_get d ''payload'' = dict_get (msg_fields m) ''payload''
        \<and> dict_get d ''retry_count'' = Some (JInt (n0 + 1))
        \<and> (if requeued
            then dict_get d ''process_after'' = Some (JFloat (fl (now + fl (2 powi (n0 + 1)))))
            else dict_get d ''moved_to_dlq_at'' = Some (JFloat now)))
    \<and> counters w' = increment (if requeued then ''retries'' else ''dlq_count'') 1 (counters w)"
proof -
  let ?n = "n0 + 1"
  from retry_cases [OF assms]
  have b: "requeued \<longleftrightarrow> ?n < MAX_RETRIES"
    and l: "rlists (db view w') = rlists (retry_pushed now m ?n (retry_removed m (db view w)))"
    and c: "counters w' = increment (retry_counter ?n) 1 (counters w)" by auto
  obtain d where d: "retry_entry now m ?n = Text (JObj d)"
    by (cases "MAX_RETRIES \<le> ?n")
      (simp_all add: retry_entry_def dlq_entry_def requeue_entry_def json_dumps_def)
  have t: "retry_target ?n = (if requeued then MAIN_QUEUE else DLQ)"
    and k: "retry_counter ?n = (if requeued then ''retries'' else ''dlq_count'')"
    using b by (auto simp: retry_target_def retry_counter_def)
  have e: "dict_get d ''payload'' = dict_get (msg_fields m) ''payload''
      \<and> dict_get d ''retry_count'' = Some (JInt ?n)
      \<and> (if requeued then dict_get d ''process_after'' = Some (JFloat (fl (now + fl (2 powi ?n))))
         else dict_get d ''moved_to_dlq_at'' = Some (JFloat now))"
    using d b dict_get_dlq_entry [of now m ?n d] dict_get_requeue_entry [of now m ?n d]
    by (auto simp: retry_entry_def split: if_splits)
  show ?thesis
    using b c e l unfolding retry_lists d t k by blast
qed

lemma retry_moved_to_dlq:
  assumes "redis_ok R view"
    and "json_int (dict_get_or (public (msg_fields m)) ''retry_count'' (JInt 0)) = Some n0"
    and "retry_or_dlq R now m w = (Inr False, w')"
  shows "\<exists>d. rlists (db view w') DLQ = Text (JObj d) # rlists (db view w) DLQ
    \<and> dict_get d ''payload'' = dict_get (msg_fields m) ''payload''
    \<and> dict_get d ''retry_count'' = Some (JInt (n0 + 1)) \<and> dict_get d ''moved_to_dlq_at'' = Some (JFloat now)"
  using retry_moves [OF assms] by auto

text \<open>
  C24. When \<open>retry_or_dlq\<close> returns, the entry is gone from the processing list and the message
  is at the left end of one other list with its count raised by one: of the main queue, with the
  delay \<open>2 ^ count\<close> in \<open>process_after\<close>, while the new count is below \<open>MAX_RETRIES\<close> (the result
  is then \<open>True\<close>), of the dead letters, with the time of the move, when it is not. The payload is
  kept, and exactly one of the two counters goes up.
\<close>

theorem retry_or_dlq_moves_message:
  assumes "redis_ok R view"
    and "json_int (dict_get_or (public (msg_fields m)) ''retry_count'' (JInt 0)) = Some n0"
    and "retry_or_dlq R now m w = (Inr requeued, w')"
  shows "(requeued \<longleftrightarrow> n0 + 1 < MAX_RETRIES)
    \<and> (\<exists>d. rlists (db view w') = (rlists (db view w))
          (PROCESSING_QUEUE := remove1 (retry_raw m) (rlists (db view w) PROCESSING_QUEUE),
           (if requeued then MAIN_QUEUE else DLQ) :=
              Text (JObj d) # rlists (db view w) (if requeued then MAIN_QUEUE else DLQ))
        \<and> dict_get d ''payload'' = dict_get (msg_fields m) ''payload''
        \<and> dict_get d ''retry_count'' = Some (JInt (n0 + 1))
        \<and> (if requeued
            then dict_get d ''process_after'' = Some (JFloat (fl (now + fl (2 powi (n0 + 1)))))
            else dict_get d ''moved_to_dlq_at'' = Some (JFloat now)))
    \<and> counters w' = increment (if requeued then ''retries'' else ''dlq_count'') 1 (counters w)"
  by (rule retry_moves [OF assms])

theorem retry_or_dlq_moves_message_witness:
  "\<exists>d. fst (retry_or_dlq mem_redis 100
      \<lparr>msg_fields = [(''payload'', JNull), (''retry_count'', JInt 2)], msg_raw = None\<rparr>
      \<lparr>conn = empty_db, counters = initial_counters\<rparr>) = Inr False
    \<and> dict_get d ''retry_count'' = Some (JInt 3) \<and> dict_get d ''moved_to_dlq_at'' = Some (JFloat 100)"
proof -
  let ?m = "\<lparr>msg_fields = [(''payload'', JNull), (''retry_count'', JInt 2)], msg_raw = None\<rparr>"
  let ?w = "\<lparr>conn = empty_db, counters = initial_counters\<rparr>"
  have int: "json_int (dict_get_or (public (msg_fields ?m)) ''retry_count'' (JInt 0)) = Some 2"
    by code_simp
  have fst: "fst (retry_or_dlq mem_redis 100 ?m ?w) = Inr False"
    by code_simp
  then have run: "retry_or_dlq mem_redis 100 ?m ?w = (Inr False, snd (retry_or_dlq mem_redis 100 ?m ?w))"
    by (simp add: prod_eq_iff)
  obtain d where "dict_get d ''retry_count'' = Some (JInt 3) \<and> dict_get d ''moved_to_dlq_at'' = Some (JFloat 100)"
    using retry_or_dlq_moves_message [OF redis_ok_mem int run] by auto
  with fst show ?thesis by blast
qed

text \<open>
  A message in hand: its exact text is in the processing list, once, and carries its payload.
\<close>

definition in_hand :: "queue_message \<Rightarrow> redis_db \<Rightarrow> bool" where
  "in_hand m d \<longleftrightarrow> retry_raw m \<in> set (rlists d PROCESSING_QUEUE)
     \<and> retry_raw m \<notin> set (remove1 (retry_raw m) (rlists d PROCESSING_QUEUE))
     \<and> payload_of (retry_raw m) = dict_get (msg_fields m) ''payload''"

lemma in_flight_retry_removed:
  assumes "in_hand m d"
  shows "add_mset (dict_get (msg_fields m) ''payload'') (in_flight (retry_removed m d)) = in_flight d"
  using assms in_flight_remove [of "retry_raw m" d] by (simp add: in_hand_def retry_removed_def)

lemma in_flight_retry_pushed:
  "in_flight (retry_pushed now m n d) = add_mset (dict_get (msg_fields m) ''payload'') (in_flight d)"
  by (simp add: retry_pushed_def in_flight_push retry_target_def)

lemma in_flight_cong: "rlists d = rlists d' \<Longrightarrow> in_flight d = in_flight d'"
  by (simp add: in_flight_def)

lemma retry_removed_twice:
  assumes "in_hand m d"
  shows "rlists (retry_removed m (retry_removed m d)) = rlists (retry_removed m d)"
  using assms by (simp add: in_hand_def retry_removed_def remove1_idem)

lemma retry_removed_pushed:
  assumes "in_hand m d"
  shows "rlists (retry_removed m (retry_pushed now m n (retry_removed m d)))
    = rlists (retry_pushed now m n (retry_removed m d))"
  using assms by (auto simp: in_hand_def retry_removed_def retry_pushed_def remove1_idem fun_eq_iff)

text \<open>
  At-least-once across a failing retry: when the first \<open>retry_or_dlq\<close> of a message in hand
  raises, wherever the connection failed, and the worker's handler calls it again and that call
  returns, then no payload is lost; the message is in the lists once, or twice if the first push
  was executed with its reply lost.
\<close>

theorem retry_after_failed_retry_keeps_payload:
  assumes ok: "redis_ok R view" and hand: "in_hand m (db view w)"
    and int: "json_int (dict_get_or (public (msg_fields m)) ''retry_count'' (JInt 0)) = Some n0"
    and first: "retry_or_dlq R t1 m w = (Inl e, w1)"
    and second: "retry_or_dlq R t2 m w1 = (Inr b, w2)"
  shows "in_flight (db view w2) = in_flight (db view w)
    \<or> in_flight (db view w2) = add_mset (dict_get (msg_fields m) ''payload'') (in_flight (db view w))"
proof -
  let ?n = "n0 + 1" and ?d = "db view w"
  have l2: "rlists (db view w2) = rlists (retry_pushed t2 m ?n (retry_removed m (db view w1)))"
    using retry_cases [OF ok int second] by auto
  have fl2: "in_flight (db view w2)
      = add_mset (dict_get (msg_fields m) ''payload'') (in_flight (retry_removed m (db view w1)))"
    by (simp add: in_flight_cong [OF l2] in_flight_retry_pushed)
  from retry_cases [OF ok int first]
  consider "db view w1 = ?d" | "db view w1 = retry_removed m ?d"
    | "db view w1 = retry_pushed t1 m ?n (retry_removed m ?d)" by auto
  then show ?thesis
  proof cases
    case 1
    with fl2 in_flight_retry_removed [OF hand] show ?thesis by simp
  next
    case 2
    with fl2 in_flight_retry_removed [OF hand] in_flight_cong [OF retry_removed_twice [OF hand]]
    show ?thesis by simp
  next
    case 3
    with fl2 in_flight_retry_removed [OF hand] in_flight_cong [OF retry_removed_pushed [OF hand]]
    show ?thesis by (simp add: in_flight_retry_pushed)
  qed
qed

theorem retry_after_failed_retry_keeps_payload_witness:
  "\<exists>n. in_flight (snd (conn (snd (retry_or_dlq sim_redis 101
       \<lparr>msg_fields = [(''payload'', JNull), (''retry_count'', JInt 0)],
         msg_raw = Some (Text (JObj [(''payload'', JNull), (''retry_count'', JInt 0)]))\<rparr>
       (snd (retry_or_dlq sim_redis 100
         \<lparr>msg_fields = [(''payload'', JNull), (''retry_count'', JInt 0)],
           msg_raw = Some (Text (JObj [(''payload'', JNull), (''retry_count'', JInt 0)]))\<rparr>
         \<lparr>conn = ([Works, ReplyLost], set_list PROCESSING_QUEUE
              [Text (JObj [(''payload'', JNull), (''retry_count'', JInt 0)])] empty_db),
           counters = initial_counters\<rparr>)))))) = replicate_mset (Suc n) (Some JNull)"
proof -
  let ?d = "[(''payload'', JNull), (''retry_count'', JInt 0)]"
  let ?m = "\<lparr>msg_fields = ?d, msg_raw = Some (Text (JObj ?d))\<rparr>"
  let ?w = "\<lparr>conn = ([Works, ReplyLost], set_list PROCESSING_QUEUE [Text (JObj ?d)] empty_db),
     counters = initial_counters\<rparr>"
  let ?w1 = "snd (retry_or_dlq sim_redis 100 ?m ?w)"
  have hand: "in_hand ?m (db snd ?w)" and i0: "in_flight (db snd ?w) = {#Some JNull#}"
    by (simp_all add: in_hand_def retry_raw_def payload_of_def dict_simps in_flight_def empty_db_def)
  have int: "json_int (dict_get_or (public (msg_fields ?m)) ''retry_count'' (JInt 0)) = Some 0"
    by code_simp
  have "fst (retry_or_dlq sim_redis 100 ?m ?w) = Inl RedisError" by code_simp
  then have 1: "retry_or_dlq sim_redis 100 ?m ?w = (Inl RedisError, ?w1)" by (simp add: prod_eq_iff)
  have "fst (retry_or_dlq sim_redis 101 ?m ?w1) = Inr True" by code_simp
  then have 2: "retry_or_dlq sim_redis 101 ?m ?w1 = (Inr True, snd (retry_or_dlq sim_redis 101 ?m ?w1))"
    by (simp add: prod_eq_iff)
  have p: "dict_get (msg_fields ?m) ''payload'' = Some JNull" by code_simp
  from retry_after_failed_retry_keeps_payload [OF redis_ok_sim hand int 1 2]
  consider "in_flight (db snd (snd (retry_or_dlq sim_redis 101 ?m ?w1))) = {#Some JNull#}"
    | "in_flight (db snd (snd (retry_or_dlq sim_redis 101 ?m ?w1))) = {#Some JNull, Some JNull#}"
    unfolding p i0 by blast
  then show ?thesis
    by cases (rule exI [of _ 0], simp, rule exI [of _ 1], simp)
qed

text \<open>
  The removal and the push are two calls: when the connection fails between them and nobody
  retries (the process dies), the message is in no list any more.
\<close>

lemma retry_failure_loses_message:
  "let m = \<lparr>msg_fields = [(''payload'', JNull), (''retry_count'', JInt 0)],
         msg_raw = Some (Text (JObj [(''payload'', JNull), (''retry_count'', JInt 0)]))\<rparr>;
       w = \<lparr>conn = ([Works, Unreachable],
              set_list PROCESSING_QUEUE [the (msg_raw m)] empty_db), counters = initial_counters\<rparr>
   in in_hand m (snd (conn w)) \<and> in_flight (snd (conn w)) = {#Some JNull#}
      \<and> fst (retry_or_dlq sim_redis 100 m w) = Inl RedisError
      \<and> in_flight (snd (conn (snd (retry_or_dlq sim_redis 100 m w)))) = {#}"
  by (simp add: Let_def in_hand_def retry_raw_def empty_db_def in_flight_def payload_of_def dict_simps
      dict_get_or_def dict_get_public retry_or_dlq_def effect_simps redisE_apply redis_lrem_def
      redis_call_def redis_lpush_def decode_reply_def MAX_RETRIES_def)

section \<open>Recovery\<close>

definition stale :: "rat \<Rightarrow> stored \<Rightarrow> bool" where
  "stale now r \<longleftrightarrow> staleness now r = Stale"

definition readable :: "rat \<Rightarrow> stored \<Rightarrow> bool" where
  "readable now r \<longleftrightarrow> staleness now r \<in> {Stale, Active}"

lemma requeue_raw_up:
  assumes ok: "redis_ok R view" and up: "redis_up R"
  shows "\<exists>w'. requeue_raw R r w = (Inr (), w') \<and> counters w' = counters w
    \<and> rlists (db view w') = (rlists (db view w))
        (PROCESSING_QUEUE := remove1 r (rlists (db view w) PROCESSING_QUEUE),
         MAIN_QUEUE := r # rlists (db view w) MAIN_QUEUE)"
proof -
  obtain c where 1: "redis_lrem R PROCESSING_QUEUE r (conn w) = (Inr (), c)"
    and d1: "view c = set_list PROCESSING_QUEUE (remove1 r (rlists (db view w) PROCESSING_QUEUE)) (db view w)"
    using redis_lrem_up [OF ok up] by blast
  obtain c' where 2: "redis_lpush R MAIN_QUEUE r c = (Inr (), c')"
    and d2: "view c' = set_list MAIN_QUEUE (r # rlists (view c) MAIN_QUEUE) (view c)"
    using redis_lpush_up [OF ok up] by blast
  show ?thesis
    by (rule exI [of _ "w\<lparr>conn := c'\<rparr>"])
      (simp add: requeue_raw_def thenE_apply redisE_apply 1 2 d2 d1)
qed

lemma remove1_after_others: "r \<notin> set as \<Longrightarrow> remove1 r (as @ r # rs) = as @ rs"
  by (induction as) auto

lemma recover_loop_up:
  assumes ok: "redis_ok R view" and up: "redis_up R"
    and "\<forall>a \<in> set as. staleness now a = Active" and "list_all (readable now) rs"
    and "rlists (db view w) PROCESSING_QUEUE = as @ rs"
  shows "\<exists>w'. recover_loop R now rs n w = (Inr (n + int (length (filter (stale now) rs))), w')
    \<and> counters w' = counters w
    \<and> rlists (db view w') = (rlists (db view w))
        (PROCESSING_QUEUE := as @ filter (\<lambda>r. \<not> stale now r) rs,
         MAIN_QUEUE := rev (filter (stale now) rs) @ rlists (db view w) MAIN_QUEUE)"
  using assms(3-5)
proof (induction rs arbitrary: as n w)
  case Nil
  then show ?case by (auto simp: returnE_def fun_eq_iff)
next
  case (Cons r rs)
  show ?case
  proof (cases "stale now r")
    case True
    then have "r \<notin> set as" using Cons.prems(1) by (auto simp: stale_def)
    obtain w1 where 1: "requeue_raw R r w = (Inr (), w1)" and c1: "counters w1 = counters w"
      and l1: "rlists (db view w1) = (rlists (db view w))
        (PROCESSING_QUEUE := as @ rs, MAIN_QUEUE := r # rlists (db view w) MAIN_QUEUE)"
      using requeue_raw_up [OF ok up, of r w] Cons.prems(3) remove1_after_others [OF \<open>r \<notin> set as\<close>]
      by auto
    have "rlists (db view w1) PROCESSING_QUEUE = as @ rs" by (simp add: l1)
    from Cons.IH [OF Cons.prems(1) _ this, of "n + 1"] Cons.prems(2) True 1 c1
    show ?thesis by (auto simp: thenE_apply l1 stale_def fun_eq_iff)
  next
    case False
    with Cons.prems(2) have act: "staleness now r = Active"
      by (auto simp: readable_def stale_def)
    with Cons.prems have "\<forall>a \<in> set (as @ [r]). staleness now a = Active"
      and "rlists (db view w) PROCESSING_QUEUE = (as @ [r]) @ rs" by auto
    from Cons.IH [OF this(1) _ this(2), of n] Cons.prems(2) act False
    show ?thesis by auto
  qed
qed

text \<open>
  With Redis answering, the start-up recovery moves exactly the stale entries (older than
  \<open>VISIBILITY_TIMEOUT\<close>, or not JSON) from the processing list to the left end of the main queue,
  leaves the others in their order, returns how many it moved, and a recovery at the same time
  again moves nothing.
\<close>

theorem recover_moves_exactly_stale:
  assumes "redis_ok R view" and "redis_up R"
    and p: "p = rlists (db view w) PROCESSING_QUEUE"
    and "list_all (readable now) p" and "list_all decodable p"
  shows "\<exists>w'. recover_processing_queue R now w = (Inr (int (length (filter (stale now) p))), w')
    \<and> rlists (db view w') = (rlists (db view w))
        (PROCESSING_QUEUE := filter (\<lambda>r. \<not> stale now r) p,
         MAIN_QUEUE := rev (filter (stale now) p) @ rlists (db view w) MAIN_QUEUE)
    \<and> fst (recover_processing_queue R now w') = Inr 0"
proof -
  have step: "\<exists>w'. recover_processing_queue R now w = (Inr (int (length (filter (stale now) p))), w')
    \<and> rlists (db view w') = (rlists (db view w))
        (PROCESSING_QUEUE := filter (\<lambda>r. \<not> stale now r) p,
         MAIN_QUEUE := rev (filter (stale now) p) @ rlists (db view w) MAIN_QUEUE)"
    if p: "p = rlists (db view w) PROCESSING_QUEUE" and rd: "list_all (readable now) p"
      and dc: "list_all decodable p" for p w
  proof -
    obtain c where 1: "redis_lrange R PROCESSING_QUEUE (conn w) = (Inr p, c)" and c: "view c = db view w"
      using redis_lrange_up [OF assms(1,2), of "conn w" PROCESSING_QUEUE] p dc by auto
    let ?w = "w\<lparr>conn := c\<rparr>"
    have "rlists (db view ?w) PROCESSING_QUEUE = [] @ p" by (simp add: c p)
    from recover_loop_up [OF assms(1,2) _ rd this, of 0]
    obtain w' where 2: "recover_loop R now p 0 ?w = (Inr (int (length (filter (stale now) p))), w')"
      and l: "rlists (db view w') = (rlists (db view w))
        (PROCESSING_QUEUE := filter (\<lambda>r. \<not> stale now r) p,
         MAIN_QUEUE := rev (filter (stale now) p) @ rlists (db view w) MAIN_QUEUE)"
      by (auto simp: c)
    have "redisE (redis_lrange R PROCESSING_QUEUE) w = (Inr p, ?w)"
      using 1 by (simp add: redisE_apply)
    then have "recover_processing_queue R now w = recover_loop R now p 0 ?w"
      by (simp add: recover_processing_queue_def bindE_def)
    with 2 l show ?thesis by metis
  qed
  obtain w' where w': "recover_processing_queue R now w = (Inr (int (length (filter (stale now) p))), w')"
    "rlists (db view w') = (rlists (db view w))
        (PROCESSING_QUEUE := filter (\<lambda>r. \<not> stale now r) p,
         MAIN_QUEUE := rev (filter (stale now) p) @ rlists (db view w) MAIN_QUEUE)"
    using step [OF assms(3-5)] by blast
  have "filter (\<lambda>r. \<not> stale now r) p = rlists (db view w') PROCESSING_QUEUE" by (simp add: w'(2))
  from step [OF this] assms(4,5) have "fst (recover_processing_queue R now w') = Inr 0"
    by (auto simp: list_all_iff)
  with w' show ?thesis by blast
qed

theorem recover_moves_exactly_stale_witness:
  "\<exists>w'. recover_processing_queue mem_redis 100 \<lparr>conn = set_list PROCESSING_QUEUE
        [Text (JObj [(''started_processing_at'', JInt 90)]), RawText ''?'',
         Text (JObj [(''started_processing_at'', JInt 60)])] empty_db,
        counters = initial_counters\<rparr> = (Inr 2, w')
    \<and> rlists (conn w') PROCESSING_QUEUE = [Text (JObj [(''started_processing_at'', JInt 90)])]
    \<and> rlists (conn w') MAIN_QUEUE = [Text (JObj [(''started_processing_at'', JInt 60)]), RawText ''?'']"
proof -
  let ?a = "Text (JObj [(''started_processing_at'', JInt 90)])"
  let ?b = "Text (JObj [(''started_processing_at'', JInt 60)])"
  let ?p = "[?a, RawText ''?'', ?b]"
  let ?w = "\<lparr>conn = set_list PROCESSING_QUEUE ?p empty_db, counters = initial_counters\<rparr>"
  have s: "staleness 100 ?a = Active" "staleness 100 (RawText ''?'') = Stale" "staleness 100 ?b = Stale"
    by code_simp+
  then have r: "list_all (readable 100) ?p" and f: "filter (stale 100) ?p = [RawText ''?'', ?b]"
    "filter (\<lambda>r. \<not> stale 100 r) ?p = [?a]"
    by (simp_all add: readable_def stale_def)
  have p: "?p = rlists (conn ?w) PROCESSING_QUEUE" by simp
  have d: "list_all decodable ?p" by simp
  from recover_moves_exactly_stale [OF redis_ok_mem redis_up_mem p r d]
  show ?thesis unfolding f by (auto simp: empty_db_def)
qed

end
