(* ===== verification/ModelLifecycle.thy ===== *)
theory ModelLifecycle
  imports IsolationEngine
begin

text \<open>
  What holds of the isolation engine: its score, the holdout evaluation, the life of its model
  over all interleavings of retraining tasks, and the restoration at start-up.
\<close>

section \<open>Scores\<close>

lemma scale_decision_range: "0 \<le> scale_decision raw \<and> scale_decision raw \<le> 1"
  by (simp add: scale_decision_def Let_def py_round_le_1)

lemma scale_decision_antitone: "raw \<le> raw' \<Longrightarrow> scale_decision raw' \<le> scale_decision raw"
  unfolding scale_decision_def Let_def
  by (rule py_round_mono, rule min.mono, rule max.mono, rule fl_mono, rule divide_right_mono,
      rule fl_mono, rule add_right_mono, rule max.mono, rule min.mono) simp_all

text \<open>
  A score that is returned is in [0, 1]; an engine without a trained model, and a vector of the
  wrong length, score 0 without asking the model.
\<close>

theorem engine_score_range:
  assumes "engine_score lib features eng = Inr s"
  shows "0 \<le> s \<and> s \<le> 1
    \<and> (length features \<noteq> FEATURE_DIM \<or> \<not> trained eng \<or> model eng = None \<longrightarrow> s = 0)"
  using assms scale_decision_range
  by (auto simp: engine_score_def split: if_splits option.splits sum.splits)

text \<open>A scikit-learn stand-in: the decision is the closeness of the message length to 20.\<close>

definition toy_ml :: "rat ml" where
  "toy_ml = \<lparr>ml_fit = (\<lambda>c rows. if rows = [] then Inl ValueError else Inr c),
     ml_decision = (\<lambda>c x. case x of [l, n, i, k] \<Rightarrow> Inr ((20 - n) / 500) | _ \<Rightarrow> Inl ValueError),
     ml_dump = (\<lambda>c. [128, 4, 149]), ml_load = (\<lambda>bs. Inr 0), ml_sha256 = (\<lambda>bs. replicate 64 (CHR ''a'')),
     ml_fromisoformat = (\<lambda>s. Inr s)\<rparr>"

definition toy_engine :: "rat isolation" where
  "toy_engine = (new_engine (default_settings []))\<lparr>model := Some 0, trained := True\<rparr>"

theorem engine_score_range_witness:
  "\<exists>s. engine_score toy_ml [4, 500, 1, 4] toy_engine = Inr s \<and> 0 \<le> s \<and> s \<le> 1"
proof -
  have "\<exists>s. engine_score toy_ml [4, 500, 1, 4] toy_engine = Inr s"
    by (simp add: engine_score_def toy_ml_def toy_engine_def FEATURE_DIM_def)
  with engine_score_range show ?thesis by blast
qed

text \<open>
  The score turns the model's decision around: of two vectors the trained model judges, the
  one with the lower decision value (the more anomalous) never has the lower score.
\<close>

theorem engine_score_antitone:
  assumes "model eng = Some m" and "trained eng"
    and "length x = FEATURE_DIM" and "length y = FEATURE_DIM"
    and "ml_decision lib m x = Inr a" and "ml_decision lib m y = Inr b" and "a \<le> b"
  shows "\<exists>s t. engine_score lib x eng = Inr s \<and> engine_score lib y eng = Inr t \<and> t \<le> s"
  using assms scale_decision_antitone by (simp add: engine_score_def)

theorem engine_score_antitone_witness:
  "\<exists>s t. engine_score toy_ml [4, 500, 1, 4] toy_engine = Inr s
    \<and> engine_score toy_ml [1, 20, 0, 0] toy_engine = Inr t \<and> t \<le> s"
  by (rule engine_score_antitone [where m = 0 and a = "- 480 / 500" and b = 0])
    (simp_all add: toy_engine_def toy_ml_def FEATURE_DIM_def)

section \<open>The holdout evaluation\<close>

lemma decision_rows_map:
  assumes "decision_rows lib m xs = Inr ys"
  shows "length ys = length xs \<and> (\<forall>i<length xs. ml_decision lib m (xs ! i) = Inr (ys ! i))"
  using assms
proof (induction xs arbitrary: ys)
  case (Cons x xs)
  then obtain y zs where "ml_decision lib m x = Inr y" "decision_rows lib m xs = Inr zs" "ys = y # zs"
    by (auto split: sum.splits)
  with Cons.IH [of zs] show ?case by (auto simp: nth_Cons split: nat.splits)
qed simp

lemma filtered_ratio: "rat_of_nat (length (filter P xs)) / rat_of_nat (length xs) \<le> 1"
  using length_filter_le [of P xs] by (cases xs) (simp_all add: divide_le_eq_1 del: length_filter_le)

lemma discrimination_range: "0 \<le> discrimination scored \<and> discrimination scored \<le> 1"
  using filtered_ratio by (auto simp: discrimination_def Let_def fl_le_1)

lemma fraction_of_twelve: "n \<le> 12 \<Longrightarrow> fl (of_nat n / 12) = 1 \<longleftrightarrow> n = 12"
proof
  assume n: "n \<le> 12" and one: "fl (of_nat n / 12) = 1"
  have "fl (11 / 12) < 1" by code_simp
  moreover have "n \<le> 11 \<Longrightarrow> fl (of_nat n / 12) \<le> fl (11 / 12)"
    by (rule fl_mono) simp
  ultimately show "n = 12" using n one by linarith
qed simp

lemma filter_full: "length (filter P xs) = length xs \<longleftrightarrow> (\<forall>x\<in>set xs. P x)"
proof
  assume "length (filter P xs) = length xs"
  then have "filter P xs = xs" by (metis length_filter_less less_irrefl filter_id_conv)
  then show "\<forall>x\<in>set xs. P x" by (simp only: filter_id_conv)
qed (simp add: filter_id_conv [THEN iffD2])

text \<open>
  The discrimination score of a model is in [0, 1], and it is 1 exactly when the model orders
  every anomalous holdout vector below every normal one.
\<close>

theorem discrimination_score_correct:
  assumes "compute_discrimination_score lib m = Inr d"
  shows "0 \<le> d \<and> d \<le> 1
    \<and> (d = 1 \<longleftrightarrow> (\<forall>(x, lx)\<in>set HOLDOUT. \<forall>(y, ly)\<in>set HOLDOUT. lx \<longrightarrow> \<not> ly \<longrightarrow>
         (\<exists>a b. ml_decision lib m x = Inr a \<and> ml_decision lib m y = Inr b \<and> a < b)))"
proof -
  from assms obtain raw where rows: "decision_rows lib m (map fst HOLDOUT) = Inr raw"
    and d: "d = discrimination (zip raw (map snd HOLDOUT))"
    by (auto simp: compute_discrimination_score_def HOLDOUT_def split: sum.splits if_splits)
  have "length raw = 7"
    using decision_rows_map [OF rows] by (simp add: HOLDOUT_def)
  then obtain n1 n2 n3 n4 a1 a2 a3 where raw: "raw = [n1, n2, n3, n4, a1, a2, a3]"
    by (auto simp: numeral_eq_Suc length_Suc_conv)
  let ?pairs = "[(a1, n1), (a1, n2), (a1, n3), (a1, n4), (a2, n1), (a2, n2), (a2, n3), (a2, n4),
     (a3, n1), (a3, n2), (a3, n3), (a3, n4)]"
  have pairs: "ordered_pairs (zip raw (map snd HOLDOUT)) = ?pairs"
    by (simp add: raw ordered_pairs_def HOLDOUT_def)
  let ?c = "length (filter (\<lambda>(si, sj). si < sj) ?pairs)"
  have "d = fl (of_nat ?c / 12)"
    unfolding d discrimination_def Let_def pairs by simp
  moreover have "?c \<le> 12" using length_filter_le [of "\<lambda>(si, sj). si < sj" ?pairs] by simp
  ultimately have "d = 1 \<longleftrightarrow> ?c = length ?pairs" using fraction_of_twelve [of ?c] by simp
  also have "\<dots> \<longleftrightarrow> (\<forall>(si, sj)\<in>set ?pairs. si < sj)" unfolding filter_full ..
  finally have one: "d = 1 \<longleftrightarrow> (\<forall>(si, sj)\<in>set ?pairs. si < sj)" .
  have dec: "ml_decision lib m [1, 25, 0, 0] = Inr n1" "ml_decision lib m [1, 30, 1, 0] = Inr n2"
    "ml_decision lib m [0, 15, 0, 0] = Inr n3" "ml_decision lib m [1, 40, 1, 0] = Inr n4"
    "ml_decision lib m [4, 500, 1, 4] = Inr a1" "ml_decision lib m [3, 350, 1, 3] = Inr a2"
    "ml_decision lib m [4, 400, 1, 4] = Inr a3"
    using rows unfolding raw HOLDOUT_def by (simp_all split: sum.splits)
  show ?thesis
    using discrimination_range [of "zip raw (map snd HOLDOUT)", folded d] one
    by (auto simp: HOLDOUT_def dec)
qed

theorem discrimination_score_correct_witness:
  "\<exists>d. compute_discrimination_score toy_ml 0 = Inr d \<and> d = 1"
proof -
  have "\<exists>d. compute_discrimination_score toy_ml 0 = Inr d"
    by (simp add: compute_discrimination_score_def HOLDOUT_def toy_ml_def)
  then obtain d where d: "compute_discrimination_score toy_ml 0 = Inr d" ..
  have one: "(\<exists>b::rat. b * 100 = 1 \<and> c < b) \<longleftrightarrow> c * 100 < 1" for c by (auto intro: exI [of _ "1 / 100"])
  from d discrimination_score_correct [OF d] show ?thesis
    by (simp add: HOLDOUT_def toy_ml_def one)
qed

section \<open>Restoring a persisted model\<close>

lemma redisE_frame: "redisE m w = (r, w') \<Longrightarrow> w' = w\<lparr>conn := conn w'\<rparr>"
  using redisE_cases by blast

lemma redisE_engine: "engine (snd (redisE m w)) = engine w"
  by (simp add: redisE_apply split: prod.splits)

lemma bytes_io_str: "bytes_io v = Inl TypeError"
  by (simp add: bytes_io_def)

text \<open>
  C33. The start-up restoration never restores a model: whatever the server holds and answers, it
  returns \<open>False\<close> and leaves the engine as it was, because the shared client decodes replies and
  the artifact then is a text that \<open>io.BytesIO\<close> refuses (or bytes it cannot decode).
\<close>

theorem restore_never_restores:
  "fst (restore_from_redis R lib now utc_now w) = Inr False
   \<and> engine (snd (restore_from_redis R lib now utc_now w)) = engine w"
proof -
  obtain r1 w1 where 1: "redisE (redis_get R MODEL_ARTIFACT_KEY) w = (r1, w1)" by fastforce
  obtain r2 w2 where 2: "redisE (redis_get R MODEL_PROVENANCE_KEY) w1 = (r2, w2)" by fastforce
  have e: "engine w1 = engine w" "engine w2 = engine w1"
    using redisE_engine [of "redis_get R MODEL_ARTIFACT_KEY" w] 1
      redisE_engine [of "redis_get R MODEL_PROVENANCE_KEY" w1] 2 by simp_all
  show ?thesis
    using e
    by (simp add: restore_from_redis_def tryE_apply bindE_apply 1 2 liftE_def raiseE_apply
        returnE_apply bytes_io_str split: sum.splits option.splits)
qed

text \<open>Even right after a successful persist.\<close>

lemma restore_after_persist_fails:
  "fst (restore_from_redis mem_redis toy_ml 5 ''now''
     (snd (persist_model_to_redis mem_redis (default_settings []) (ml_dump toy_ml 0) (1 / 20)
        \<lparr>p_model_id = ''a'', p_trained_at = ''then'', p_n_samples = 200, p_discrimination = 1\<rparr>
        \<lparr>conn = empty_db, counters = initial_counters, engine = new_engine (default_settings []),
         baseline_store = small_baseline 40\<rparr>))) = Inr False"
  by (rule restore_never_restores [THEN conjunct1])

section \<open>The life of the model\<close>

definition busy :: "retrain_task \<Rightarrow> bool" where
  "busy t = (case t of Fitting _ \<Rightarrow> True | Persisting _ _ \<Rightarrow> True | _ \<Rightarrow> False)"

text \<open>
  The process and its retraining tasks. The worker spawns a task whenever \<open>should_retrain\<close> says
  so, the event loop runs any task up to its next \<open>await\<close>, and in between the baseline, the
  connection and the counters change as the other code changes them.
\<close>

inductive engine_step for R and cfg and lib where
  spawn: "should_retrain cfg now (baseline_size (baseline_store w)) (engine w) \<Longrightarrow>
    engine_step R cfg lib (w, ts) (w, Started # ts)"
| run: "i < length ts \<Longrightarrow> retrain_piece R cfg lib clock utc_now (ts ! i) w = (t, w') \<Longrightarrow>
    engine_step R cfg lib (w, ts) (w', ts[i := t])"
| learn: "engine_step R cfg lib (w, ts)
    (w\<lparr>baseline_store := snd (baseline_add v ip (baseline_store w))\<rparr>, ts)"
| other: "engine_step R cfg lib (w, ts) (w\<lparr>conn := c, counters := k\<rparr>, ts)"

inductive engine_reachable for R and cfg and lib where
  start: "engine w = new_engine cfg \<Longrightarrow> engine_reachable R cfg lib (w, [])"
| step: "engine_reachable R cfg lib s \<Longrightarrow> engine_step R cfg lib s s' \<Longrightarrow> engine_reachable R cfg lib s'"

definition engine_ok :: "'m isolation \<Rightarrow> bool" where
  "engine_ok eng \<longleftrightarrow> (trained eng \<longleftrightarrow> model eng \<noteq> None) \<and> (trained eng \<longleftrightarrow> model_id eng \<noteq> None)
     \<and> 0 \<le> last_discrimination_score eng \<and> last_discrimination_score eng \<le> 1"

definition busy_tasks :: "retrain_task list \<Rightarrow> nat" where
  "busy_tasks ts = length (filter busy ts)"

lemma busy_tasks_update:
  assumes "i < length ts"
  shows "busy_tasks (ts[i := t]) + of_bool (busy (ts ! i)) = busy_tasks ts + of_bool (busy t)"
proof -
  have u: "ts[i := t] = take i ts @ t # drop (Suc i) ts" using assms by (rule upd_conv_take_nth_drop)
  have s: "ts = take i ts @ ts ! i # drop (Suc i) ts" using assms by (rule id_take_nth_drop)
  have "busy_tasks ts = busy_tasks (take i ts @ ts ! i # drop (Suc i) ts)" using s by simp
  then show ?thesis unfolding u by (simp add: busy_tasks_def)
qed

lemma persist_frame:
  "engine (snd (persist_model_to_redis R cfg a c p w)) = engine w"
  by (simp add: persist_model_to_redis_def set_last_model_retrain_def Let_def tryE_apply thenE_apply
      redisE_apply returnE_apply split: prod.splits sum.splits)

lemma retrain_begin_cases:
  assumes "retrain_begin cfg bs eng = (t, eng')"
  shows "retraining eng' = (retraining eng \<or> busy t) \<and> (retraining eng \<longrightarrow> \<not> busy t)
    \<and> eng' = eng\<lparr>retraining := retraining eng'\<rparr>"
  using assms by (auto simp: retrain_begin_def retrain_finish_def Let_def busy_def
      split: if_splits sum.splits)

lemma retrain_fitted_cases:
  assumes "retrain_fitted lib clock utc_now n data eng = (t, eng')"
  shows "retraining eng' = (retraining eng \<and> busy t)
    \<and> (eng' = retrain_finish eng \<and> \<not> busy t
      \<or> busy t \<and> (\<exists>m disc mid. compute_discrimination_score lib m = Inr disc
          \<and> \<not> rejects (last_discrimination_score eng) disc
          \<and> eng' = accept_model clock utc_now n m mid disc eng))"
  using assms
  by (auto simp: retrain_fitted_def retrain_finish_def accept_model_def Let_def busy_def
      split: if_splits sum.splits)

text \<open>What one piece of a task does to the engine.\<close>

lemma retrain_piece_cases:
  assumes "retrain_piece R cfg lib clock utc_now t w = (t', w')"
    and "busy t \<longrightarrow> retraining (engine w)"
  shows "retraining (engine w') = (if busy t then busy t' else retraining (engine w) \<or> busy t')
    \<and> (retraining (engine w) \<and> \<not> busy t \<longrightarrow> \<not> busy t')
    \<and> (engine w' = (engine w)\<lparr>retraining := retraining (engine w')\<rparr>
      \<or> (\<exists>m disc mid n. compute_discrimination_score lib m = Inr disc
          \<and> \<not> rejects (last_discrimination_score (engine w)) disc
          \<and> engine w' = accept_model clock utc_now n m mid disc (engine w)))"
proof (cases t)
  case Started
  then obtain eng where b: "retrain_begin cfg (baseline_store w) (engine w) = (t', eng)"
    and w': "w' = w\<lparr>engine := eng\<rparr>"
    using assms(1) by (auto simp: retrain_piece_def split: prod.splits)
  have nb: "\<not> busy t" using Started by (simp add: busy_def)
  have e: "engine w' = eng" by (simp add: w')
  note c = retrain_begin_cases [OF b]
  show ?thesis
    unfolding e using c nb by (intro conjI disjI1) (simp, simp, blast)
next
  case (Fitting data)
  then obtain eng where f: "retrain_fitted lib clock utc_now (baseline_size (baseline_store w)) data (engine w)
      = (t', eng)" and w': "w' = w\<lparr>engine := eng\<rparr>"
    using assms(1) by (auto simp: retrain_piece_def split: prod.splits)
  have "busy t" "retraining (engine w)" using Fitting assms(2) by (simp_all add: busy_def)
  then show ?thesis using retrain_fitted_cases [OF f] by (auto simp: w' retrain_finish_def)
next
  case (Persisting a p)
  have "busy t" "retraining (engine w)" using Persisting assms(2) by (simp_all add: busy_def)
  moreover have "t' = Finished None" "engine w' = retrain_finish (engine w)"
    using assms(1) Persisting persist_frame [of R cfg a "contamination (engine w)" p w]
    by (auto simp: retrain_piece_def split: prod.splits)
  ultimately show ?thesis by (simp add: retrain_finish_def busy_def)
next
  case (Finished e)
  with assms show ?thesis by (simp add: retrain_piece_def busy_def)
qed

lemma engine_ok_retraining: "engine_ok (eng\<lparr>retraining := b\<rparr>) = engine_ok eng"
  by (simp add: engine_ok_def)

lemma discrimination_score_range:
  "compute_discrimination_score lib m = Inr d \<Longrightarrow> 0 \<le> d \<and> d \<le> 1"
  using discrimination_range
  by (auto simp: compute_discrimination_score_def HOLDOUT_def split: sum.splits if_splits)

lemma engine_ok_accept:
  assumes "compute_discrimination_score lib m = Inr disc"
  shows "engine_ok (accept_model clock utc_now n m mid disc eng)"
  using discrimination_score_range [OF assms] by (simp add: engine_ok_def accept_model_def)

lemma engine_step_inv:
  assumes "engine_step R cfg lib (w, ts) (w', ts')"
    and "engine_ok (engine w)" and "busy_tasks ts = of_bool (retraining (engine w))"
  shows "engine_ok (engine w') \<and> busy_tasks ts' = of_bool (retraining (engine w'))"
  using assms(1)
proof cases
  case (run i clock utc_now t)
  have b: "busy (ts ! i) \<longrightarrow> retraining (engine w)"
  proof
    assume "busy (ts ! i)"
    with run have "ts ! i \<in> set (filter busy ts)" by simp
    then have "0 < busy_tasks ts" unfolding busy_tasks_def by (rule length_pos_if_in_set)
    with assms(3) show "retraining (engine w)" by simp
  qed
  note c = retrain_piece_cases [OF run(3) b]
  have "busy_tasks ts' = of_bool (retraining (engine w'))"
    using busy_tasks_update [OF run(2), of t] c b assms(3) unfolding run(1)
    by (cases "busy (ts ! i)"; cases "busy t"; cases "retraining (engine w)") simp_all
  moreover from c have "engine_ok (engine w')"
    using assms(2) engine_ok_retraining engine_ok_accept by metis
  ultimately show ?thesis by blast
qed (use assms in \<open>simp_all add: busy_tasks_def busy_def\<close>)

lemma engine_reachable_ok:
  assumes "engine_reachable R cfg lib s"
  shows "engine_ok (engine (fst s)) \<and> busy_tasks (snd s) = of_bool (retraining (engine (fst s)))"
  using assms
proof induction
  case (start w)
  then show ?case by (simp add: engine_ok_def new_engine_def busy_tasks_def)
next
  case (step s s')
  then show ?case using engine_step_inv by (metis prod.collapse)
qed

text \<open>
  C10. At most one model is trained at a time, over every interleaving of the tasks, however many
  are spawned: one task is past its guard exactly while the flag is set. The engine counts as
  trained exactly when it has a model and its identifier, and its discrimination score is a
  fraction.
\<close>

theorem engine_reachable_inv:
  assumes "engine_reachable R cfg lib (w, ts)"
  shows "length (filter busy ts) = (if retraining (engine w) then 1 else 0)
    \<and> (trained (engine w) \<longleftrightarrow> model (engine w) \<noteq> None)
    \<and> (trained (engine w) \<longleftrightarrow> model_id (engine w) \<noteq> None)
    \<and> 0 \<le> last_discrimination_score (engine w) \<and> last_discrimination_score (engine w) \<le> 1"
  using engine_reachable_ok [OF assms]
  unfolding engine_ok_def busy_tasks_def fst_conv snd_conv of_bool_def by blast

definition toy_settings :: settings where
  "toy_settings = (default_settings [])\<lparr>MODEL_RETRAIN_INTERVAL := 1\<rparr>"

definition toy_process :: "(redis_db, rat) ml_env" where
  "toy_process = \<lparr>conn = empty_db, counters = initial_counters, engine = new_engine toy_settings,
     baseline_store = (small_baseline 40)\<lparr>buffer := [[1, 20, 0, 0]], ip_buffer := [None]\<rparr>\<rparr>"

text \<open>Two tasks spawned, the second one run first.\<close>

lemma toy_reachable:
  "engine_reachable mem_redis toy_settings toy_ml
     (toy_process\<lparr>engine := (engine toy_process)\<lparr>retraining := True\<rparr>\<rparr>,
      [Started, Fitting [[1, 20, 0, 0]]])"
proof -
  let ?R = "engine_reachable mem_redis toy_settings toy_ml"
  have sp: "should_retrain toy_settings 1 (baseline_size (baseline_store toy_process)) (engine toy_process)"
    by (simp add: should_retrain_def toy_process_def toy_settings_def new_engine_def baseline_size_def)
  have "?R (toy_process, [])" by (rule engine_reachable.start) (simp add: toy_process_def)
  then have "?R (toy_process, [Started])" by (rule engine_reachable.step [OF _ engine_step.spawn [OF sp]])
  then have two: "?R (toy_process, [Started, Started])"
    by (rule engine_reachable.step [OF _ engine_step.spawn [OF sp]])
  have piece: "retrain_piece mem_redis toy_settings toy_ml 1 ''now'' ([Started, Started] ! 1) toy_process
      = (Fitting [[1, 20, 0, 0]], toy_process\<lparr>engine := (engine toy_process)\<lparr>retraining := True\<rparr>\<rparr>)"
    by (simp add: retrain_piece_def retrain_begin_def get_training_data_def toy_process_def
        toy_settings_def new_engine_def small_baseline_def)
  have "1 < length [Started, Started]" by simp
  from engine_reachable.step [OF two engine_step.run [OF this piece]] show ?thesis by simp
qed

theorem engine_reachable_inv_witness:
  "length (filter busy [Started, Fitting [[1, 20, 0, 0]]]) = 1"
  using engine_reachable_inv [OF toy_reachable] by simp

text \<open>
  A retraining never lowers the discrimination score by more than 0.05: in every step of the
  process the score stays, or it is the holdout score of the new model, and that is within the
  tolerance of the old score unless the old score was 0.
\<close>

theorem accepted_model_within_tolerance:
  assumes "engine_reachable R cfg lib (w, ts)" and "engine_step R cfg lib (w, ts) (w', ts')"
  shows "last_discrimination_score (engine w') = last_discrimination_score (engine w)
      \<and> model (engine w') = model (engine w)
    \<or> (\<exists>m. model (engine w') = Some m
        \<and> compute_discrimination_score lib m = Inr (last_discrimination_score (engine w'))
        \<and> (last_discrimination_score (engine w) = 0
          \<or> fl (last_discrimination_score (engine w) - fl (5 / 100))
              \<le> last_discrimination_score (engine w')))"
  using assms(2)
proof cases
  case (run i clock utc_now t)
  note ok = engine_reachable_ok [OF assms(1), simplified]
  have b: "busy (ts ! i) \<longrightarrow> retraining (engine w)"
  proof
    assume "busy (ts ! i)"
    with run(2) have "ts ! i \<in> set (filter busy ts)" by simp
    then have "0 < busy_tasks ts" unfolding busy_tasks_def by (rule length_pos_if_in_set)
    with ok show "retraining (engine w)" by simp
  qed
  from retrain_piece_cases [OF run(3) b] consider
      "engine w' = (engine w)\<lparr>retraining := retraining (engine w')\<rparr>"
    | m disc mid n where "compute_discrimination_score lib m = Inr disc"
        "\<not> rejects (last_discrimination_score (engine w)) disc"
        "engine w' = accept_model clock utc_now n m mid disc (engine w)" by blast
  then show ?thesis
  proof cases
    case 1
    have "last_discrimination_score (engine w') = last_discrimination_score (engine w)"
      "model (engine w') = model (engine w)" by (subst 1, simp)+
    then show ?thesis by blast
  next
    case 2
    then show ?thesis using ok by (auto simp: accept_model_def rejects_def engine_ok_def not_less)
  qed
qed simp_all

definition toy_training :: "(redis_db, rat) ml_env" where
  "toy_training = toy_process\<lparr>engine := (engine toy_process)\<lparr>retraining := True\<rparr>\<rparr>"

theorem accepted_model_within_tolerance_witness:
  "\<exists>t w'. engine_step mem_redis toy_settings toy_ml
      (toy_training, [Started, Fitting [[1, 20, 0, 0]]]) (w', [Started, t])
    \<and> (\<exists>m. model (engine w') = Some m \<and> compute_discrimination_score toy_ml m = Inr 1)"
proof -
  let ?ts = "[Started, Fitting [[1, 20, 0, 0]]]"
  let ?p = "retrain_piece mem_redis toy_settings toy_ml 1 ''now'' (?ts ! 1) toy_training"
  have "1 < length ?ts" by simp
  from engine_step.run [OF this prod.collapse [symmetric]]
  have s: "engine_step mem_redis toy_settings toy_ml (toy_training, ?ts) (snd ?p, [Started, fst ?p])"
    by simp
  have one: "last_discrimination_score (engine (snd ?p)) = 1" by code_simp
  have zero: "last_discrimination_score (engine toy_training) = 0" by code_simp
  from accepted_model_within_tolerance [OF toy_reachable [folded toy_training_def] s] one zero
  show ?thesis using s by (metis zero_neq_one)
qed

section \<open>When no model is trained any more\<close>

text \<open>
  C32. The retraining decision counts new samples by the size of the store, which never exceeds its
  bound: once a model was trained with fewer than \<open>MODEL_RETRAIN_INTERVAL\<close> free places left,
  nothing that is added to the baseline and no time that passes makes \<open>should_retrain\<close> true.
\<close>

theorem full_baseline_never_retrains:
  assumes "baseline_ok bs"
    and "max_size bs - samples_at_last_retrain eng < MODEL_RETRAIN_INTERVAL cfg"
  shows "\<not> should_retrain cfg now (baseline_size (baseline_run ops bs)) eng"
proof -
  have "baseline_size (baseline_run ops bs) \<le> max_size bs"
    using baseline_run_ok [OF assms(1), of ops]
    by (simp add: baseline_ok_def baseline_run_frame)
  with assms(2) show ?thesis by (simp add: should_retrain_def)
qed

text \<open>With the default settings, for a model trained on a full store.\<close>

definition full_default :: "rat isolation" where
  "full_default = accept_model 1 ''now'' 2000 0 ''id'' 1 (new_engine (default_settings []))"

theorem full_baseline_never_retrains_witness:
  "\<not> should_retrain (default_settings []) 1000000
     (baseline_size (baseline_run (replicate 5000 (Add [1, 20, 0, 0] None)) (small_baseline 2000)))
     full_default"
  by (rule full_baseline_never_retrains)
    (simp_all add: baseline_ok_def small_baseline_def baseline_size_def ip_count_def
      max_allowed_nonneg full_default_def accept_model_def new_engine_def default_settings_def)

text \<open>
  A rejected model leaves no trace: the engine is exactly what it was before the task, so the
  cooldown does not apply and the retraining decision is again what it was, at any later time and
  size.
\<close>

theorem rejected_retrain_leaves_engine:
  assumes "\<not> retraining (engine w)"
    and "ml_fit lib (contamination (engine w)) (buffer (baseline_store w)) = Inr m"
    and "compute_discrimination_score lib m = Inr disc"
    and "rejects (last_discrimination_score (engine w)) disc"
    and "should_retrain cfg now n (engine w)"
    and "retrain_async R cfg lib clock utc_now w = (t, w')"
  shows "engine w' = engine w \<and> should_retrain cfg now n (engine w')"
proof -
  have idle: "(engine w)\<lparr>retraining := False\<rparr> = engine w" using assms(1) by (cases "engine w") simp
  show ?thesis
  proof (cases "get_training_data (baseline_store w)")
    case (Inl e)
    then show ?thesis
      using assms(1,5,6) idle
      by (auto simp: retrain_async_def retrain_piece_def retrain_begin_def retrain_finish_def
          Let_def)
  next
    case (Inr data)
    then have d: "data = buffer (baseline_store w)"
      by (auto simp: get_training_data_def split: list.splits if_splits)
    show ?thesis
      using assms Inr
      by (auto simp: idle retrain_async_def retrain_piece_def retrain_begin_def retrain_finish_def
          retrain_fitted_def d Let_def split: if_splits)
  qed
qed

definition poor_ml :: "rat ml" where
  "poor_ml = toy_ml\<lparr>ml_decision := (\<lambda>_ _. Inr 0)\<rparr>"

definition trained_process :: "(redis_db, rat) ml_env" where
  "trained_process = toy_process\<lparr>engine := (new_engine toy_settings)\<lparr>last_discrimination_score := 1\<rparr>\<rparr>"

theorem rejected_retrain_leaves_engine_witness:
  "engine (snd (retrain_async mem_redis toy_settings poor_ml 9 ''later'' trained_process))
    = engine trained_process"
proof -
  have 1: "\<not> retraining (engine trained_process)"
    and 2: "ml_fit poor_ml (contamination (engine trained_process))
      (buffer (baseline_store trained_process)) = Inr (fl (5 / 100))"
    by (simp_all add: trained_process_def toy_process_def new_engine_def poor_ml_def toy_ml_def
        toy_settings_def default_settings_def)
  have 3: "compute_discrimination_score poor_ml (fl (5 / 100)) = Inr 0" by code_simp
  have 4: "rejects (last_discrimination_score (engine trained_process)) 0" by code_simp
  have 5: "should_retrain toy_settings 9 1 (engine trained_process)" by code_simp
  from rejected_retrain_leaves_engine [OF 1 2 3 4 5 prod.collapse [symmetric]]
  show ?thesis by blast
qed

end
