(* ===== verification/WorkerSafety.thy ===== *)
theory WorkerSafety
  imports AlertWorker Frames QueueDelivery ModelLifecycle
begin

text \<open>
  What holds of the alert worker: what it learns from, that it processes a log once, that it
  acknowledges only decided logs, and what a round does to the messages in flight.
\<close>

section \<open>Frames\<close>

definition detectors :: "('r, 'm, 'd, 'z) worker_scheme \<Rightarrow>
    'm isolation \<times> baseline \<times> ip_tracker \<times> profile_store \<times> task list" where
  "detectors w = (engine w, baseline_store w, tracker w, profiling w, tasks w)"

lemma redis_only_detectors:
  assumes "redis_only f" and "f w = (r, w')"
  shows "detectors w' = detectors w \<and> sql w' = sql w"
  using redis_onlyD [OF assms] by (auto simp: detectors_def)

lemma sqlE_cases:
  assumes "sqlE D st w = (r, w')"
  shows "D st (sql w) = (r, sql w') \<and> w' = w\<lparr>sql := sql w'\<rparr>"
  using assms by (auto simp: sqlE_def zoomE_apply split: prod.splits)

lemma sqlE_frame:
  assumes "sqlE D st w = (r, w')"
  shows "detectors w' = detectors w \<and> conn w' = conn w \<and> counters w' = counters w"
proof -
  obtain d where "w' = w\<lparr>sql := d\<rparr>" using sqlE_cases [OF assms] by blast
  then show ?thesis by (simp add: detectors_def)
qed

lemma assess_frame:
  assumes "assess cfg lib rd l w = (r, w')"
  shows "baseline_store w' = baseline_store w \<and> engine w' = engine w \<and> tasks w' = tasks w
    \<and> sql w' = sql w \<and> conn w' = conn w \<and> counters w' = counters w"
  using assms by (auto simp: assess_def combine_def split: prod.splits sum.splits)

lemma commit_alert_frame:
  assumes "commit_alert D al w = (r, w')"
  shows "detectors w' = detectors w \<and> conn w' = conn w \<and> counters w' = counters w"
proof -
  obtain r1 w1 where 1: "sqlE D (Commit [InsertAlert al]) w = (r1, w1)" by fastforce
  with assms have "w' = w1"
    by (auto simp: commit_alert_def tryE_apply bindE_apply returnE_apply raiseE_apply
        split: sum.splits if_splits)
  then show ?thesis using sqlE_frame [OF 1] by simp
qed

lemma raise_alert_frame:
  assumes "raise_alert R D rd l a w = (r, w')"
  shows "baseline_store w' = baseline_store w \<and> engine w' = engine w
    \<and> tracker w' = tracker w \<and> profiling w' = profiling w
    \<and> (final_severity (as_result a) = ''NONE'' \<longrightarrow> r = Inr False \<and> w' = w)"
proof (cases "final_severity (as_result a) = ''NONE''")
  case True
  with assms show ?thesis by (simp add: raise_alert_def returnE_apply)
next
  case False
  obtain r1 w1 where 1: "commit_alert D (new_alert rd l a) w = (r1, w1)" by fastforce
  obtain r2 w2 where 2: "increment_async R ''alerts_created'' 1 w1 = (r2, w2)" by fastforce
  have d: "detectors w1 = detectors w" using commit_alert_frame [OF 1] by blast
  have d2: "detectors w2 = detectors w1"
    using redis_only_detectors [OF redis_only_increment 2] by blast
  from assms False 1 2 have "w' = w1 \<or> w' = w2 \<or> (\<exists>ts. w' = w2\<lparr>tasks := ts\<rparr>)"
    by (auto simp: raise_alert_def bindE_apply thenE_apply spawn_def modifyE_apply returnE_apply
        split: sum.splits if_splits)
  with d d2 False show ?thesis by (auto simp: detectors_def)
qed

section \<open>The contamination guard\<close>

lemma quiet_severity:
  assumes "thresholds_ok cfg"
    and "risk_score (compute cfg s i False None) < ANOMALY_THRESHOLD_LOW cfg"
  shows "final_severity (compute cfg s i False None) = ''NONE''"
  using assms by (auto simp: compute_def Let_def threshold_severity_def thresholds_ok_def split: if_splits)

lemma assess_result:
  assumes "assess cfg lib rd l w = (Inr a, w')"
  obtains s i where "as_result a =
      compute cfg s i (as_rule a \<noteq> None) (map_option severity (as_rule a))"
  using assms by (auto simp: assess_def combine_def split: prod.splits sum.splits)

lemma trigger_retrain_frame:
  assumes "trigger_retrain cfg rd w = (r, w')"
  shows "r = Inr () \<and> (w' = w \<or> w' = w\<lparr>tasks := RetrainTask Started # tasks w\<rparr>)"
  using assms by (auto simp: trigger_retrain_def bindE_apply getE_apply spawn_def modifyE_apply
      returnE_apply split: if_splits)

lemma learn_baseline_cases:
  assumes "learn_baseline cfg l a w = (r, w')"
  shows "w' = w \<or> as_rule a = None \<and> risk_score (as_result a) < ANOMALY_THRESHOLD_LOW cfg
    \<and> w' = w\<lparr>baseline_store := snd (baseline_add (as_features a) (log_ip l) (baseline_store w))\<rparr>"
  using assms by (auto simp: learn_baseline_def zoomE_apply returnE_apply split: if_splits prod.splits)

text \<open>
  C11. The contamination guard: processing a log changes the baseline only by adding the log's own
  feature vector, and only if no rule fired, its risk is below the lowest threshold and its
  severity is \<open>NONE\<close>; no alert is then written. A log that is alerted is never learnt from.
\<close>

theorem alerted_log_not_learned:
  assumes "thresholds_ok cfg"
    and "process_log R D cfg lib rd m l w = (r, w')" and "baseline_store w' \<noteq> baseline_store w"
  shows "sql w' = sql w \<and> (\<exists>a w1. assess cfg lib rd l w = (Inr a, w1)
    \<and> as_rule a = None \<and> risk_score (as_result a) < ANOMALY_THRESHOLD_LOW cfg
    \<and> final_severity (as_result a) = ''NONE''
    \<and> baseline_store w' = snd (baseline_add (as_features a) (log_ip l) (baseline_store w)))"
proof -
  obtain r1 w1 where 1: "assess cfg lib rd l w = (r1, w1)" by fastforce
  note f1 = assess_frame [OF 1]
  show ?thesis
  proof (cases r1)
    case (Inl e)
    with 1 assms(2,3) f1 show ?thesis by (simp add: process_log_def bindE_apply)
  next
    case (Inr a)
    obtain r2 w2 where 2: "raise_alert R D rd l a w1 = (r2, w2)" by fastforce
    note f2 = raise_alert_frame [OF 2]
    obtain r3 w3 where 3: "learn_baseline cfg l a w2 = (r3, w3)" by fastforce
    obtain r4 w4 where 4: "trigger_retrain cfg rd w3 = (r4, w4)" by fastforce
    obtain r5 w5 where 5: "acknowledge R m w2 = (r5, w5)" by fastforce
    obtain r6 w6 where 6: "acknowledge R m w4 = (r6, w6)" by fastforce
    have f5: "baseline_store w5 = baseline_store w2"
      and f6: "baseline_store w6 = baseline_store w4" "sql w6 = sql w4"
      using redis_only_detectors [OF redis_only_acknowledge 5]
        redis_only_detectors [OF redis_only_acknowledge 6] by (simp_all add: detectors_def)
    have r4: "r4 = Inr ()" using trigger_retrain_frame [OF 4] by blast
    have f4: "baseline_store w4 = baseline_store w3" "sql w4 = sql w3"
      using trigger_retrain_frame [OF 4] by auto
    have w': "w' = w2 \<or> w' = w5 \<or> w' = w3 \<or> w' = w6"
      using assms(2) 1 2 3 4 5 6 Inr r4
      by (auto simp: process_log_def bindE_apply thenE_apply split: sum.splits if_splits)
    have l: "baseline_store w3 \<noteq> baseline_store w2 \<and> sql w' = sql w3
        \<and> baseline_store w' = baseline_store w3"
      using w' assms(3) f1 f2 f4 f5 f6 by metis
    from learn_baseline_cases [OF 3] l have q: "as_rule a = None"
      "risk_score (as_result a) < ANOMALY_THRESHOLD_LOW cfg"
      "w3 = w2\<lparr>baseline_store := snd (baseline_add (as_features a) (log_ip l) (baseline_store w2))\<rparr>"
      by auto
    obtain s i where "as_result a = compute cfg s i (as_rule a \<noteq> None) (map_option severity (as_rule a))"
      using 1 Inr assess_result by blast
    with q(1,2) have n: "final_severity (as_result a) = ''NONE''"
      using quiet_severity [OF assms(1)] by simp
    with f2 have "w2 = w1" by simp
    then show ?thesis using 1 Inr q n l f1 by simp
  qed
qed

text \<open>A worker at its start, a quiet log and its message.\<close>

definition uuid1 :: string where "uuid1 = replicate 32 (CHR ''1'')"
definition uuid2 :: string where "uuid2 = replicate 32 (CHR ''2'')"

definition some_readings :: readings where
  "some_readings = \<lparr>rd_dequeued = 10, rd_delay = 10, rd_rule = 10, rd_stat = 10, rd_retrain = 10,
     rd_alert_key = uuid2, rd_created = 0, rd_retry = 11, rd_retry2 = 12\<rparr>"

definition some_log :: "string \<Rightarrow> string \<Rightarrow> log_row" where
  "some_log lvl msg = \<lparr>log_key = uuid1, log_source = ''app'', log_lvl = lvl, log_message = msg,
     log_timestamp = Naive 0, log_ip = None, log_enqueued = True, log_created = 0\<rparr>"

definition some_entry :: stored where
  "some_entry = new_message (JObj [(''log_id'', JStr uuid1)]) 1"

definition some_message :: queue_message where
  "some_message = \<lparr>msg_fields = [(''payload'', JObj [(''log_id'', JStr uuid1)]),
     (''retry_count'', JInt 0)], msg_raw = None\<rparr>"

definition worker_at :: "'r \<Rightarrow> 'd \<Rightarrow> ('r, rat, 'd) worker" where
  "worker_at r d = \<lparr>conn = r, counters = initial_counters, engine = new_engine (default_settings []),
     baseline_store = small_baseline 40, sql = d, tracker = new_tracker (default_settings []),
     profiling = new_profile_store (default_settings []) None, tasks = []\<rparr>"

definition some_db :: "log_row \<Rightarrow> sql_db" where
  "some_db l = \<lparr>logs = [l], alerts = []\<rparr>"

definition quiet_log :: log_row where "quiet_log = some_log ''INFO'' ''hello''"
definition loud_log :: log_row where "loud_log = some_log ''ERROR'' ''boom''"

definition quiet_assessment :: assessment where
  "quiet_assessment = combine (default_settings []) quiet_log None (fl (83 / 10000)) 0"

definition loud_assessment :: assessment where
  "loud_assessment = combine (default_settings []) loud_log
     (Some \<lparr>severity = ''HIGH'', reason = ''Log level is ERROR''\<rparr>) (fl (83 / 10000)) 0"

lemma start_profile:
  "fst (profile_record 10 None b (new_profile_store (default_settings []) None))
     = \<lparr>ip_rate = 0, ip_error_ratio = 0, global_rate = 1, global_error_ratio = of_bool b\<rparr>"
  by (simp add: profile_record_def Let_def evict_global_def global_snapshot_def new_profile_store_def
      deque_append_def MAX_GLOBAL_EVENTS_def error_ratio_def error_count_def default_settings_def)

lemma start_stats:
  "stats_score (default_settings [])
     \<lparr>ip_rate = 0, ip_error_ratio = 0, global_rate = 1, global_error_ratio = 0\<rparr> = fl (83 / 10000)"
  "stats_score (default_settings [])
     \<lparr>ip_rate = 0, ip_error_ratio = 0, global_rate = 1, global_error_ratio = 1\<rparr> = fl (83 / 10000)"
  by code_simp+

lemma start_stat_score:
  "fst (stat_score (default_settings []) 10 ''INFO'' None (new_profile_store (default_settings []) None))
     = fl (83 / 10000)"
  "fst (stat_score (default_settings []) 10 ''ERROR'' None (new_profile_store (default_settings []) None))
     = fl (83 / 10000)"
  using start_profile [of False] start_profile [of True] start_stats
  by (simp_all add: stat_score_def is_error_level_def str_upper_def char_upper_def case_prod_unfold)

lemma start_evaluate:
  "fst (evaluate 10 ''INFO'' ''hello'' None (new_tracker (default_settings []))) = None"
  "fst (evaluate 10 ''ERROR'' ''boom'' None (new_tracker (default_settings [])))
    = Some \<lparr>severity = ''HIGH'', reason = ''Log level is ERROR''\<rparr>"
  by code_simp+

lemma start_engine_score: "engine_score lib x (new_engine cfg) = Inr 0"
  by (simp add: engine_score_def new_engine_def)

lemma start_assess:
  "fst (assess (default_settings []) lib some_readings quiet_log (worker_at r d)) = Inr quiet_assessment"
  "fst (assess (default_settings []) lib some_readings loud_log (worker_at r d)) = Inr loud_assessment"
  using start_stat_score start_evaluate
  by (simp_all add: assess_def quiet_log_def loud_log_def some_log_def some_readings_def worker_at_def
      quiet_assessment_def loud_assessment_def start_engine_score case_prod_unfold)

lemma quiet_compute:
  "compute (default_settings []) (fl (83 / 10000)) 0 False None = \<lparr>risk_score = fl (25 / 10000),
     breakdown = [(''rule'', 0), (''statistical'', fl (83 / 10000)), (''isolation'', 0)],
     anomaly_type = ''normal'', final_severity = ''NONE''\<rparr>"
  by code_simp

lemma loud_severity:
  "final_severity (compute (default_settings []) (fl (83 / 10000)) 0 True (Some ''HIGH'')) = ''HIGH''"
  by code_simp

lemma default_low: "ANOMALY_THRESHOLD_LOW (default_settings url) = fl (2 / 10)"
  by (simp add: default_settings_def)

lemma quiet_assessment_values:
  "as_rule quiet_assessment = None" "final_severity (as_result quiet_assessment) = ''NONE''"
  "risk_score (as_result quiet_assessment) < ANOMALY_THRESHOLD_LOW (default_settings [])"
  "as_features quiet_assessment = [1, 5, 0, 0]"
proof -
  have "fl (25 / 10000) < fl (2 / 10)" by code_simp
  then show "as_rule quiet_assessment = None" "final_severity (as_result quiet_assessment) = ''NONE''"
    "risk_score (as_result quiet_assessment) < ANOMALY_THRESHOLD_LOW (default_settings [])"
    by (simp_all add: quiet_assessment_def combine_def quiet_compute default_low)
  show "as_features quiet_assessment = [1, 5, 0, 0]"
    unfolding quiet_assessment_def combine_def quiet_log_def some_log_def
    by (simp only: assessment.simps log_row.simps) code_simp
qed

lemma loud_assessment_values:
  "as_rule loud_assessment \<noteq> None" "final_severity (as_result loud_assessment) = ''HIGH''"
  by (simp_all add: loud_assessment_def combine_def loud_severity)

lemma process_quiet_log:
  assumes "assess cfg lib rd l w = (Inr a, w1)" and "final_severity (as_result a) = ''NONE''"
  shows "process_log R D cfg lib rd m l w =
    thenE (learn_baseline cfg l a) (thenE (trigger_retrain cfg rd) (acknowledge R m)) w1"
  using assms by (simp add: process_log_def bindE_apply raise_alert_def returnE_apply)

theorem alerted_log_not_learned_witness:
  "\<exists>a w1. assess (default_settings []) toy_ml some_readings quiet_log
      (worker_at empty_db (some_db quiet_log)) = (Inr a, w1) \<and> as_rule a = None
    \<and> final_severity (as_result a) = ''NONE''"
proof -
  let ?w = "worker_at empty_db (some_db quiet_log)"
  let ?run = "process_log mem_redis mem_sql (default_settings []) toy_ml some_readings some_message quiet_log ?w"
  obtain w1 where 1: "assess (default_settings []) toy_ml some_readings quiet_log ?w = (Inr quiet_assessment, w1)"
    using start_assess(1) [of toy_ml empty_db "some_db quiet_log"] by (metis prod.collapse)
  then have b: "baseline_store w1 = small_baseline 40"
    using assess_frame [OF 1] by (simp add: worker_at_def)
  obtain r2 w2 where 2: "learn_baseline (default_settings []) quiet_log quiet_assessment w1 = (r2, w2)" by fastforce
  then have r2: "r2 = Inr ()" "buffer (baseline_store w2) = [[1, 5, 0, 0]]"
    using quiet_assessment_values b
    by (auto simp: learn_baseline_def zoomE_apply baseline_add_def wrong_dim_def over_quota_def
        small_baseline_def quiet_log_def some_log_def deque_append_def split: prod.splits)
  obtain r3 w3 where 3: "trigger_retrain (default_settings []) some_readings w2 = (r3, w3)" by fastforce
  then have 4: "r3 = Inr ()" "baseline_store w3 = baseline_store w2"
    using trigger_retrain_frame [OF 3] by auto
  have "?run = acknowledge mem_redis some_message w3"
    unfolding process_quiet_log [OF 1 quiet_assessment_values(2)] using 2 3 r2 4
    by (simp add: thenE_apply)
  then have "detectors (snd ?run) = detectors w3"
    using redis_only_detectors [OF redis_only_acknowledge prod.collapse [symmetric]] by metis
  then have "buffer (baseline_store (snd ?run)) = [[1, 5, 0, 0]]"
    using r2 4 by (simp add: detectors_def)
  then have "baseline_store (snd ?run) \<noteq> baseline_store ?w"
    by (auto simp: worker_at_def small_baseline_def)
  from alerted_log_not_learned [OF thresholds_ok_default prod.collapse [symmetric] this]
  show ?thesis by blast
qed

section \<open>A log is processed once\<close>

lemma get_log_cases:
  assumes "sql_ok D view others" and "get_log D u w = (r, w')"
  obtains d where "others (view (sql w)) d" and "view (sql w') = d"
    and "detectors w' = detectors w" and "conn w' = conn w" and "counters w' = counters w"
    and "\<And>x. r = Inr x \<Longrightarrow> x = (case filter (\<lambda>l. log_key l = u) (logs d) of [] \<Rightarrow> None | l # _ \<Rightarrow> Some l)"
proof -
  obtain r1 w1 where 1: "sqlE D (SelectLog u) w = (r1, w1)" by fastforce
  then have w': "w' = w1" using assms(2)
    by (auto simp: get_log_def bindE_apply returnE_apply raiseE_apply
        split: sum.splits rows.splits list.splits)
  have D: "D (SelectLog u) (sql w) = (r1, sql w1)" using sqlE_cases [OF 1] by blast
  from sql_cases [OF assms(1) D] obtain d where d: "others (view (sql w)) d"
    "view (sql w1) = d" "\<And>x. r1 = Inr x \<Longrightarrow> x = LogRows (filter (\<lambda>l. log_key l = u) (logs d))"
    by (metis run_stmt.simps(2) snd_conv fst_conv sum.inject(2))
  have "x = (case filter (\<lambda>l. log_key l = u) (logs d) of [] \<Rightarrow> None | l # _ \<Rightarrow> Some l)"
    if "r = Inr x" for x
    using assms(2) 1 d(3) that
    by (auto simp: get_log_def bindE_apply returnE_apply raiseE_apply
        split: sum.splits rows.splits list.splits)
  then show thesis using that d sqlE_frame [OF 1] w' by blast
qed

lemma alert_exists_cases:
  assumes "sql_ok D view others" and "alert_exists D u w = (r, w')"
  obtains d where "others (view (sql w)) d" and "view (sql w') = d"
    and "detectors w' = detectors w" and "conn w' = conn w" and "counters w' = counters w"
    and "\<And>x. r = Inr x \<Longrightarrow> x \<longleftrightarrow> u \<in> alert_log ` set (alerts d)"
proof -
  obtain r1 w1 where 1: "sqlE D (SelectAlertsOf u) w = (r1, w1)" by fastforce
  then have w': "w' = w1" using assms(2)
    by (auto simp: alert_exists_def bindE_apply returnE_apply raiseE_apply
        split: sum.splits rows.splits)
  have D: "D (SelectAlertsOf u) (sql w) = (r1, sql w1)" using sqlE_cases [OF 1] by blast
  from sql_cases [OF assms(1) D] obtain d where d: "others (view (sql w)) d"
    "view (sql w1) = d" "\<And>x. r1 = Inr x \<Longrightarrow> x = AlertRows (filter (\<lambda>a. alert_log a = u) (alerts d))"
    by (metis run_stmt.simps(3) snd_conv fst_conv sum.inject(2))
  have "x \<longleftrightarrow> u \<in> alert_log ` set (alerts d)" if "r = Inr x" for x
    using assms(2) 1 d(3) that
    by (auto simp: alert_exists_def bindE_apply returnE_apply raiseE_apply filter_empty_conv
        split: sum.splits rows.splits)
  then show thesis using that d sqlE_frame [OF 1] w' by blast
qed

definition keeps_alerts :: "(sql_db \<Rightarrow> sql_db \<Rightarrow> bool) \<Rightarrow> bool" where
  "keeps_alerts others \<longleftrightarrow> (\<forall>d d'. others d d' \<longrightarrow>
     alert_log ` set (alerts d) \<subseteq> alert_log ` set (alerts d'))"

text \<open>
  C23. A log is alerted once: when a message whose log already has an alert is processed again, and
  the other processes keep the alerts there are, no detector learns anything, no task is spawned
  and the database sees queries only. The message is acknowledged, or retried when the log is gone.
\<close>

theorem reprocessing_is_idle:
  assumes "sql_ok D view others" and "keeps_alerts others"
    and "message_log_id m = Inr v" and "parse_log_id v = Inr u"
    and "u \<in> alert_log ` set (alerts (view (sql w)))"
    and "process_message R D cfg lib rd m w = (r, w')"
  shows "detectors w' = detectors w
    \<and> (\<exists>d. (view (sql w) = d \<or> others (view (sql w)) d) \<and> (view (sql w') = d \<or> others d (view (sql w'))))"
proof (cases "\<not> json_truthy v")
  case True
  obtain r1 w1 where 1: "thenE (retry_or_dlq R (rd_retry rd) m) (returnE ()) w = (r1, w1)" by fastforce
  with True assms(3,6) have "w' = w1" by (simp add: process_message_def bindE_apply liftE_def returnE_apply)
  then show ?thesis
    using redis_only_detectors [OF redis_only_then [OF redis_only_retry redis_only_return] 1] by auto
next
  case False
  show ?thesis
  proof (cases "retry_delay (rd_delay rd) m")
    case (Inl e)
    with False assms(3,6) show ?thesis
      by (auto simp: process_message_def bindE_apply liftE_def returnE_apply raiseE_apply)
  next
    case (Inr _)
    obtain r1 w1 where 1: "get_log D u w = (r1, w1)" by fastforce
    obtain d1 where d1: "others (view (sql w)) d1" "view (sql w1) = d1" "detectors w1 = detectors w"
      using get_log_cases [OF assms(1) 1] by metis
    obtain r2 w2 where 2: "alert_exists D u w1 = (r2, w2)" by fastforce
    obtain d2 where d2: "others (view (sql w1)) d2" "view (sql w2) = d2" "detectors w2 = detectors w1"
      "\<And>x. r2 = Inr x \<Longrightarrow> x \<longleftrightarrow> u \<in> alert_log ` set (alerts d2)"
      using alert_exists_cases [OF assms(1) 2] by metis
    have "u \<in> alert_log ` set (alerts d2)"
      using assms(2,5) d1(1,2) d2(1) unfolding keeps_alerts_def by blast
    then have ex: "r2 = Inr x \<Longrightarrow> x" for x using d2(4) by blast
    obtain r3 w3 where 3: "thenE (retry_or_dlq R (rd_retry rd) m) (returnE ()) w1 = (r3, w3)" by fastforce
    obtain r4 w4 where 4: "acknowledge R m w2 = (r4, w4)" by fastforce
    have "w' = w1 \<or> w' = w2 \<or> w' = w3 \<or> w' = w4"
      using assms(3,4,6) False Inr 1 2 3 4 ex
      by (auto simp: process_message_def bindE_apply liftE_def returnE_apply raiseE_apply
          split: sum.splits option.splits if_splits)
    then show ?thesis
      using d1 d2 redis_only_detectors [OF redis_only_then [OF redis_only_retry redis_only_return] 3]
        redis_only_detectors [OF redis_only_acknowledge 4] by metis
  qed
qed

definition alerted_db :: sql_db where
  "alerted_db = \<lparr>logs = [loud_log], alerts = [\<lparr>alert_key = uuid2, alert_log = uuid1,
     alert_severity = ''HIGH'', alert_reason = ''r'', alert_risk = 1 / 2, alert_breakdown = [],
     alert_type = ''rule_match'', alert_created = 0\<rparr>]\<rparr>"

theorem reprocessing_is_idle_witness:
  "tracker (snd (process_message mem_redis mem_sql (default_settings []) toy_ml some_readings
      some_message (worker_at empty_db alerted_db))) = new_tracker (default_settings [])"
proof -
  have k: "keeps_alerts (=)" by (simp add: keeps_alerts_def)
  have m: "message_log_id some_message = Inr (JStr uuid1)"
    by (simp add: message_log_id_def some_message_def dict_get_or_def dict_get_def)
  have u: "parse_log_id (JStr uuid1) = Inr uuid1" by code_simp
  have a: "uuid1 \<in> alert_log ` set (alerts (sql (worker_at empty_db alerted_db)))"
    by (simp add: worker_at_def alerted_db_def)
  from reprocessing_is_idle [OF sql_ok_mem k m u a prod.collapse [symmetric]]
  show ?thesis by (simp add: detectors_def worker_at_def)
qed

section \<open>Acknowledged logs are decided\<close>

lemma evaluate_severity:
  assumes "evaluate now lvl msg ip tr = (Some rule, tr')"
  shows "severity rule \<in> {''HIGH'', ''MEDIUM''}"
  using assms by (auto simp: evaluate_def Let_def keyword_result_def burst_result_def
      split: if_splits option.splits prod.splits)

lemma final_severity_cases:
  "final_severity (compute cfg s i t rs) \<in> {''NONE'', ''LOW'', ''MEDIUM'', ''HIGH''} \<union> set_option rs"
  by (auto simp: compute_def Let_def threshold_severity_def split: option.splits)

lemma assess_severity:
  assumes "assess cfg lib rd l w = (Inr a, w')" and "final_severity (as_result a) \<noteq> ''NONE''"
  shows "final_severity (as_result a) \<in> set alert_severities"
proof -
  obtain rule tr where e: "evaluate (rd_rule rd) (log_lvl l) (log_message l) (log_ip l) (tracker w) = (rule, tr)"
    by fastforce
  obtain s i where a: "as_result a = compute cfg s i (rule \<noteq> None) (map_option severity rule)"
    using assms(1) e by (auto simp: assess_def combine_def split: prod.splits sum.splits)
  have "set_option (map_option severity rule) \<subseteq> {''HIGH'', ''MEDIUM''}"
    using evaluate_severity [of "rd_rule rd" "log_lvl l" "log_message l" "log_ip l" "tracker w"] e
    by (cases rule) auto
  then show ?thesis
    using final_severity_cases [of cfg s i "rule \<noteq> None" "map_option severity rule"] assms(2)
    unfolding a alert_severities_def by auto
qed

lemma commit_alert_cases:
  assumes "sql_ok D view others" and "commit_alert D al w = (r, w')"
  obtains d where "others (view (sql w)) d"
    and "r = Inr False \<Longrightarrow> apply_change (InsertAlert al) d = Inr (view (sql w'))"
    and "r = Inr True \<Longrightarrow> apply_change (InsertAlert al) d = Inl IntegrityError \<and> view (sql w') = d"
proof -
  obtain r1 w1 where 1: "sqlE D (Commit [InsertAlert al]) w = (r1, w1)" by fastforce
  have w': "w' = w1" and r: "r = (case r1 of Inl e \<Rightarrow> if e = IntegrityError then Inr True else Inl e
      | Inr _ \<Rightarrow> Inr False)"
    using assms(2) 1 by (auto simp: commit_alert_def tryE_apply bindE_apply returnE_apply raiseE_apply
        split: sum.splits if_splits)
  have D: "D (Commit [InsertAlert al]) (sql w) = (r1, sql w1)" using sqlE_cases [OF 1] by blast
  from sql_cases [OF assms(1) D] obtain d where d: "others (view (sql w)) d"
    "\<And>x. r1 = Inr x \<Longrightarrow> run_stmt (Commit [InsertAlert al]) d = (Inr x, view (sql w1))"
    "r1 = Inl IntegrityError \<Longrightarrow>
       run_stmt (Commit [InsertAlert al]) d = (Inl IntegrityError, view (sql w1))" by metis
  show thesis
  proof (rule that [OF d(1)])
    assume "r = Inr False"
    then obtain x where "r1 = Inr x" using r by (auto split: sum.splits if_splits)
    from d(2) [OF this] show "apply_change (InsertAlert al) d = Inr (view (sql w'))"
      unfolding w' by (auto simp del: apply_change.simps split: sum.splits)
  next
    assume "r = Inr True"
    then have "r1 = Inl IntegrityError" using r by (auto split: sum.splits if_splits)
    from d(3) [OF this]
    show "apply_change (InsertAlert al) d = Inl IntegrityError \<and> view (sql w') = d"
      unfolding w' by (auto simp del: apply_change.simps split: sum.splits)
  qed
qed

text \<open>
  What the other processes do while a log is processed: they keep its row and the alerts, and they
  do not use the identifier that was drawn for the new alert.
\<close>

definition peaceful :: "(sql_db \<Rightarrow> sql_db \<Rightarrow> bool) \<Rightarrow> string \<Rightarrow> string \<Rightarrow> bool" where
  "peaceful others u key \<longleftrightarrow> (\<forall>d d'. others d d' \<longrightarrow>
     alert_log ` set (alerts d) \<subseteq> alert_log ` set (alerts d')
     \<and> (u \<in> log_key ` set (logs d) \<longrightarrow> u \<in> log_key ` set (logs d'))
     \<and> (key \<notin> alert_key ` set (alerts d) \<longrightarrow> key \<notin> alert_key ` set (alerts d')))"

lemma insert_alert_present:
  "apply_change (InsertAlert al) d = Inr d' \<Longrightarrow> alert_log al \<in> alert_log ` set (alerts d')"
  by (auto split: if_splits)

lemma insert_alert_conflict:
  assumes "apply_change (InsertAlert al) d = Inl IntegrityError"
    and "alert_key al \<notin> alert_key ` set (alerts d)" and "alert_log al \<in> log_key ` set (logs d)"
    and "alert_severity al \<in> set alert_severities"
  shows "alert_log al \<in> alert_log ` set (alerts d)"
  using assms by (auto split: if_splits)

lemma raise_alert_decides:
  assumes "sql_ok D view others" and "peaceful others (log_key l) (rd_alert_key rd)"
    and "log_key l \<in> log_key ` set (logs (view (sql w)))"
    and "rd_alert_key rd \<notin> alert_key ` set (alerts (view (sql w)))"
    and "final_severity (as_result a) \<in> set alert_severities"
    and "raise_alert R D rd l a w = (Inr duplicate, w')"
  shows "log_key l \<in> alert_log ` set (alerts (view (sql w')))"
proof -
  let ?al = "new_alert rd l a"
  have n: "final_severity (as_result a) \<noteq> ''NONE''" using assms(5) by (auto simp: alert_severities_def)
  obtain r1 w1 where 1: "commit_alert D ?al w = (r1, w1)" by fastforce
  obtain d where d: "others (view (sql w)) d"
    and f: "r1 = Inr False \<Longrightarrow> apply_change (InsertAlert ?al) d = Inr (view (sql w1))"
    and t: "r1 = Inr True \<Longrightarrow> apply_change (InsertAlert ?al) d = Inl IntegrityError \<and> view (sql w1) = d"
    using commit_alert_cases [OF assms(1) 1] by metis
  have free: "log_key l \<in> log_key ` set (logs d)" "rd_alert_key rd \<notin> alert_key ` set (alerts d)"
    using assms(2,3,4) d unfolding peaceful_def by blast+
  obtain r2 w2 where 2: "increment_async R ''alerts_created'' 1 w1 = (r2, w2)" by fastforce
  have s2: "sql w2 = sql w1" using redis_only_detectors [OF redis_only_increment 2] by blast
  have "sql w' = sql w1" and b: "\<exists>b. r1 = Inr b"
    using assms(6) n 1 2 s2
    by (auto simp: raise_alert_def bindE_apply thenE_apply spawn_def modifyE_apply returnE_apply
        split: sum.splits if_splits)
  moreover from b obtain b where "r1 = Inr b" ..
  moreover have "alert_log ?al = log_key l" "alert_key ?al = rd_alert_key rd"
    "alert_severity ?al = final_severity (as_result a)" by (simp_all add: new_alert_def)
  ultimately show ?thesis
    using f t free assms(5) insert_alert_present [of ?al d] insert_alert_conflict [of ?al d]
    by (cases b) (simp_all del: apply_change.simps)
qed

lemma processed_log_decides:
  assumes "sql_ok D view others" and "peaceful others (log_key l) (rd_alert_key rd)"
    and "log_key l \<in> log_key ` set (logs (view (sql w)))"
    and "rd_alert_key rd \<notin> alert_key ` set (alerts (view (sql w)))"
    and "process_log R D cfg lib rd m l w = (Inr (), w')"
  shows "\<exists>a w1. assess cfg lib rd l w = (Inr a, w1) \<and>
    (final_severity (as_result a) = ''NONE'' \<or> log_key l \<in> alert_log ` set (alerts (view (sql w'))))"
proof -
  from assms(5) obtain a w1 where 1: "assess cfg lib rd l w = (Inr a, w1)"
    by (auto simp: process_log_def bindE_Inr_iff)
  note f1 = assess_frame [OF 1]
  show ?thesis
  proof (cases "final_severity (as_result a) = ''NONE''")
    case True
    with 1 show ?thesis by blast
  next
    case False
    with 1 have sev: "final_severity (as_result a) \<in> set alert_severities" by (rule assess_severity)
    from assms(5) 1 obtain dup w2 where 2: "raise_alert R D rd l a w1 = (Inr dup, w2)"
      and rest: "(if dup then acknowledge R m
         else thenE (learn_baseline cfg l a) (thenE (trigger_retrain cfg rd) (acknowledge R m))) w2
         = (Inr (), w')"
      by (auto simp: process_log_def bindE_Inr_iff)
    have al: "log_key l \<in> alert_log ` set (alerts (view (sql w2)))"
      using raise_alert_decides [OF assms(1,2) _ _ sev 2] assms(3,4) f1 by simp
    have ack: "acknowledge R m v = (r, v') \<Longrightarrow> sql v' = sql v" for v r v'
      using redis_only_detectors [OF redis_only_acknowledge] by blast
    have "sql w' = sql w2"
    proof (cases dup)
      case True
      with rest ack show ?thesis by simp
    next
      case False
      with rest obtain w3 w4 where 3: "learn_baseline cfg l a w2 = (Inr (), w3)"
        and 4: "trigger_retrain cfg rd w3 = (Inr (), w4)" and 5: "acknowledge R m w4 = (Inr (), w')"
        by (auto simp: thenE_Inr_iff)
      have "sql w3 = sql w2" using learn_baseline_cases [OF 3] by (elim disjE conjE) simp_all
      moreover have "sql w4 = sql w3" using trigger_retrain_frame [OF 4] by auto
      ultimately show ?thesis using ack [OF 5] by simp
    qed
    with al 1 show ?thesis by auto
  qed
qed


lemma loud_compute:
  "compute (default_settings []) (fl (83 / 10000)) 0 True (Some ''HIGH'') = \<lparr>risk_score = fl (5025 / 10000),
     breakdown = [(''rule'', 1), (''statistical'', fl (83 / 10000)), (''isolation'', 0)],
     anomaly_type = ''rule_match'', final_severity = ''HIGH''\<rparr>"
  by code_simp

lemma loud_alert_inserted:
  "apply_change (InsertAlert (new_alert some_readings loud_log loud_assessment)) (some_db loud_log)
   = Inr \<lparr>logs = [loud_log], alerts = [(new_alert some_readings loud_log loud_assessment)
       \<lparr>alert_risk := numeric_5_4 (fl (5025 / 10000))\<rparr>]\<rparr>"
proof -
  have "fl (5025 / 10000) < 10" and "0 \<le> fl (5025 / 10000)" by code_simp+
  then show ?thesis
    by (simp add: new_alert_def loud_assessment_def combine_def loud_compute alert_fits_def some_db_def
        loud_log_def some_log_def some_readings_def alert_severities_def)
qed

lemma acknowledge_mem_returns: "\<exists>w'. acknowledge mem_redis m w = (Inr (), w')"
  by (simp add: acknowledge_def redisE_apply redis_lrem_def redis_call_def bindE_apply returnE_apply
      decode_reply_def)

lemma loud_process:
  "\<exists>w'. process_log mem_redis mem_sql (default_settings []) toy_ml some_readings some_message loud_log
      (worker_at empty_db (some_db loud_log)) = (Inr (), w')"
proof -
  let ?w = "worker_at empty_db (some_db loud_log)" and ?cfg = "default_settings []"
  obtain w1 where 1: "assess ?cfg toy_ml some_readings loud_log ?w = (Inr loud_assessment, w1)"
    using start_assess(2) [of toy_ml empty_db "some_db loud_log"] by (metis prod.collapse)
  have s1: "sql w1 = some_db loud_log" using assess_frame [OF 1] by (simp add: worker_at_def)
  obtain w2 where 2: "commit_alert mem_sql (new_alert some_readings loud_log loud_assessment) w1 = (Inr False, w2)"
    using loud_alert_inserted s1
    by (simp add: commit_alert_def tryE_apply bindE_apply sqlE_def zoomE_apply mem_sql_def returnE_apply
        del: apply_change.simps)
  obtain c where 3: "increment_async mem_redis ''alerts_created'' 1 w2
      = (Inr (), w2\<lparr>counters := increment ''alerts_created'' 1 (counters w2), conn := c\<rparr>)"
    using increment_async_returns [OF redis_ok_mem] by metis
  have "\<exists>w4. raise_alert mem_redis mem_sql some_readings loud_log loud_assessment w1 = (Inr False, w4)"
    by (simp add: raise_alert_def loud_assessment_values bindE_apply thenE_apply 2 3 spawn_def
        modifyE_apply returnE_apply)
  then obtain w4 where 4: "raise_alert mem_redis mem_sql some_readings loud_log loud_assessment w1 = (Inr False, w4)"
    by blast
  obtain r5 w5 where 5: "trigger_retrain ?cfg some_readings w4 = (r5, w5)" by fastforce
  have r5: "r5 = Inr ()" using trigger_retrain_frame [OF 5] by blast
  have "learn_baseline ?cfg loud_log loud_assessment w4 = (Inr (), w4)"
    using loud_assessment_values by (auto simp: learn_baseline_def returnE_apply)
  with 1 4 5 r5 acknowledge_mem_returns [of some_message w5] show ?thesis
    by (simp add: process_log_def bindE_apply thenE_apply)
qed


end
