(* ===== verification/WorkerRounds.thy ===== *)
theory WorkerRounds
  imports WorkerSafety
begin

text \<open>
  Whole rounds of the worker: what they do to the messages in flight when Redis answers, and how a
  round loses a message when it does not.
\<close>

section \<open>Retries and acknowledgements of the message at the head\<close>

definition at_head :: "queue_message \<Rightarrow> redis_db \<Rightarrow> bool" where
  "at_head m d \<longleftrightarrow> (\<exists>p. rlists d PROCESSING_QUEUE = retry_raw m # p)
     \<and> payload_of (retry_raw m) = dict_get (msg_fields m) ''payload''"

lemma at_head_cong: "rlists d' = rlists d \<Longrightarrow> at_head m d' = at_head m d"
  by (simp add: at_head_def)

lemma in_flight_at_head:
  assumes "at_head m d"
  shows "in_flight d = add_mset (dict_get (msg_fields m) ''payload'')
    (in_flight (set_list PROCESSING_QUEUE (remove1 (retry_raw m) (rlists d PROCESSING_QUEUE)) d))"
  using assms in_flight_remove [of "retry_raw m" d] by (auto simp: at_head_def)

lemma redisE_lrem_up:
  assumes "redis_ok R view" and "redis_up R"
  shows "\<exists>w'. redisE (redis_lrem R k v) w = (Inr (), w')
    \<and> db view w' = set_list k (remove1 v (rlists (db view w) k)) (db view w)"
  using redis_lrem_up [OF assms, of k v "conn w"] by (auto simp: redisE_apply)

lemma redisE_lpush_up:
  assumes "redis_ok R view" and "redis_up R"
  shows "\<exists>w'. redisE (redis_lpush R k v) w = (Inr (), w')
    \<and> db view w' = set_list k (v # rlists (db view w) k) (db view w)"
  using redis_lpush_up [OF assms, of k v "conn w"] by (auto simp: redisE_apply)

lemma retry_up:
  assumes "redis_ok R view" and "redis_up R" and "at_head m (db view w)"
    and "retry_or_dlq R now m w = (r, w')"
  shows "in_flight (db view w') = in_flight (db view w) \<and> (\<forall>e. r = Inl e \<longrightarrow> w' = w)"
proof (cases "json_int (dict_get_or (public (msg_fields m)) ''retry_count'' (JInt 0))")
  case None
  with assms(4) show ?thesis by (simp add: retry_or_dlq_def raiseE_apply)
next
  case (Some n0)
  obtain w1 where 1: "redisE (redis_lrem R PROCESSING_QUEUE (retry_raw m)) w = (Inr (), w1)"
    using redisE_lrem_up [OF assms(1,2)] by blast
  obtain w2 where 2: "redisE (redis_lpush R (retry_target (n0 + 1)) (retry_entry now m (n0 + 1))) w1 = (Inr (), w2)"
    using redisE_lpush_up [OF assms(1,2)] by blast
  obtain w3 where 3: "increment_async R (retry_counter (n0 + 1)) 1 w2 = (Inr (), w3)"
    using increment_async_returns [OF assms(1)] by metis
  have r: "r = Inr (n0 + 1 < MAX_RETRIES)"
    using assms(4) 1 2 3 by (simp add: retry_or_dlq_alt [OF Some] thenE_apply returnE_apply)
  with retry_cases [OF assms(1) Some assms(4)]
  have "rlists (db view w') = rlists (retry_pushed now m (n0 + 1) (retry_removed m (db view w)))" by auto
  from in_flight_cong [OF this] have "in_flight (db view w') = in_flight (db view w)"
    using in_flight_at_head [OF assms(3)] by (simp add: in_flight_retry_pushed retry_removed_def)
  with r show ?thesis by simp
qed

text \<open>The lists after the message at the head was acknowledged.\<close>

definition acked :: "queue_message \<Rightarrow> (string \<Rightarrow> stored list) \<Rightarrow> string \<Rightarrow> stored list" where
  "acked m l = l(PROCESSING_QUEUE := remove1 (retry_raw m) (l PROCESSING_QUEUE))"

lemma in_flight_acked:
  assumes "at_head m d" and "rlists d' = acked m (rlists d)"
  shows "in_flight d = add_mset (dict_get (msg_fields m) ''payload'') (in_flight d')"
proof -
  have "rlists d' = rlists (set_list PROCESSING_QUEUE (remove1 (retry_raw m) (rlists d PROCESSING_QUEUE)) d)"
    using assms(2) by (simp add: acked_def)
  from in_flight_cong [OF this] in_flight_at_head [OF assms(1)] show ?thesis by simp
qed

lemma acknowledge_up:
  assumes "redis_ok R view" and "redis_up R" and "msg_raw m = Some u" and "acknowledge R m w = (r, w')"
  shows "r = Inr () \<and> rlists (db view w') = acked m (rlists (db view w))"
proof -
  have u: "retry_raw m = u" using assms(3) by (simp add: retry_raw_def Let_def)
  obtain w1 where "redisE (redis_lrem R PROCESSING_QUEUE u) w = (Inr (), w1)"
    "db view w1 = set_list PROCESSING_QUEUE (remove1 u (rlists (db view w) PROCESSING_QUEUE)) (db view w)"
    using redisE_lrem_up [OF assms(1,2)] by blast
  with assms(3,4) u show ?thesis by (simp add: acknowledge_def acked_def)
qed

section \<open>Processing with Redis answering\<close>

lemma increment_lists:
  assumes "redis_ok R view" and "increment_async R n a w = (r, w')"
  shows "r = Inr () \<and> rlists (db view w') = rlists (db view w)"
  using increment_async_returns [OF assms(1), of n a w] assms(2) by auto

lemma raise_alert_lists:
  assumes "redis_ok R view" and "raise_alert R D rd l a w = (r, w')"
  shows "rlists (db view w') = rlists (db view w)"
proof (cases "final_severity (as_result a) = ''NONE''")
  case True
  with raise_alert_frame [OF assms(2)] show ?thesis by simp
next
  case False
  obtain r1 w1 where 1: "commit_alert D (new_alert rd l a) w = (r1, w1)" by fastforce
  obtain r2 w2 where 2: "increment_async R ''alerts_created'' 1 w1 = (r2, w2)" by fastforce
  have c1: "conn w1 = conn w" using commit_alert_frame [OF 1] by blast
  have "w' = w1 \<or> w' = w2 \<or> (\<exists>ts. w' = w2\<lparr>tasks := ts\<rparr>)"
    using assms(2) False 1 2
    by (auto simp: raise_alert_def bindE_apply thenE_apply spawn_def modifyE_apply returnE_apply
        split: sum.splits if_splits)
  then show ?thesis using c1 increment_lists [OF assms(1) 2] by auto
qed

text \<open>What processing does to the lists: it acknowledges, or it retries, or it raises with them as they were.\<close>

lemma process_log_up:
  assumes "redis_ok R view" and "redis_up R" and "msg_raw m = Some u"
    and "process_log R D cfg lib rd m l w = (r, w')"
  shows "r = Inr () \<and> rlists (db view w') = acked m (rlists (db view w))
    \<or> (\<exists>e. r = Inl e) \<and> rlists (db view w') = rlists (db view w)"
proof -
  obtain r1 w1 where 1: "assess cfg lib rd l w = (r1, w1)" by fastforce
  note f1 = assess_frame [OF 1]
  show ?thesis
  proof (cases r1)
    case (Inl e)
    with 1 f1 assms(4) show ?thesis by (auto simp: process_log_def bindE_apply)
  next
    case (Inr a)
    obtain r2 w2 where 2: "raise_alert R D rd l a w1 = (r2, w2)" by fastforce
    have l2: "rlists (db view w2) = rlists (db view w)"
      using raise_alert_lists [OF assms(1) 2] f1 by simp
    obtain r3 w3 where 3: "learn_baseline cfg l a w2 = (r3, w3)" by fastforce
    have c3: "conn w3 = conn w2" using learn_baseline_cases [OF 3] by (elim disjE conjE) simp_all
    obtain r4 w4 where 4: "trigger_retrain cfg rd w3 = (r4, w4)" by fastforce
    have c4: "conn w4 = conn w3" and r4: "r4 = Inr ()" using trigger_retrain_frame [OF 4] by auto
    have acked: "r' = Inr () \<and> rlists (db view v') = acked m (rlists (db view w))"
      if "acknowledge R m v = (r', v')" and "rlists (db view v) = rlists (db view w)" for v r' v'
      using acknowledge_up [OF assms(1-3) that(1)] that(2) by simp
    obtain r5 w5 where 5: "acknowledge R m w2 = (r5, w5)" by fastforce
    obtain r6 w6 where 6: "acknowledge R m w4 = (r6, w6)" by fastforce
    have "(\<exists>e. r = Inl e) \<and> w' = w2 \<or> (r = r5 \<and> w' = w5) \<or> (\<exists>e. r = Inl e) \<and> w' = w3 \<or> (r = r6 \<and> w' = w6)"
      using assms(4) 1 2 3 4 5 6 Inr r4
      by (auto simp: process_log_def bindE_apply thenE_apply split: sum.splits if_splits)
    then show ?thesis
      using l2 c3 c4 acked [OF 5 l2] acked [OF 6] by auto
  qed
qed

text \<open>How the processing of a message ends: each way starts from a state with the same connection.\<close>

lemma process_message_split:
  assumes "sql_ok D dview others" and "process_message R D cfg lib rd m w = (r, w')"
  obtains (raised) e where "r = Inl e" and "conn w' = conn w"
    | (retried) v where "thenE (retry_or_dlq R (rd_retry rd) m) (returnE ()) v = (r, w')" and "conn v = conn w"
    | (skipped) v j u where "acknowledge R m v = (r, w')" and "conn v = conn w"
        and "message_log_id m = Inr j" and "parse_log_id j = Inr u"
        and "u \<in> alert_log ` set (alerts (dview (sql v)))"
    | (processed) l v j d where "process_log R D cfg lib rd m l v = (r, w')" and "conn v = conn w"
        and "message_log_id m = Inr j" and "parse_log_id j = Inr (log_key l)"
        and "others (dview (sql w)) d" and "others d (dview (sql v))" and "l \<in> set (logs d)"
        and "detectors v = detectors w"
proof (cases "message_log_id m")
  case (Inl e)
  with assms(2) have "r = Inl e \<and> w' = w"
    by (simp add: process_message_def bindE_apply liftE_def raiseE_apply)
  then show thesis using raised by simp
next
  case v: (Inr v)
  show thesis
  proof (cases "json_truthy v \<and> \<not> isl (retry_delay (rd_delay rd) m) \<and> \<not> isl (parse_log_id v)")
    case False
    with v assms(2) have "thenE (retry_or_dlq R (rd_retry rd) m) (returnE ()) w = (r, w')
        \<or> (\<exists>e. r = Inl e) \<and> w' = w"
      by (auto simp: process_message_def bindE_apply liftE_def returnE_apply raiseE_apply isl_def
          split: if_splits sum.splits)
    then show thesis using raised retried by blast
  next
    case True
    then obtain x u where x: "retry_delay (rd_delay rd) m = Inr x" "parse_log_id v = Inr u"
      by (cases "retry_delay (rd_delay rd) m"; cases "parse_log_id v") auto
    obtain r1 w1 where 1: "get_log D u w = (r1, w1)" by fastforce
    obtain d1 where d1: "others (dview (sql w)) d1" "dview (sql w1) = d1" and c1: "conn w1 = conn w"
      and dt1: "detectors w1 = detectors w"
      and found: "\<And>x. r1 = Inr x \<Longrightarrow>
        x = (case filter (\<lambda>l. log_key l = u) (logs d1) of [] \<Rightarrow> None | l # _ \<Rightarrow> Some l)"
      using get_log_cases [OF assms(1) 1] by metis
    obtain r2 w2 where 2: "alert_exists D u w1 = (r2, w2)" by fastforce
    obtain d2 where d2: "others (dview (sql w1)) d2" "dview (sql w2) = d2" and c2: "conn w2 = conn w"
      and dt2: "detectors w2 = detectors w"
      and exists: "\<And>x. r2 = Inr x \<Longrightarrow> x \<longleftrightarrow> u \<in> alert_log ` set (alerts d2)"
      using alert_exists_cases [OF assms(1) 2] c1 dt1 by metis
    have key: "log_key l = u \<and> l \<in> set (logs d1)" if "r1 = Inr (Some l)" for l
    proof -
      from found [OF that] have "l \<in> set (filter (\<lambda>l. log_key l = u) (logs d1))"
        by (cases "filter (\<lambda>l. log_key l = u) (logs d1)") auto
      then show ?thesis by simp
    qed
    have "(\<exists>e. r = Inl e) \<and> (w' = w1 \<or> w' = w2)
        \<or> thenE (retry_or_dlq R (rd_retry rd) m) (returnE ()) w1 = (r, w')
        \<or> acknowledge R m w2 = (r, w') \<and> r2 = Inr True
        \<or> (\<exists>l. process_log R D cfg lib rd m l w2 = (r, w') \<and> r1 = Inr (Some l))"
      using assms(2) v True x 1 2
      by (auto simp: process_message_def bindE_apply liftE_def returnE_apply raiseE_apply
          split: sum.splits option.splits if_splits)
    then show thesis
    proof (elim disjE conjE exE)
      fix e assume "r = Inl e" "w' = w1" then show thesis using raised c1 by simp
    next
      fix e assume "r = Inl e" "w' = w2" then show thesis using raised c2 by simp
    next
      assume "thenE (retry_or_dlq R (rd_retry rd) m) (returnE ()) w1 = (r, w')"
      then show thesis using retried c1 by blast
    next
      assume "acknowledge R m w2 = (r, w')" "r2 = Inr True"
      then show thesis using skipped [OF _ c2 v x(2)] exists d2(2) by simp
    next
      fix l assume "process_log R D cfg lib rd m l w2 = (r, w')" "r1 = Inr (Some l)"
      then show thesis using processed [OF _ c2 v] x(2) key d1 d2 dt2 by simp
    qed
  qed
qed

lemma process_message_up:
  assumes "redis_ok R view" and "redis_up R" and "sql_ok D dview others" and "msg_raw m = Some u"
    and "process_message R D cfg lib rd m w = (r, w')"
  shows "r = Inr () \<and> rlists (db view w') = acked m (rlists (db view w))
    \<or> (\<exists>v. thenE (retry_or_dlq R (rd_retry rd) m) (returnE ()) v = (r, w') \<and> conn v = conn w)
    \<or> (\<exists>e. r = Inl e) \<and> rlists (db view w') = rlists (db view w)"
  using assms(3,5)
proof (cases rule: process_message_split)
  case (raised e)
  then show ?thesis by simp
next
  case (retried v)
  then show ?thesis by blast
next
  case (skipped v j u')
  from acknowledge_up [OF assms(1,2,4) skipped(1)] skipped(2) show ?thesis by simp
next
  case (processed l v j d)
  from process_log_up [OF assms(1,2,4) processed(1)] processed(2) show ?thesis by auto
qed

lemma process_message_in_flight:
  assumes "redis_ok R view" and "redis_up R" and "sql_ok D dview others"
    and "at_head m (db view w)" and "msg_raw m = Some u"
    and "process_message R D cfg lib rd m w = (r, w')"
  shows "r = Inr () \<and> (in_flight (db view w') = in_flight (db view w)
      \<or> in_flight (db view w) = add_mset (dict_get (msg_fields m) ''payload'') (in_flight (db view w')))
    \<or> (\<exists>e. r = Inl e) \<and> rlists (db view w') = rlists (db view w)"
  using process_message_up [OF assms(1-3,5,6)]
proof (elim disjE exE conjE)
  fix v
  assume run: "thenE (retry_or_dlq R (rd_retry rd) m) (returnE ()) v = (r, w')" and v: "conn v = conn w"
  obtain r1 v1 where 1: "retry_or_dlq R (rd_retry rd) m v = (r1, v1)" by fastforce
  have "at_head m (db view v)" using assms(4) v by simp
  from retry_up [OF assms(1,2) this 1] run v 1 show ?thesis
    by (cases r1) (auto simp: thenE_apply returnE_apply)
qed (use in_flight_acked [OF assms(4)] in auto)

lemma dequeue_tagged:
  assumes "redis_ok R view" and "dequeue R now w = (Inr (Some m), w1)"
  shows "\<exists>u. msg_raw m = Some u \<and> at_head m (db view w1)"
proof -
  obtain d u where mm: "u = json_dumps (JObj (public (tagged d now)))"
      "m = \<lparr>msg_fields = tagged d now, msg_raw = Some u\<rparr>"
    and p: "rlists (db view w1) PROCESSING_QUEUE = u # rlists (db view w) PROCESSING_QUEUE"
    by (rule dequeue_returned [OF assms]) (metis fun_upd_same)
  then show ?thesis by (simp add: at_head_def mm retry_raw_def dict_get_public)
qed

lemma worker_round_keeps:
  assumes "redis_ok R view" and "redis_up R" and "sql_ok D dview others"
    and "worker_round R D cfg lib rd w = (r, w')"
  shows "r = Inr () \<and> (in_flight (db view w') = in_flight (db view w)
    \<or> (\<exists>m w1. dequeue R (rd_dequeued rd) w = (Inr (Some m), w1)
        \<and> process_message R D cfg lib rd m w1 = (Inr (), w')
        \<and> in_flight (db view w) = add_mset (dict_get (msg_fields m) ''payload'') (in_flight (db view w'))))"
proof -
  obtain r1 w1 where 1: "dequeue R (rd_dequeued rd) w = (r1, w1)" by fastforce
  have f1: "in_flight (db view w1) = in_flight (db view w)"
    by (rule dequeue_conserves [OF assms(1) 1])
  show ?thesis
  proof (cases "\<exists>m. r1 = Inr (Some m)")
    case False
    with 1 assms(4) have "r = Inr () \<and> w' = w1"
      by (auto simp: worker_round_def tryE_apply bindE_apply returnE_apply split: sum.splits option.splits)
    with f1 show ?thesis by simp
  next
    case True
    then obtain m where m: "r1 = Inr (Some m)" by blast
    obtain u where raw: "msg_raw m = Some u" and h: "at_head m (db view w1)"
      using dequeue_tagged [OF assms(1) 1 [unfolded m]] by blast
    obtain r2 w2 where 2: "process_message R D cfg lib rd m w1 = (r2, w2)" by fastforce
    note c = process_message_in_flight [OF assms(1-3) h raw 2]
    show ?thesis
    proof (cases r2)
      case (Inr y)
      with 1 2 m assms(4) have "r = Inr () \<and> w' = w2"
        by (simp add: worker_round_def handle_message_def tryE_apply bindE_apply)
      with c Inr f1 1 2 m show ?thesis by (cases y) auto
    next
      case (Inl e)
      with c have l: "rlists (db view w2) = rlists (db view w1)" by simp
      obtain r3 w3 where 3: "retry_or_dlq R (rd_retry2 rd) m w2 = (r3, w3)" by fastforce
      have "at_head m (db view w2)" using h at_head_cong [OF l] by simp
      from retry_up [OF assms(1,2) this 3] have "in_flight (db view w3) = in_flight (db view w)"
        using in_flight_cong [OF l] f1 by simp
      moreover have "r = Inr () \<and> w' = w3"
        using 1 2 3 m Inl assms(4)
        by (auto simp: worker_round_def handle_message_def tryE_apply bindE_apply thenE_apply
            returnE_apply split: sum.splits)
      ultimately show ?thesis by simp
    qed
  qed
qed

text \<open>
  C7. While Redis answers, a round of the worker loses nothing, whatever the database, the model and
  the message do: the round returns, and the messages in flight are what they were, or they are
  fewer by exactly the message that the round dequeued and whose processing came to its end.
\<close>

theorem worker_round_loses_nothing:
  assumes "redis_ok R view" and "redis_up R" and "sql_ok D dview others"
    and "worker_round R D cfg lib rd w = (r, w')"
  shows "r = Inr () \<and> (in_flight (db view w') = in_flight (db view w)
    \<or> (\<exists>m w1. dequeue R (rd_dequeued rd) w = (Inr (Some m), w1)
        \<and> process_message R D cfg lib rd m w1 = (Inr (), w')
        \<and> in_flight (db view w) = add_mset (dict_get (msg_fields m) ''payload'') (in_flight (db view w'))))"
  using assms by (rule worker_round_keeps)

theorem worker_round_loses_nothing_witness:
  "fst (worker_round mem_redis mem_sql (default_settings []) toy_ml some_readings
     (worker_at (set_list MAIN_QUEUE [some_entry] empty_db) (some_db quiet_log))) = Inr ()"
  using worker_round_loses_nothing [OF redis_ok_mem redis_up_mem sql_ok_mem prod.collapse [symmetric],
      of "default_settings []" toy_ml some_readings
      "worker_at (set_list MAIN_QUEUE [some_entry] empty_db) (some_db quiet_log)"] by blast

section \<open>How a round loses a message\<close>

text \<open>Two calls for the dequeue, one for the removal, and the push does not reach the server.\<close>

definition losing_worker :: "(fault list \<times> redis_db, rat, sql_fault list \<times> sql_db) worker" where
  "losing_worker = worker_at ([Works, Works, Works, Unreachable], set_list MAIN_QUEUE [some_entry] empty_db)
     ([Fails], some_db quiet_log)"

text \<open>
  C25. One failed query and one failed push lose a message without any crash: the round returns
  normally, the message that was in flight is in no list, and the log it names is marked as
  enqueued, so the sweep of the next start does not select it either.
\<close>

theorem worker_round_can_lose_message:
  "in_flight (db snd losing_worker) = {#Some (JObj [(''log_id'', JStr uuid1)])#}
   \<and> fst (worker_round sim_redis sim_sql (default_settings []) toy_ml some_readings losing_worker) = Inr ()
   \<and> in_flight (db snd (snd (worker_round sim_redis sim_sql (default_settings []) toy_ml
        some_readings losing_worker))) = {#}
   \<and> fst (run_stmt SelectUnenqueued (snd (sql (snd (worker_round sim_redis sim_sql
        (default_settings []) toy_ml some_readings losing_worker))))) = Inr (LogRows [])"
proof -
  let ?run = "worker_round sim_redis sim_sql (default_settings []) toy_ml some_readings losing_worker"
  have "(let d = db snd (snd ?run) in (rlists d MAIN_QUEUE, rlists d PROCESSING_QUEUE, rlists d DLQ)) = ([], [], [])"
    by code_simp
  then have lists: "in_flight (db snd (snd ?run)) = {#}" by (simp add: Let_def in_flight_def)
  have "in_flight (db snd losing_worker) = {#Some (JObj [(''log_id'', JStr uuid1)])#}"
    by (simp add: in_flight_def losing_worker_def worker_at_def some_entry_def empty_db_def)
  moreover have "fst ?run = Inr ()" by code_simp
  moreover have "fst (run_stmt SelectUnenqueued (snd (sql (snd ?run)))) = Inr (LogRows [])" by code_simp
  ultimately show ?thesis using lists by blast
qed

end
