(* ===== verification/QueueMachine.thy ===== *)
theory QueueMachine
  imports QueueDelivery
begin

text \<open>
  The queue as a state machine: producers that enqueue, one worker that takes a message and
  finishes, retries or loses it in a crash, and the recovery at its start. Every step may meet
  failures of the connection. The invariant bounds the retry counts in every reachable state.
\<close>

section \<open>The steps\<close>

text \<open>The state: the process state, and the message the worker has in hand.\<close>

type_synonym ('r, 'z) queue_state = "('r, 'z) env_scheme \<times> queue_message option"

inductive queue_step ::
  "'r redis_conn \<Rightarrow> settings \<Rightarrow> ('r, 'z) queue_state \<Rightarrow> ('r, 'z) queue_state \<Rightarrow> bool"
  for R cfg where
  produce: "enqueue R cfg now p w = (r, w') \<Longrightarrow> queue_step R cfg (w, h) (w', h)"
| take_one: "dequeue R now w = (r, w') \<Longrightarrow>
     queue_step R cfg (w, None) (w', case r of Inr m \<Rightarrow> m | Inl _ \<Rightarrow> None)"
| finish: "acknowledge R m w = (r, w') \<Longrightarrow> queue_step R cfg (w, Some m) (w', None)"
| fail: "retry_or_dlq R now m w = (r, w') \<Longrightarrow>
     queue_step R cfg (w, Some m) (w', case r of Inr _ \<Rightarrow> None | Inl _ \<Rightarrow> Some m)"
| crash: "queue_step R cfg (w, h) (w, None)"
| restart: "recover_processing_queue R now w = (r, w') \<Longrightarrow> queue_step R cfg (w, None) (w', None)"

inductive queue_reachable ::
  "'r redis_conn \<Rightarrow> settings \<Rightarrow> ('r \<Rightarrow> redis_db) \<Rightarrow> ('r, 'z) queue_state \<Rightarrow> bool"
  for R cfg view where
  start: "db view w = empty_db \<Longrightarrow> queue_reachable R cfg view (w, None)"
| step: "queue_reachable R cfg view s \<Longrightarrow> queue_step R cfg s t \<Longrightarrow> queue_reachable R cfg view t"

inductive_cases queue_stepE: "queue_step R cfg (w, h) t"

section \<open>The invariant\<close>

definition live_fields :: "json pydict \<Rightarrow> bool" where
  "live_fields d \<longleftrightarrow> public d = d \<and> dict_get d ''payload'' \<noteq> None \<and>
     (case dict_get d ''retry_count'' of
        Some (JInt n) \<Rightarrow> 0 \<le> n \<and> n < MAX_RETRIES \<and> (0 < n \<longrightarrow> dict_get d ''process_after'' \<noteq> None)
      | _ \<Rightarrow> False)"

definition dead_fields :: "json pydict \<Rightarrow> bool" where
  "dead_fields d \<longleftrightarrow> dict_get d ''payload'' \<noteq> None
     \<and> dict_get d ''retry_count'' = Some (JInt MAX_RETRIES) \<and> dict_get d ''moved_to_dlq_at'' \<noteq> None"

fun live_entry :: "stored \<Rightarrow> bool" where
  "live_entry (Text (JObj d)) = live_fields d"
| "live_entry _ = False"

fun dead_entry :: "stored \<Rightarrow> bool" where
  "dead_entry (Text (JObj d)) = dead_fields d"
| "dead_entry _ = False"

definition queue_inv :: "redis_db \<Rightarrow> bool" where
  "queue_inv d \<longleftrightarrow> list_all live_entry (rlists d MAIN_QUEUE)
     \<and> list_all live_entry (rlists d PROCESSING_QUEUE) \<and> list_all dead_entry (rlists d DLQ)"

definition hand_inv :: "queue_message option \<Rightarrow> bool" where
  "hand_inv h = pred_option (\<lambda>m. live_fields (public (msg_fields m)) \<and> msg_raw m \<noteq> None) h"

lemma queue_invI_cong: "rlists d = rlists d' \<Longrightarrow> queue_inv d' \<Longrightarrow> queue_inv d"
  by (simp add: queue_inv_def)

lemma queue_inv_set_list [simp]:
  "queue_inv d \<Longrightarrow> list_all live_entry xs \<Longrightarrow> queue_inv (set_list MAIN_QUEUE xs d)"
  "queue_inv d \<Longrightarrow> list_all live_entry xs \<Longrightarrow> queue_inv (set_list PROCESSING_QUEUE xs d)"
  "queue_inv d \<Longrightarrow> list_all dead_entry xs \<Longrightarrow> queue_inv (set_list DLQ xs d)"
  by (simp_all add: queue_inv_def)

lemma list_all_remove1: "list_all P xs \<Longrightarrow> list_all P (remove1 x xs)"
  by (auto simp: list_all_iff dest: set_remove1_subset [THEN subsetD])

lemma list_all_butlast: "list_all P xs \<Longrightarrow> list_all P (butlast xs)"
  by (auto simp: list_all_iff dest: in_set_butlastD)

lemma live_new_message: "live_entry (new_message p now)"
  by (simp add: new_message_def json_dumps_def live_fields_def dict_simps public_def is_private_def
      MAX_RETRIES_def)

lemma live_fields_tagged: "live_fields d \<Longrightarrow> live_fields (public (tagged d now))"
  by (auto simp: live_fields_def tagged_def dict_get_public dict_simps public_dict_set
      split: option.splits json.splits)

lemma live_retry_count:
  assumes "live_fields (public d)"
  obtains n where "json_int (dict_get_or (public d) ''retry_count'' (JInt 0)) = Some n"
    and "0 \<le> n" and "n < MAX_RETRIES"
  using assms by (auto simp: live_fields_def dict_get_or_def split: option.splits json.splits)

lemma live_requeue_entry:
  assumes "live_fields (public (msg_fields m))" and "0 \<le> n" and "n < MAX_RETRIES"
  shows "live_entry (requeue_entry now m n)"
  using assms
  by (auto simp: requeue_entry_def retried_def json_dumps_def live_fields_def dict_simps
      public_dict_set)

lemma dead_dlq_entry:
  assumes "live_fields (public (msg_fields m))"
  shows "dead_entry (dlq_entry now m MAX_RETRIES)"
  using assms
  by (auto simp: dlq_entry_def retried_def json_dumps_def live_fields_def dead_fields_def dict_simps)

lemma queue_inv_moved: "queue_inv d \<Longrightarrow> queue_inv (moved MAIN_QUEUE PROCESSING_QUEUE d)"
  by (cases "rlists d MAIN_QUEUE = []")
    (auto simp: queue_inv_def moved_def Let_def list_all_butlast list_all_iff dest: in_set_butlastD)

section \<open>Every operation keeps it, whatever fails\<close>

lemma enqueue_inv:
  assumes "redis_ok R view" and "enqueue R cfg now p w = (r, w')" and "queue_inv (db view w)"
  shows "queue_inv (db view w')"
  using enqueue_cases [OF assms(1,2)] assms(3)
  by (auto simp: live_new_message queue_inv_def)

lemma dequeue_inv:
  assumes ok: "redis_ok R view" and run: "dequeue R now w = (r, w')" and inv: "queue_inv (db view w)"
  shows "queue_inv (db view w') \<and> hand_inv (case r of Inr m \<Rightarrow> m | Inl _ \<Rightarrow> None)"
  using run
proof (cases rule: dequeue_split)
  case (raised e)
  with redisE_blmove_cases [OF ok raised(1)] inv queue_inv_moved show ?thesis
    by (auto simp: hand_inv_def)
next
  case empty
  with redisE_blmove_cases [OF ok empty(1)] inv show ?thesis by (auto simp: hand_inv_def)
next
  case (garbage r0 e)
  with redisE_blmove_cases [OF ok garbage(1)] inv queue_inv_moved show ?thesis
    by (auto simp: hand_inv_def)
next
  case (message d w1 updated r2)
  note rt = dequeue_retags [OF ok message(1,3)]
  then have "Text (JObj d) \<in> set (rlists (db view w) MAIN_QUEUE)"
    by (metis last_in_set)
  with inv have "live_fields d" by (auto simp: queue_inv_def list_all_iff)
  then have up: "live_entry updated" and tg: "live_fields (public (tagged d now))"
    using live_fields_tagged by (simp_all add: message(2) json_dumps_def)
  have inv1: "queue_inv (db view w1)" using rt inv queue_inv_moved by metis
  have "list_all live_entry (updated # rlists (db view w) PROCESSING_QUEUE)"
    using inv up by (simp add: queue_inv_def)
  with rt inv1 have "queue_inv (db view w')"
    using queue_inv_set_list(2) by metis
  with tg message(4) show ?thesis by (auto simp: hand_inv_def split: sum.splits)
qed

lemma acknowledge_inv:
  assumes "redis_ok R view" and "acknowledge R m w = (r, w')" and "queue_inv (db view w)"
  shows "queue_inv (db view w')"
  using redisE_lrem_cases [OF assms(1) assms(2) [unfolded acknowledge_def]] assms(3)
  by (auto simp: queue_inv_def list_all_remove1)

lemma retry_inv:
  assumes ok: "redis_ok R view" and run: "retry_or_dlq R now m w = (r, w')"
    and inv: "queue_inv (db view w)" and hand: "hand_inv (Some m)"
  shows "queue_inv (db view w')"
proof -
  from hand have live: "live_fields (public (msg_fields m))" by (simp add: hand_inv_def)
  then obtain n0 where int: "json_int (dict_get_or (public (msg_fields m)) ''retry_count'' (JInt 0)) = Some n0"
    and n0: "0 \<le> n0" "n0 < MAX_RETRIES" by (rule live_retry_count)
  have rem: "queue_inv (retry_removed m (db view w))"
    using inv by (simp add: retry_removed_def queue_inv_def list_all_remove1)
  have push: "queue_inv (retry_pushed now m (n0 + 1) (retry_removed m (db view w)))"
  proof (cases "MAX_RETRIES \<le> n0 + 1")
    case True
    with n0 have "n0 + 1 = MAX_RETRIES" by simp
    with rem dead_dlq_entry [OF live] show ?thesis
      by (simp add: retry_pushed_def retry_target_def retry_entry_def queue_inv_def)
  next
    case False
    with rem live_requeue_entry [OF live, of "n0 + 1"] n0 show ?thesis
      by (simp add: retry_pushed_def retry_target_def retry_entry_def queue_inv_def)
  qed
  from retry_cases [OF ok int run] show ?thesis
    using inv rem push queue_invI_cong by auto
qed

lemma requeue_raw_inv:
  assumes ok: "redis_ok R view" and run: "requeue_raw R e w = (r, w')"
    and inv: "queue_inv (db view w)" and live: "live_entry e"
  shows "queue_inv (db view w')"
proof -
  obtain r1 w1 where 1: "redisE (redis_lrem R PROCESSING_QUEUE e) w = (r1, w1)" by fastforce
  have inv1: "queue_inv (db view w1)"
    using redisE_lrem_cases [OF ok 1] inv by (auto simp: queue_inv_def list_all_remove1)
  show ?thesis
  proof (cases r1)
    case (Inl x)
    with run 1 inv1 show ?thesis by (simp add: requeue_raw_def thenE_apply)
  next
    case (Inr x)
    with run 1 have "redisE (redis_lpush R MAIN_QUEUE e) w1 = (r, w')"
      by (simp add: requeue_raw_def thenE_apply)
    from redisE_lpush_cases [OF ok this] inv1 live show ?thesis
      by (auto simp: queue_inv_def)
  qed
qed

lemma recover_loop_inv:
  assumes "redis_ok R view" and "recover_loop R now rs n w = (r, w')"
    and "queue_inv (db view w)" and "list_all live_entry rs"
  shows "queue_inv (db view w')"
  using assms(2-4)
proof (induction rs arbitrary: n w)
  case Nil
  then show ?case by (simp add: returnE_def)
next
  case (Cons e rs)
  show ?case
  proof (cases "staleness now e")
    case Stale
    obtain r1 w1 where 1: "requeue_raw R e w = (r1, w1)" by fastforce
    have "queue_inv (db view w1)"
      using requeue_raw_inv [OF assms(1) 1] Cons.prems by simp
    with Stale 1 Cons show ?thesis by (cases r1) (auto simp: thenE_apply)
  next
    case Active
    with Cons show ?thesis by simp
  next
    case (Unreadable x)
    with Cons.prems show ?thesis by (simp add: raiseE_def)
  qed
qed

lemma recover_inv:
  assumes "redis_ok R view" and "recover_processing_queue R now w = (r, w')"
    and "queue_inv (db view w)"
  shows "queue_inv (db view w')"
proof -
  obtain r1 w1 where 1: "redisE (redis_lrange R PROCESSING_QUEUE) w = (r1, w1)" by fastforce
  have d: "db view w1 = db view w"
    and i: "r1 = Inr (rlists (db view w) PROCESSING_QUEUE) \<or> (\<exists>e. r1 = Inl e)"
    using redisE_lrange_cases [OF assms(1) 1] by auto
  from i show ?thesis
  proof
    assume "\<exists>e. r1 = Inl e"
    with 1 d assms(2,3) show ?thesis by (auto simp: recover_processing_queue_def bindE_def)
  next
    let ?p = "rlists (db view w) PROCESSING_QUEUE"
    assume "r1 = Inr ?p"
    with 1 assms(2) have "recover_loop R now ?p 0 w1 = (r, w')"
      by (auto simp: recover_processing_queue_def bindE_def split: if_splits)
    from recover_loop_inv [OF assms(1) this] d assms(3) show ?thesis
      by (simp add: queue_inv_def)
  qed
qed

lemma queue_step_inv:
  assumes "redis_ok R view" and "queue_step R cfg s t"
    and "queue_inv (db view (fst s))" and "hand_inv (snd s)"
  shows "queue_inv (db view (fst t)) \<and> hand_inv (snd t)"
  using assms(2-4)
proof (cases rule: queue_step.cases)
  case (fail now m w r w')
  with assms(3,4) retry_inv [OF assms(1) fail(3)] show ?thesis
    by (auto simp: hand_inv_def split: sum.splits)
qed (use assms in \<open>auto simp: hand_inv_def
    dest: enqueue_inv dequeue_inv acknowledge_inv recover_inv\<close>)

text \<open>
  C9. In every state the queue can reach, whatever fails and whenever the worker crashes, each
  message in the main and processing lists is well formed with a retry count below
  \<open>MAX_RETRIES\<close> (and a delay stamp once it was retried), and each dead letter was retried exactly
  \<open>MAX_RETRIES\<close> times.
\<close>

theorem queue_reachable_inv:
  assumes "redis_ok R view" and "queue_reachable R cfg view (w, h)"
  shows "queue_inv (db view w) \<and> hand_inv h"
proof -
  have "queue_inv (db view (fst s)) \<and> hand_inv (snd s)" if "queue_reachable R cfg view s" for s
    using that
  proof (induction rule: queue_reachable.induct)
    case (start w)
    then show ?case by (simp add: queue_inv_def hand_inv_def empty_db_def)
  next
    case (step s t)
    then show ?case using queue_step_inv [OF assms(1)] by blast
  qed
  from this [OF assms(2)] show ?thesis by simp
qed

theorem queue_reachable_inv_witness:
  "\<exists>(w :: (fault list \<times> redis_db) env) h. queue_reachable sim_redis (default_settings []) snd (w, h) \<and> h \<noteq> None
     \<and> queue_inv (snd (conn w)) \<and> hand_inv h"
proof -
  let ?cfg = "default_settings []"
  let ?w = "\<lparr>conn = ([], empty_db), counters = initial_counters\<rparr>"
  let ?w1 = "snd (enqueue sim_redis ?cfg 1 (JStr ''a'') ?w)"
  let ?m = "\<lparr>msg_fields = tagged [(''payload'', JStr ''a''), (''retry_count'', JInt 0),
       (''enqueued_at'', JFloat 1)] 2,
     msg_raw = Some (Text (JObj (public (tagged [(''payload'', JStr ''a''), (''retry_count'', JInt 0),
       (''enqueued_at'', JFloat 1)] 2))))\<rparr>"
  have 0: "queue_reachable sim_redis ?cfg snd (?w, None)"
    by (rule queue_reachable.start) simp
  have 1: "queue_reachable sim_redis ?cfg snd (?w1, None)"
    by (rule queue_reachable.step [OF 0 queue_step.produce [OF prod.collapse [symmetric]]])
  have "fst (dequeue sim_redis 2 ?w1) = Inr (Some ?m)"
    by code_simp
  then have d: "dequeue sim_redis 2 ?w1 = (Inr (Some ?m), snd (dequeue sim_redis 2 ?w1))"
    by (simp add: prod_eq_iff)
  have 2: "queue_reachable sim_redis ?cfg snd (snd (dequeue sim_redis 2 ?w1), Some ?m)"
    using queue_reachable.step [OF 1 queue_step.take_one [OF d]] by simp
  from queue_reachable_inv [OF redis_ok_sim 2] 2 show ?thesis by blast
qed

end
