(* ===== verification/QueueFifo.thy ===== *)
theory QueueFifo
  imports QueueMachine
begin

text \<open>
  The main queue as a bounded first-in first-out queue. The contract is a locale over two
  operations and the contents they work on, oldest first; its client facts (the bound, and that
  what goes in comes out in order) are proved there once. A Redis that answers gives the contract
  for \<open>enqueue\<close> and \<open>dequeue\<close>.
\<close>

section \<open>The contract\<close>

fun drain :: "('s \<Rightarrow> 'p option \<times> 's) \<Rightarrow> nat \<Rightarrow> 's \<Rightarrow> 'p option list" where
  "drain take_one 0 s = []"
| "drain take_one (Suc n) s = (case take_one s of (x, s') \<Rightarrow> x # drain take_one n s')"

locale bounded_fifo =
  fixes push :: "'p \<Rightarrow> 's \<Rightarrow> 's"
    and take_one :: "'s \<Rightarrow> 'p option \<times> 's"
    and contents :: "'s \<Rightarrow> 'p list"
    and good :: "'s \<Rightarrow> bool"
    and capacity :: nat
  assumes push_room: "good s \<Longrightarrow> length (contents s) < capacity \<Longrightarrow> contents (push x s) = contents s @ [x]"
    and push_full: "good s \<Longrightarrow> capacity \<le> length (contents s) \<Longrightarrow> contents (push x s) = contents s"
    and push_good: "good s \<Longrightarrow> good (push x s)"
    and take_empty: "good s \<Longrightarrow> contents s = [] \<Longrightarrow> fst (take_one s) = None"
    and take_first: "good s \<Longrightarrow> contents s = x # xs \<Longrightarrow> fst (take_one s) = Some x"
    and take_contents: "good s \<Longrightarrow> contents (snd (take_one s)) = tl (contents s)"
    and take_good: "good s \<Longrightarrow> good (snd (take_one s))"
begin

lemma fold_push_good: "good s \<Longrightarrow> good (fold push xs s)"
  by (induction xs arbitrary: s) (auto intro: push_good)

lemma fold_push_contents:
  assumes "good s" and "length (contents s) + length xs \<le> capacity"
  shows "contents (fold push xs s) = contents s @ xs"
  using assms by (induction xs arbitrary: s) (simp_all add: push_room push_good)

lemma contents_bounded:
  assumes "good s" and "length (contents s) \<le> capacity"
  shows "length (contents (fold push xs s)) \<le> capacity"
  using assms
proof (induction xs arbitrary: s)
  case Nil
  then show ?case by simp
next
  case (Cons x xs)
  have "length (contents (push x s)) \<le> capacity"
    using Cons.prems push_room [of s x] push_full [of s x]
    by (cases "length (contents s) < capacity") auto
  with Cons push_good show ?case by simp
qed

lemma drain_contents:
  assumes "good s" and "n \<le> length (contents s)"
  shows "drain take_one n s = map Some (take n (contents s))"
  using assms
proof (induction n arbitrary: s)
  case 0
  then show ?case by simp
next
  case (Suc n)
  then obtain x xs where c: "contents s = x # xs" by (cases "contents s") auto
  obtain y t where t: "take_one s = (y, t)" by fastforce
  have "y = Some x" and "contents t = xs" and "good t"
    using take_first [OF Suc.prems(1) c] take_contents [OF Suc.prems(1)] take_good [OF Suc.prems(1)]
    by (simp_all add: t c)
  with Suc.IH [of t] Suc.prems(2) show ?case by (simp add: t c)
qed

lemma first_in_first_out:
  assumes "good s" and "contents s = []" and "length xs \<le> capacity"
  shows "drain take_one (length xs) (fold push xs s) = map Some xs"
  using drain_contents [OF fold_push_good [OF assms(1)], of "length xs" xs]
    fold_push_contents [OF assms(1), of xs] assms(2,3) by simp

end

section \<open>The queue service gives it\<close>

definition push_payload ::
  "'r redis_conn \<Rightarrow> settings \<Rightarrow> rat \<Rightarrow> json \<Rightarrow> ('r, 'z) env_scheme \<Rightarrow> ('r, 'z) env_scheme" where
  "push_payload R cfg now p w = snd (enqueue R cfg now p w)"

definition take_payload ::
  "'r redis_conn \<Rightarrow> rat \<Rightarrow> ('r, 'z) env_scheme \<Rightarrow> json option \<times> ('r, 'z) env_scheme" where
  "take_payload R now w = (case dequeue R now w of
       (Inr (Some m), w') \<Rightarrow> (dict_get (msg_fields m) ''payload'', w')
     | (_, w') \<Rightarrow> (None, w'))"

definition waiting :: "redis_db \<Rightarrow> json list" where
  "waiting d = map (\<lambda>r. the (payload_of r)) (rev (rlists d MAIN_QUEUE))"

definition all_payloads :: "redis_db \<Rightarrow> bool" where
  "all_payloads d = list_all (\<lambda>r. payload_of r \<noteq> None) (rlists d MAIN_QUEUE)"

lemma payload_of_Some:
  assumes "payload_of r = Some p"
  obtains d where "r = Text (JObj d)" and "dict_get d ''payload'' = Some p"
  using assms by (cases r) (auto simp: payload_of_def split: json.splits)

lemma payload_decodable: "payload_of r \<noteq> None \<Longrightarrow> decodable r"
  by (cases r) (simp_all add: payload_of_def)

lemma all_payloads_decodable: "all_payloads d \<Longrightarrow> list_all decodable (rlists d MAIN_QUEUE)"
  using payload_decodable by (auto simp: all_payloads_def list_all_iff)

lemma rev_butlast: "rev (butlast xs) = tl (rev xs)"
  by (induction xs rule: rev_induct) auto

lemma dequeue_up_empty:
  assumes "redis_ok R view" and "redis_up R" and "rlists (db view w) MAIN_QUEUE = []"
  shows "\<exists>w'. dequeue R now w = (Inr None, w') \<and> db view w' = db view w"
  using redis_blmove_up [OF assms(1,2), of "conn w" MAIN_QUEUE PROCESSING_QUEUE] assms(3)
  by (auto simp: dequeue_def bindE_def redisE_apply returnE_def moved_def)

lemma dequeue_up_message:
  assumes "redis_ok R view" and "redis_up R" and "all_payloads (db view w)"
    and "rlists (db view w) MAIN_QUEUE \<noteq> []"
  shows "\<exists>m w'. dequeue R now w = (Inr (Some m), w')"
proof -
  let ?q = "rlists (db view w) MAIN_QUEUE"
  have "payload_of (last ?q) \<noteq> None"
    using assms(3,4) by (simp add: all_payloads_def list_all_iff)
  then obtain d where l: "last ?q = Text (JObj d)" by (auto elim: payload_of_Some)
  obtain c where "redis_blmove R MAIN_QUEUE PROCESSING_QUEUE (conn w) = (Inr (Some (Text (JObj d))), c)"
    using redis_blmove_up [OF assms(1,2) all_payloads_decodable [OF assms(3)], of PROCESSING_QUEUE]
      assms(4) l by auto
  moreover obtain rs c' where "R [LREM1 PROCESSING_QUEUE (Text (JObj d)), LPUSH PROCESSING_QUEUE
      (json_dumps (JObj (public (tagged d now))))] c = (Inr rs, c')"
    using assms(2) unfolding redis_up_def by blast
  ultimately show ?thesis
    by (simp add: dequeue_def tag_entry_def bindE_def redisE_apply Let_def returnE_def)
qed

lemma enqueue_up:
  assumes "redis_ok R view" and "redis_up R"
  shows "rlists (db view (snd (enqueue R cfg now p w))) MAIN_QUEUE =
    (if MAX_QUEUE_DEPTH cfg \<le> int (length (rlists (db view w) MAIN_QUEUE))
     then rlists (db view w) MAIN_QUEUE
     else new_message p now # rlists (db view w) MAIN_QUEUE)"
proof -
  let ?q = "rlists (db view w) MAIN_QUEUE"
  obtain c where 1: "redis_llen R MAIN_QUEUE (conn w) = (Inr (int (length ?q)), c)" and v: "view c = db view w"
    using redis_llen_up [OF assms] by blast
  obtain c' where 2: "redis_lpush R MAIN_QUEUE (new_message p now) c = (Inr (), c')"
    and v': "view c' = set_list MAIN_QUEUE (new_message p now # rlists (view c) MAIN_QUEUE) (view c)"
    using redis_lpush_up [OF assms] by blast
  show ?thesis
    by (simp add: enqueue_def bindE_def redisE_apply raiseE_def 1 2 v v')
qed

lemma take_payload_up:
  assumes ok: "redis_ok R view" and up: "redis_up R" and good: "all_payloads (db view w)"
  shows "fst (take_payload R now w) = (case waiting (db view w) of [] \<Rightarrow> None | x # _ \<Rightarrow> Some x)"
    and "rlists (db view (snd (take_payload R now w))) MAIN_QUEUE = butlast (rlists (db view w) MAIN_QUEUE)"
proof -
  let ?q = "rlists (db view w) MAIN_QUEUE"
  have "fst (take_payload R now w) = (case waiting (db view w) of [] \<Rightarrow> None | x # _ \<Rightarrow> Some x)
    \<and> rlists (db view (snd (take_payload R now w))) MAIN_QUEUE = butlast ?q"
  proof (cases "?q = []")
    case True
    with dequeue_up_empty [OF ok up, of w now] show ?thesis
      by (auto simp: take_payload_def waiting_def)
  next
    case False
    obtain m w' where run: "dequeue R now w = (Inr (Some m), w')"
      using dequeue_up_message [OF ok up good False] by blast
    obtain d u where l: "last ?q = Text (JObj d)" and m: "m = \<lparr>msg_fields = tagged d now, msg_raw = Some u\<rparr>"
      and q': "rlists (db view w') MAIN_QUEUE = butlast ?q"
      by (rule dequeue_returned [OF ok run]) auto
    have "payload_of (last ?q) \<noteq> None" using good False by (simp add: all_payloads_def list_all_iff)
    then have p: "dict_get d ''payload'' = Some (the (payload_of (last ?q)))"
      by (simp add: l payload_of_def)
    have "rev ?q = last ?q # rev (butlast ?q)"
      using False by (metis append_butlast_last_id rev.simps(2) rev_rev_ident rev_append rev_singleton_conv append_Cons append_Nil)
    then have "waiting (db view w) = the (payload_of (last ?q)) # map (\<lambda>r. the (payload_of r)) (rev (butlast ?q))"
      unfolding waiting_def by (metis list.simps(9))
    with run m p q' show ?thesis by (simp add: take_payload_def tagged_def dict_simps)
  qed
  then show "fst (take_payload R now w) = (case waiting (db view w) of [] \<Rightarrow> None | x # _ \<Rightarrow> Some x)"
    and "rlists (db view (snd (take_payload R now w))) MAIN_QUEUE = butlast ?q" by blast+
qed

locale answering_redis =
  fixes R :: "'r redis_conn" and view :: "'r \<Rightarrow> redis_db"
  assumes ok: "redis_ok R view" and up: "redis_up R"

sublocale answering_redis \<subseteq> fifo: bounded_fifo
  "push_payload R cfg now" "take_payload R now'" "\<lambda>w. waiting (db view w)"
  "\<lambda>w. all_payloads (db view w)" "nat (MAX_QUEUE_DEPTH cfg)" for cfg now now'
proof
  fix w :: "('r, 'z) env_scheme" and p :: json
  let ?q = "rlists (db view w) MAIN_QUEUE"
  assume good: "all_payloads (db view w)"
  note q' = enqueue_up [OF ok up, of cfg now p w]
  have len: "length (waiting (db view w)) = length ?q" by (simp add: waiting_def)
  show "waiting (db view (push_payload R cfg now p w)) = waiting (db view w) @ [p]"
    if "length (waiting (db view w)) < nat (MAX_QUEUE_DEPTH cfg)"
    using that unfolding len by (simp add: waiting_def push_payload_def q')
  show "waiting (db view (push_payload R cfg now p w)) = waiting (db view w)"
    if "nat (MAX_QUEUE_DEPTH cfg) \<le> length (waiting (db view w))"
    using that unfolding len by (simp add: waiting_def push_payload_def q')
  show "all_payloads (db view (push_payload R cfg now p w))"
    using good by (simp add: all_payloads_def push_payload_def q')
  show "fst (take_payload R now' w) = None" if "waiting (db view w) = []"
    using that take_payload_up [OF ok up good] by simp
  show "fst (take_payload R now' w) = Some x" if "waiting (db view w) = x # xs" for x xs
    using that take_payload_up [OF ok up good] by simp
  show "waiting (db view (snd (take_payload R now' w))) = tl (waiting (db view w))"
    using take_payload_up(2) [OF ok up good]
    by (simp add: waiting_def map_tl rev_butlast)
  show "all_payloads (db view (snd (take_payload R now' w)))"
    using good take_payload_up(2) [OF ok up good] by (simp add: all_payloads_def list_all_butlast)
qed

context answering_redis
begin

lemma queue_order:
  assumes "all_payloads (view (conn w))" and "waiting (view (conn w)) = []"
    and "length ps \<le> nat (MAX_QUEUE_DEPTH cfg)"
  shows "drain (take_payload R t2) (length ps) (fold (push_payload R cfg t1) ps w) = map Some ps"
  using assms by (rule fifo.first_in_first_out)

lemma waiting_bounded:
  assumes "all_payloads (view (conn w))" and "length (waiting (view (conn w))) \<le> nat (MAX_QUEUE_DEPTH cfg)"
  shows "length (waiting (view (conn (fold (push_payload R cfg t1) ps w)))) \<le> nat (MAX_QUEUE_DEPTH cfg)"
  using assms by (rule fifo.contents_bounded)

end

interpretation mem: answering_redis mem_redis "\<lambda>d. d"
  by unfold_locales (rule redis_ok_mem, rule redis_up_mem)



end
