(* ===== verification/WorkerDrain.thy ===== *)
theory WorkerDrain
  imports WorkerRounds QueueFifo
begin

text \<open>
  The retries end: while Redis answers and nothing is enqueued, every round of the worker brings some message of the queue one
  attempt nearer to its end, whatever the database, the model and the messages do. The measure is the
  number of attempts that the messages of the queue have left.
\<close>

section \<open>Attempts left\<close>

fun entry_count :: "stored \<Rightarrow> int" where
  "entry_count (Text (JObj d)) = (case dict_get d ''retry_count'' of Some (JInt n) \<Rightarrow> n | _ \<Rightarrow> 0)"
| "entry_count _ = 0"

definition attempts_left :: "stored \<Rightarrow> nat" where
  "attempts_left r = nat (MAX_RETRIES - entry_count r)"

definition queue_attempts :: "(string \<Rightarrow> stored list) \<Rightarrow> nat" where
  "queue_attempts l = sum_list (map attempts_left (l MAIN_QUEUE))"

lemma live_attempts: "live_entry r \<Longrightarrow> 0 < attempts_left r \<and> attempts_left r \<le> 3"
  by (cases r rule: live_entry.cases)
    (auto simp: live_fields_def attempts_left_def MAX_RETRIES_def split: option.splits json.splits)

lemma queue_attempts_bound:
  assumes "queue_inv d"
  shows "queue_attempts (rlists d) \<le> 3 * length (rlists d MAIN_QUEUE)"
proof -
  have "list_all live_entry (rlists d MAIN_QUEUE)" using assms by (simp add: queue_inv_def)
  then have "sum_list (map attempts_left xs) \<le> 3 * length xs" if "xs = rlists d MAIN_QUEUE" for xs
    unfolding that [symmetric]
    by (induction xs) (use live_attempts in \<open>auto simp: add_mono\<close>)
  then show ?thesis by (simp add: queue_attempts_def)
qed

lemma queue_attempts_last:
  "q \<noteq> [] \<Longrightarrow> sum_list (map attempts_left q) = sum_list (map attempts_left (butlast q)) + attempts_left (last q)"
  by (induction q) auto

lemma queue_inv_payloads: "queue_inv d \<Longrightarrow> all_payloads d"
proof -
  assume inv: "queue_inv d"
  have "payload_of r \<noteq> None" if "live_entry r" for r
    using that by (cases r rule: live_entry.cases) (auto simp: payload_of_def live_fields_def)
  with inv show ?thesis by (auto simp: all_payloads_def queue_inv_def list_all_iff)
qed

section \<open>One round\<close>

text \<open>The retry of the message in hand, with Redis answering.\<close>

lemma retry_lists_up:
  assumes "redis_ok R view" and "redis_up R" and "retry_or_dlq R now m w = (r, w')"
    and "json_int (dict_get_or (public (msg_fields m)) ''retry_count'' (JInt 0)) = Some n0"
  shows "r = Inr (n0 + 1 < MAX_RETRIES)
    \<and> rlists (db view w') = (acked m (rlists (db view w)))
        (retry_target (n0 + 1) := retry_entry now m (n0 + 1) # rlists (db view w) (retry_target (n0 + 1)))"
proof -
  obtain w1 where 1: "redisE (redis_lrem R PROCESSING_QUEUE (retry_raw m)) w = (Inr (), w1)"
    using redisE_lrem_up [OF assms(1,2)] by blast
  obtain w2 where 2: "redisE (redis_lpush R (retry_target (n0 + 1)) (retry_entry now m (n0 + 1))) w1 = (Inr (), w2)"
    using redisE_lpush_up [OF assms(1,2)] by blast
  obtain w3 where 3: "increment_async R (retry_counter (n0 + 1)) 1 w2 = (Inr (), w3)"
    using increment_async_returns [OF assms(1)] by metis
  have r: "r = Inr (n0 + 1 < MAX_RETRIES)"
    using assms(3) 1 2 3 by (simp add: retry_or_dlq_alt [OF assms(4)] thenE_apply returnE_apply)
  with retry_cases [OF assms(1,4,3)] show ?thesis by (auto simp: retry_lists acked_def)
qed

text \<open>
  What a round does to the lists: the oldest message leaves the queue and is done, or goes back with one
  attempt less, or to the dead letters when it has none left.
\<close>

definition round_outcome :: "(string \<Rightarrow> stored list) \<Rightarrow> (string \<Rightarrow> stored list) \<Rightarrow> bool" where
  "round_outcome l l' \<longleftrightarrow> (let q = l MAIN_QUEUE; rest = l(MAIN_QUEUE := butlast q) in
     l' = rest
     \<or> (\<exists>e. live_entry e \<and> attempts_left e < attempts_left (last q)
          \<and> l' = rest(MAIN_QUEUE := e # butlast q))
     \<or> (\<exists>e. dead_entry e \<and> l' = rest(DLQ := e # l DLQ)))"

lemma round_outcome_attempts:
  assumes "round_outcome l l'" and "l MAIN_QUEUE \<noteq> []" and "live_entry (last (l MAIN_QUEUE))"
  shows "queue_attempts l' < queue_attempts l \<and> l' PROCESSING_QUEUE = l PROCESSING_QUEUE"
  using assms(1) live_attempts [OF assms(3)] queue_attempts_last [OF assms(2)]
  by (auto simp: round_outcome_def Let_def queue_attempts_def)

lemma round_outcome_inv:
  assumes "round_outcome (rlists d) (rlists d')" and "queue_inv d"
  shows "queue_inv d'"
  using assms by (auto simp: round_outcome_def Let_def queue_inv_def list_all_butlast)

text \<open>The message in hand is the one that was the oldest of the queue, tagged.\<close>

definition in_hand :: "(string \<Rightarrow> stored list) \<Rightarrow> queue_message \<Rightarrow> (string \<Rightarrow> stored list) \<Rightarrow> bool" where
  "in_hand l m l1 \<longleftrightarrow> live_fields (public (msg_fields m))
     \<and> json_int (dict_get_or (public (msg_fields m)) ''retry_count'' (JInt 0)) = Some (entry_count (last (l MAIN_QUEUE)))
     \<and> l1 = l(MAIN_QUEUE := butlast (l MAIN_QUEUE), PROCESSING_QUEUE := retry_raw m # l PROCESSING_QUEUE)"

lemma dequeue_in_hand:
  assumes "redis_ok R view" and "queue_inv (db view w)" and "dequeue R now w = (Inr (Some m), w')"
  shows "in_hand (rlists (db view w)) m (rlists (db view w')) \<and> msg_raw m = Some (retry_raw m)"
proof -
  let ?l = "rlists (db view w)"
  obtain d u where q: "?l MAIN_QUEUE \<noteq> []" "last (?l MAIN_QUEUE) = Text (JObj d)"
    and m: "m = \<lparr>msg_fields = tagged d now, msg_raw = Some u\<rparr>"
    and l': "rlists (db view w') = ?l(MAIN_QUEUE := butlast (?l MAIN_QUEUE), PROCESSING_QUEUE := u # ?l PROCESSING_QUEUE)"
    by (rule dequeue_returned [OF assms(1,3)])
  have "live_entry (last (?l MAIN_QUEUE))" using assms(2) q(1) by (simp add: queue_inv_def list_all_iff)
  then have d: "live_fields d" by (simp add: q(2))
  then have "json_int (dict_get_or (public (tagged d now)) ''retry_count'' (JInt 0))
      = Some (entry_count (last (?l MAIN_QUEUE)))"
    by (auto simp: live_fields_def q(2) dict_get_or_def tagged_def dict_get_public dict_simps
        split: option.splits json.splits)
  with live_fields_tagged [OF d, of now] l' show ?thesis
    by (simp add: in_hand_def m retry_raw_def)
qed

lemma acked_outcome:
  assumes "in_hand l m l1"
  shows "round_outcome l (acked m l1)"
  using assms by (auto simp: in_hand_def acked_def round_outcome_def Let_def fun_eq_iff)

lemma retry_outcome:
  assumes "redis_ok R view" and "redis_up R" and "in_hand l m (rlists (db view w))"
    and "retry_or_dlq R now m w = (r, w')"
  shows "\<not> isl r \<and> round_outcome l (rlists (db view w'))"
proof -
  let ?q = "l MAIN_QUEUE"
  define n where "n = entry_count (last ?q)"
  from assms(3) have live: "live_fields (public (msg_fields m))"
    and int: "json_int (dict_get_or (public (msg_fields m)) ''retry_count'' (JInt 0)) = Some n"
    and l1: "acked m (rlists (db view w)) = l(MAIN_QUEUE := butlast ?q)"
      "rlists (db view w) MAIN_QUEUE = butlast ?q" "rlists (db view w) DLQ = l DLQ"
    by (auto simp: in_hand_def n_def acked_def fun_eq_iff)
  from live int have n: "0 \<le> n" "n < MAX_RETRIES" using live_retry_count by (metis option.inject)+
  note up = retry_lists_up [OF assms(1,2,4) int]
  show ?thesis
  proof (cases "MAX_RETRIES \<le> n + 1")
    case True
    with n have e: "n + 1 = MAX_RETRIES" by simp
    with up l1 dead_dlq_entry [OF live, of now] show ?thesis
      by (auto simp: round_outcome_def Let_def retry_target_def retry_entry_def)
  next
    case False
    have "dict_get (public (retried m (n + 1))) ''retry_count'' = Some (JInt (n + 1))"
      by (simp add: retried_def dict_get_public dict_simps)
    then have "attempts_left (requeue_entry now m (n + 1)) < attempts_left (last ?q)"
      using n False
      by (simp add: attempts_left_def requeue_entry_def json_dumps_def dict_get_public dict_simps n_def)
    moreover have "live_entry (requeue_entry now m (n + 1))"
      using live_requeue_entry [OF live] n False by simp
    ultimately show ?thesis using up l1 False
      by (auto simp: round_outcome_def Let_def retry_target_def retry_entry_def)
  qed
qed

lemma process_outcome:
  assumes "redis_ok R view" and "redis_up R" and "sql_ok D dview others"
    and "in_hand l m (rlists (db view w))" and "msg_raw m = Some u"
    and "process_message R D cfg lib rd m w = (r, w')"
  shows "round_outcome l (rlists (db view w')) \<and> \<not> isl r \<or> isl r \<and> in_hand l m (rlists (db view w'))"
  using process_message_up [OF assms(1-3,5,6)]
proof (elim disjE exE conjE)
  fix v
  assume run: "thenE (retry_or_dlq R (rd_retry rd) m) (returnE ()) v = (r, w')" and v: "conn v = conn w"
  obtain r1 v1 where 1: "retry_or_dlq R (rd_retry rd) m v = (r1, v1)" by fastforce
  have "in_hand l m (rlists (db view v))" using assms(4) v by simp
  from retry_outcome [OF assms(1,2) this 1] run 1 show ?thesis
    by (cases r1) (auto simp: thenE_apply returnE_apply)
qed (use acked_outcome [OF assms(4)] assms(4) in auto)

lemma handle_outcome:
  assumes "redis_ok R view" and "redis_up R" and "sql_ok D dview others"
    and "in_hand l m (rlists (db view w))" and "msg_raw m = Some u"
    and "handle_message R D cfg lib rd m w = (r, w')"
  shows "round_outcome l (rlists (db view w')) \<and> r = Inr ()"
proof -
  obtain r1 w1 where 1: "process_message R D cfg lib rd m w = (r1, w1)" by fastforce
  obtain r2 w2 where 2: "retry_or_dlq R (rd_retry2 rd) m w1 = (r2, w2)" by fastforce
  from process_outcome [OF assms(1-5) 1] show ?thesis
  proof (elim disjE conjE)
    assume "round_outcome l (rlists (db view w1))" and "\<not> isl r1"
    with assms(6) 1 show ?thesis by (cases r1) (auto simp: handle_message_def tryE_apply)
  next
    assume "isl r1" and "in_hand l m (rlists (db view w1))"
    with retry_outcome [OF assms(1,2) _ 2] assms(6) 1 2 show ?thesis
      by (cases r1; cases r2) (auto simp: handle_message_def tryE_apply thenE_apply returnE_apply)
  qed
qed

lemma worker_round_outcome:
  assumes "redis_ok R view" and "redis_up R" and "sql_ok D dview others"
    and "queue_inv (db view w)" and "worker_round R D cfg lib rd w = (r, w')"
  shows "r = Inr () \<and> (if rlists (db view w) MAIN_QUEUE = [] then db view w' = db view w
    else round_outcome (rlists (db view w)) (rlists (db view w')))"
proof (cases "rlists (db view w) MAIN_QUEUE = []")
  case True
  with dequeue_up_empty [OF assms(1,2) True, of "rd_dequeued rd"] assms(5) show ?thesis
    by (auto simp: worker_round_def tryE_apply bindE_apply returnE_apply)
next
  case False
  obtain m w1 where 1: "dequeue R (rd_dequeued rd) w = (Inr (Some m), w1)"
    using dequeue_up_message [OF assms(1,2) queue_inv_payloads [OF assms(4)] False] by blast
  obtain r2 w2 where 2: "handle_message R D cfg lib rd m w1 = (r2, w2)" by fastforce
  from dequeue_in_hand [OF assms(1,4) 1] handle_outcome [OF assms(1-3) _ _ 2]
  have "round_outcome (rlists (db view w)) (rlists (db view w2)) \<and> r2 = Inr ()" by blast
  with assms(5) 1 2 False show ?thesis
    by (auto simp: worker_round_def tryE_apply bindE_apply)
qed

section \<open>The queue drains\<close>

lemma round_outcome_dead:
  assumes "round_outcome l l'" and "l MAIN_QUEUE \<noteq> []"
  shows "\<exists>new. l' DLQ = new @ l DLQ
    \<and> length new + length (l' MAIN_QUEUE) \<le> length (l MAIN_QUEUE)"
  using assms
  by (auto simp: round_outcome_def Let_def)

lemma worker_loop_drains:
  assumes "redis_ok R view" and "redis_up R" and "sql_ok D dview others"
    and "queue_inv (db view w)" and "queue_attempts (rlists (db view w)) \<le> length rds"
    and "worker_loop R D cfg lib rds w = (r, w')"
  shows "r = Inr () \<and> queue_inv (db view w') \<and> rlists (db view w') MAIN_QUEUE = []
    \<and> rlists (db view w') PROCESSING_QUEUE = rlists (db view w) PROCESSING_QUEUE
    \<and> (\<exists>new. rlists (db view w') DLQ = new @ rlists (db view w) DLQ
         \<and> length new \<le> length (rlists (db view w) MAIN_QUEUE))"
  using assms(4-6)
proof (induction rds arbitrary: w)
  case Nil
  have "rlists (db view w) MAIN_QUEUE = []"
  proof (rule ccontr)
    assume q: "rlists (db view w) MAIN_QUEUE \<noteq> []"
    then have "live_entry (last (rlists (db view w) MAIN_QUEUE))"
      using Nil.prems(1) by (simp add: queue_inv_def list_all_iff)
    with live_attempts queue_attempts_last [OF q] Nil.prems(2) show False
      by (fastforce simp: queue_attempts_def)
  qed
  with Nil show ?case by (simp add: returnE_apply)
next
  case (Cons rd rds)
  let ?l = "rlists (db view w)"
  obtain r1 w1 where 1: "worker_round R D cfg lib rd w = (r1, w1)" by fastforce
  note out = worker_round_outcome [OF assms(1-3) Cons.prems(1) 1]
  then have rest: "worker_loop R D cfg lib rds w1 = (r, w')"
    using Cons.prems(3) 1 by (simp add: thenE_apply)
  show ?case
  proof (cases "?l MAIN_QUEUE = []")
    case True
    with out have "db view w1 = db view w" by simp
    with Cons.IH [OF _ _ rest] Cons.prems(1) True show ?thesis by (simp add: queue_attempts_def)
  next
    case False
    then have live: "live_entry (last (?l MAIN_QUEUE))"
      using Cons.prems(1) by (simp add: queue_inv_def list_all_iff)
    from out False have ro: "round_outcome ?l (rlists (db view w1))" by simp
    note fewer = round_outcome_attempts [OF ro False live]
    obtain new where new: "rlists (db view w1) DLQ = new @ ?l DLQ"
      "length new + length (rlists (db view w1) MAIN_QUEUE) \<le> length (?l MAIN_QUEUE)"
      using round_outcome_dead [OF ro False] by blast
    from Cons.IH [OF round_outcome_inv [OF ro Cons.prems(1)] _ rest] fewer Cons.prems(2)
    obtain new' where "r = Inr ()" "queue_inv (db view w')" "rlists (db view w') MAIN_QUEUE = []"
      "rlists (db view w') PROCESSING_QUEUE = ?l PROCESSING_QUEUE"
      "rlists (db view w') DLQ = new' @ rlists (db view w1) DLQ"
      "length new' \<le> length (rlists (db view w1) MAIN_QUEUE)" by auto
    with new show ?thesis by (intro conjI exI [of _ "new' @ new"]) auto
  qed
qed

text \<open>What leaves the lists over a whole run was processed to its end in some round of it.\<close>

definition settled_by ::
  "'r redis_conn \<Rightarrow> ('r \<Rightarrow> redis_db) \<Rightarrow> 'd sql_conn \<Rightarrow> settings \<Rightarrow> 'm ml \<Rightarrow> readings list \<Rightarrow> json option \<Rightarrow>
     ('r, 'm, 'd, 'z) worker_scheme itself \<Rightarrow> bool" where
  "settled_by R view D cfg lib rds p ty \<longleftrightarrow> (\<exists>rd \<in> set rds. \<exists>m (v :: ('r, 'm, 'd, 'z) worker_scheme) v'.
     dict_get (msg_fields m) ''payload'' = p \<and> process_message R D cfg lib rd m v = (Inr (), v')
     \<and> in_flight (db view v) = add_mset p (in_flight (db view v')))"

lemma worker_loop_accounts:
  fixes w :: "('r, 'm, 'd, 'z) worker_scheme"
  assumes "redis_ok R view" and "redis_up R" and "sql_ok D dview others"
    and "worker_loop R D cfg lib rds w = (r, w')"
  shows "\<exists>settled. in_flight (db view w) = in_flight (db view w') + settled
    \<and> (\<forall>p \<in># settled. settled_by R view D cfg lib rds p TYPE(('r, 'm, 'd, 'z) worker_scheme))"
  using assms(4)
proof (induction rds arbitrary: w)
  case Nil
  then show ?case by (intro exI [of _ "{#}"]) (simp add: returnE_apply)
next
  case (Cons rd rds)
  obtain r1 w1 where 1: "worker_round R D cfg lib rd w = (r1, w1)" by fastforce
  note keeps = worker_round_keeps [OF assms(1-3) 1]
  then have "worker_loop R D cfg lib rds w1 = (r, w')" using Cons.prems 1 by (simp add: thenE_apply)
  from Cons.IH [OF this] obtain settled where s: "in_flight (db view w1) = in_flight (db view w') + settled"
    and sb: "\<forall>p \<in># settled. settled_by R view D cfg lib rds p TYPE(('r, 'm, 'd, 'z) worker_scheme)" by blast
  have later: "\<forall>p \<in># settled. settled_by R view D cfg lib (rd # rds) p TYPE(('r, 'm, 'd, 'z) worker_scheme)"
    using sb unfolding settled_by_def by (meson list.set_intros(2))
  from keeps show ?case
  proof (elim conjE disjE exE)
    assume "in_flight (db view w1) = in_flight (db view w)"
    with s later show ?thesis by auto
  next
    fix m v
    assume "dequeue R (rd_dequeued rd) w = (Inr (Some m), v)"
      and run: "process_message R D cfg lib rd m v = (Inr (), w1)"
      and one: "in_flight (db view w) = add_mset (dict_get (msg_fields m) ''payload'') (in_flight (db view w1))"
    then have "in_flight (db view v) = in_flight (db view w)" by (intro dequeue_conserves [OF assms(1)])
    with run one have "settled_by R view D cfg lib (rd # rds) (dict_get (msg_fields m) ''payload'')
        TYPE(('r, 'm, 'd, 'z) worker_scheme)"
      unfolding settled_by_def by (metis list.set_intros(1))
    with s later one show ?thesis
      by (intro exI [of _ "add_mset (dict_get (msg_fields m) ''payload'') settled"]) auto
  qed
qed

text \<open>
  C4. The worker drains its queue. With Redis answering and nothing new enqueued, three
  rounds for every message of the queue are enough to empty it, whatever the database, the model and
  the messages do. Every round returns, no message is left in hand, and every message is accounted
  for: its payload is that of a new dead letter, or it left the lists in a round that processed it to its end.
\<close>

theorem worker_drains_queue:
  fixes w :: "('r, 'm, 'd, 'z) worker_scheme"
  assumes "redis_ok R view" and "redis_up R" and "sql_ok D dview others"
    and "queue_inv (db view w)" and "3 * length (rlists (db view w) MAIN_QUEUE) \<le> length rds"
    and "worker_loop R D cfg lib rds w = (r, w')"
  shows "r = Inr () \<and> queue_inv (db view w') \<and> rlists (db view w') MAIN_QUEUE = []
    \<and> rlists (db view w') PROCESSING_QUEUE = rlists (db view w) PROCESSING_QUEUE
    \<and> (\<exists>new settled. rlists (db view w') DLQ = new @ rlists (db view w) DLQ
         \<and> image_mset payload_of (mset (rlists (db view w) MAIN_QUEUE)) = image_mset payload_of (mset new) + settled
         \<and> (\<forall>p \<in># settled. settled_by R view D cfg lib rds p TYPE(('r, 'm, 'd, 'z) worker_scheme)))"
proof -
  have n: "queue_attempts (rlists (db view w)) \<le> length rds"
    by (rule order_trans [OF queue_attempts_bound [OF assms(4)] assms(5)])
  note drained = worker_loop_drains [OF assms(1-4) n assms(6)]
  obtain settled where s: "in_flight (db view w) = in_flight (db view w') + settled"
    "\<forall>p \<in># settled. settled_by R view D cfg lib rds p TYPE(('r, 'm, 'd, 'z) worker_scheme)"
    using worker_loop_accounts [OF assms(1-3,6)] by blast
  from drained obtain new where new: "rlists (db view w') DLQ = new @ rlists (db view w) DLQ" by blast
  have "image_mset payload_of (mset (rlists (db view w) MAIN_QUEUE)) = image_mset payload_of (mset new) + settled"
    using s(1) drained by (simp add: in_flight_def new)
  with drained new s(2) show ?thesis by blast
qed

text \<open>A message that names no log: three rounds are enough.\<close>

definition nameless_entry :: stored where
  "nameless_entry = new_message (JObj []) 1"

theorem worker_drains_queue_witness:
  "let w' = snd (worker_loop mem_redis mem_sql (default_settings []) toy_ml (replicate 3 some_readings)
      (worker_at (set_list MAIN_QUEUE [nameless_entry] empty_db) (some_db quiet_log)))
   in rlists (conn w') MAIN_QUEUE = [] \<and> rlists (conn w') PROCESSING_QUEUE = [] \<and> length (rlists (conn w') DLQ) \<le> 1"
proof -
  let ?w = "worker_at (set_list MAIN_QUEUE [nameless_entry] empty_db) (some_db quiet_log)"
  let ?run = "worker_loop mem_redis mem_sql (default_settings []) toy_ml (replicate 3 some_readings) ?w"
  have inv: "queue_inv (db (\<lambda>d. d) ?w)"
    by (simp add: worker_at_def queue_inv_def nameless_entry_def empty_db_def live_new_message)
  have lists: "rlists (db (\<lambda>d. d) ?w) MAIN_QUEUE = [nameless_entry]"
    "rlists (db (\<lambda>d. d) ?w) PROCESSING_QUEUE = []" "rlists (db (\<lambda>d. d) ?w) DLQ = []"
    by (simp_all add: worker_at_def empty_db_def)
  have n: "3 * length (rlists (db (\<lambda>d. d) ?w) MAIN_QUEUE) \<le> length (replicate 3 some_readings)"
    by (simp add: lists)
  note d = worker_drains_queue [OF redis_ok_mem redis_up_mem sql_ok_mem inv n,
      of "default_settings []" toy_ml "fst ?run" "snd ?run", OF prod.collapse [symmetric], unfolded lists]
  from d obtain new settled where "rlists (conn (snd ?run)) DLQ = new @ []"
    and "image_mset payload_of (mset [nameless_entry]) = image_mset payload_of (mset new) + settled" by blast
  then have "rlists (conn (snd ?run)) DLQ = new"
    and "{#payload_of nameless_entry#} = image_mset payload_of (mset new) + settled" by simp_all
  moreover from this have "size (image_mset payload_of (mset new) + settled) = 1" by (metis size_single)
  ultimately show ?thesis using d by (simp add: Let_def)
qed

end
