(* ===== verification/Ingestion.thy ===== *)
theory Ingestion
  imports LogService QueueDelivery
begin

text \<open>
  What the ingestion of a log leaves behind, whatever Redis and the database do: the row and its
  mark in the database, and the message in the main queue.
\<close>

section \<open>The rows of one log\<close>

definition rows_of :: "string \<Rightarrow> sql_db \<Rightarrow> log_row list" where
  "rows_of u d = filter (\<lambda>l. log_key l = u) (logs d)"

text \<open>The other processes leave the log alone (only a worker that starts up touches logs at all).\<close>

definition leaves_log :: "(sql_db \<Rightarrow> sql_db \<Rightarrow> bool) \<Rightarrow> string \<Rightarrow> bool" where
  "leaves_log others u \<longleftrightarrow> (\<forall>d d'. others d d' \<longrightarrow> rows_of u d' = rows_of u d)"

lemma leaves_logD: "leaves_log others u \<Longrightarrow> others d d' \<Longrightarrow> rows_of u d' = rows_of u d"
  by (simp add: leaves_log_def)

lemma leaves_log_eq [simp]: "leaves_log (=) u"
  by (simp add: leaves_log_def)

lemma rows_of_key: "l \<in> set (rows_of u d) \<Longrightarrow> log_key l = u"
  by (simp add: rows_of_def)

lemma rows_of_insert:
  "apply_change (InsertLog l) d = Inr d' \<Longrightarrow> log_key l = u \<Longrightarrow> rows_of u d' = rows_of u d @ [l]"
  by (auto simp: rows_of_def split: if_splits)

lemma rows_of_delete: "apply_change (DeleteLog u) d = Inr d' \<Longrightarrow> rows_of u d' = []"
  by (auto simp: rows_of_def)

lemma filter_mark: "filter (\<lambda>l. log_key l = u) (map (mark_enqueued v) ls)
    = map (mark_enqueued v) (filter (\<lambda>l. log_key l = u) ls)"
  by (induction ls) auto

lemma rows_of_mark:
  assumes "apply_change (SetEnqueued v) d = Inr d'"
  shows "rows_of u d' = (if u = v then map (\<lambda>l. l\<lparr>log_enqueued := True\<rparr>) (rows_of u d) else rows_of u d)"
proof -
  have d': "logs d' = map (mark_enqueued v) (logs d)" using assms by (auto split: if_splits)
  have "map (mark_enqueued v) (rows_of u d) =
      (if u = v then map (\<lambda>l. l\<lparr>log_enqueued := True\<rparr>) (rows_of u d) else rows_of u d)"
    by (auto simp: mark_enqueued_def intro!: map_idI dest: rows_of_key)
  then show ?thesis by (simp add: rows_of_def d' filter_mark)
qed

text \<open>A commit has run on data the others may have changed, or it raised, done or not done.\<close>

lemma commit_cases:
  assumes "sql_ok D view others" and "D (Commit cs) s = (r, s')"
  obtains d where "others (view s) d"
    and "r = Inr Committed \<and> apply_changes cs d = Inr (view s')
      \<or> (r = Inl IntegrityError \<or> r = Inl DatabaseError) \<and> (view s' = d \<or> apply_changes cs d = Inr (view s'))"
proof -
  obtain d where o: "others (view s) d"
    and s: "view s' = d \<or> view s' = snd (run_stmt (Commit cs) d)"
    and ok: "\<And>x. r = Inr x \<Longrightarrow> run_stmt (Commit cs) d = (Inr x, view s')"
    and er: "\<And>e. r = Inl e \<Longrightarrow> e = IntegrityError \<or> e = DatabaseError"
    using sql_cases [OF assms] by metis
  show thesis
  proof (rule that [OF o])
    show "r = Inr Committed \<and> apply_changes cs d = Inr (view s')
      \<or> (r = Inl IntegrityError \<or> r = Inl DatabaseError) \<and> (view s' = d \<or> apply_changes cs d = Inr (view s'))"
    proof (cases r)
      case (Inl e)
      with s er show ?thesis by (auto split: sum.splits)
    next
      case (Inr x)
      with ok [OF Inr] show ?thesis by (auto split: sum.splits)
    qed
  qed
qed

lemma apiE_commit_cases:
  assumes "sql_ok D view others" and "apiE D (Commit cs) w = (r, w')"
  obtains d where "others (view (api_sql w)) d" and "conn w' = conn w"
    and "r = Inr Committed \<and> apply_changes cs d = Inr (view (api_sql w'))
      \<or> (r = Inl IntegrityError \<or> r = Inl DatabaseError)
        \<and> (view (api_sql w') = d \<or> apply_changes cs d = Inr (view (api_sql w')))"
  using commit_cases [OF assms(1)] apiE_cases [OF assms(2)] by metis

lemma refresh_cases:
  assumes "sql_ok D view others" and "leaves_log others u" and "refresh D u w = (r, w')"
  shows "conn w' = conn w \<and> rows_of u (view (api_sql w')) = rows_of u (view (api_sql w))
    \<and> (\<forall>l. r = Inr l \<longrightarrow> (\<exists>ls. rows_of u (view (api_sql w)) = l # ls)) \<and> r \<noteq> Inl (HTTPException 429)"
proof -
  obtain r1 w1 where 1: "apiE D (SelectLog u) w = (r1, w1)" by fastforce
  then have D: "D (SelectLog u) (api_sql w) = (r1, api_sql w1)" and c: "conn w1 = conn w"
    using apiE_cases by blast+
  obtain d where d: "others (view (api_sql w)) d" "view (api_sql w1) = d"
    and ok: "\<And>x. r1 = Inr x \<Longrightarrow> x = LogRows (rows_of u d)"
    and er: "\<And>e. r1 = Inl e \<Longrightarrow> e = IntegrityError \<or> e = DatabaseError"
    using sql_cases [OF assms(1) D] unfolding rows_of_def
    by (metis run_stmt.simps(2) snd_conv fst_conv sum.inject(2))
  have rows: "rows_of u d = rows_of u (view (api_sql w))" using assms(2) d(1) by (rule leaves_logD)
  from assms(3) 1 have "w' = w1"
    by (auto simp: refresh_def bindE_apply returnE_apply raiseE_apply
        split: sum.splits rows.splits list.splits)
  with assms(3) 1 c d(2) ok er rows show ?thesis
    by (auto simp: refresh_def bindE_apply returnE_apply raiseE_apply
        split: sum.splits rows.splits list.splits)
qed

section \<open>Enqueueing\<close>

lemma redis_call_error:
  assumes "redis_ok R view" and "redis_call R c s = (Inl e, s')"
  shows "e \<in> {RedisError, UnicodeDecodeError, ProtocolError}"
proof (cases "R [c] s")
  case (Pair r u)
  have "case R [c] s of (Inr rs, s') \<Rightarrow> apply_cmds [c] (view s) = (rs, view s')
     | (Inl e, s') \<Rightarrow> e = RedisError \<and> (view s' = view s \<or> view s' = snd (apply_cmds [c] (view s)))"
    using assms(1) unfolding redis_ok_def by (elim allE)
  with Pair assms(2) show ?thesis
    by (auto simp: redis_call_def bindE_def returnE_def raiseE_def decode_reply_def
        split: sum.splits list.splits reply.splits if_splits)
qed

lemma enqueue_QueueFull:
  assumes "redis_ok R view" and "enqueue R cfg now p w = (Inl QueueFull, w')"
  shows "MAX_QUEUE_DEPTH cfg \<le> int (length (rlists (db view w) MAIN_QUEUE)) \<and> db view w' = db view w"
proof -
  obtain r1 w1 where 1: "redisE (redis_llen R MAIN_QUEUE) w = (r1, w1)" by fastforce
  note c1 = redisE_llen_cases [OF assms(1) 1]
  have "r1 \<noteq> Inl QueueFull"
    using 1 redis_call_error [OF assms(1)]
    by (auto simp: redisE_apply redis_llen_def bindE_def returnE_def raiseE_def
        split: prod.splits sum.splits reply.splits)
  moreover have "redisE (redis_lpush R MAIN_QUEUE (new_message p now)) v \<noteq> (Inl QueueFull, v')" for v v'
    using redis_call_error [OF assms(1)]
    by (auto simp: redisE_apply redis_lpush_def bindE_def returnE_def split: prod.splits sum.splits)
  ultimately show ?thesis
    using assms(2) 1 c1 by (auto simp: enqueue_def bindE_def raiseE_def split: sum.splits if_splits)
qed

lemma ingest_failed_counts:
  assumes "redis_ok R view" and "e \<noteq> QueueFull" and "ingest_failed R D l e w = (r, w')"
  shows "r = Inr l \<and> api_sql w' = api_sql w \<and> rlists (db view w') = rlists (db view w)"
proof -
  obtain r1 w1 where 1: "increment_async R ''enqueue_failures'' 1 w = (r1, w1)" by fastforce
  have "r1 = Inr ()" and "rlists (db view w1) = rlists (db view w)"
    using increment_async_returns [OF assms(1), of "''enqueue_failures''" 1 w] 1 by auto
  with 1 assms(2,3) redis_only_api_sql [OF redis_only_increment 1] show ?thesis
    by (simp add: ingest_failed_def thenE_apply tryE_apply returnE_apply)
qed

lemma ingest_failed_full:
  assumes "sql_ok D view others" and "leaves_log others (log_key l)"
    and "ingest_failed R D l QueueFull w = (r, w')"
  shows "conn w' = conn w \<and> (r = Inl (HTTPException 429) \<and> rows_of (log_key l) (view (api_sql w')) = []
    \<or> (r = Inl IntegrityError \<or> r = Inl DatabaseError) \<and>
      rows_of (log_key l) (view (api_sql w')) \<in> {[], rows_of (log_key l) (view (api_sql w))})"
proof -
  obtain r1 w1 where 1: "apiE D (Commit [DeleteLog (log_key l)]) w = (r1, w1)" by fastforce
  obtain d where d: "others (view (api_sql w)) d" "conn w1 = conn w"
    and c: "r1 = Inr Committed \<and> apply_changes [DeleteLog (log_key l)] d = Inr (view (api_sql w1))
      \<or> (r1 = Inl IntegrityError \<or> r1 = Inl DatabaseError)
        \<and> (view (api_sql w1) = d \<or> apply_changes [DeleteLog (log_key l)] d = Inr (view (api_sql w1)))"
    using apiE_commit_cases [OF assms(1) 1] by metis
  have keep: "rows_of (log_key l) d = rows_of (log_key l) (view (api_sql w))"
    using assms(2) d(1) by (rule leaves_logD)
  have del: "apply_changes [DeleteLog (log_key l)] d = Inr d' \<Longrightarrow> rows_of (log_key l) d' = []" for d'
    by (auto simp: rows_of_def)
  have "w' = w1" and "r = (case r1 of Inl e \<Rightarrow> Inl e | Inr _ \<Rightarrow> Inl (HTTPException 429))"
    using assms(3) 1
    by (auto simp: ingest_failed_def thenE_apply raiseE_apply split: sum.splits)
  then show ?thesis using c d(2) keep del by auto
qed

lemma new_log_key [simp]: "log_key (new_log key t p) = key"
  by (simp add: new_log_def)

text \<open>What the lists and the row of a log may be after the attempt to enqueue it.\<close>

lemma ingest_send:
  assumes "redis_ok R view" and "sql_ok D dview others" and "leaves_log others (log_key l)"
    and "rows_of (log_key l) (dview (api_sql w)) = [l]"
    and "tryE (thenE (enqueue R cfg now (log_payload l))
           (thenE (apiE D (Commit [SetEnqueued (log_key l)])) (returnE (l\<lparr>log_enqueued := True\<rparr>))))
         (ingest_failed R D l) w = (r, w')"
  defines "before \<equiv> rlists (db view w)"
  defines "sent \<equiv> before(MAIN_QUEUE := new_message (log_payload l) now # before MAIN_QUEUE)"
    and "rows \<equiv> rows_of (log_key l) (dview (api_sql w'))"
  shows "r = Inr (l\<lparr>log_enqueued := True\<rparr>) \<and> rows = [l\<lparr>log_enqueued := True\<rparr>] \<and> rlists (db view w') = sent
    \<or> r = Inr l \<and> rows = [l] \<and> (rlists (db view w') = before \<or> rlists (db view w') = sent)
    \<or> r = Inr l \<and> rows = [l\<lparr>log_enqueued := True\<rparr>] \<and> rlists (db view w') = sent
    \<or> (r = Inl (HTTPException 429) \<and> rows = []
       \<or> (r = Inl IntegrityError \<or> r = Inl DatabaseError) \<and> rows \<in> {[], [l]})
      \<and> rlists (db view w') = before \<and> MAX_QUEUE_DEPTH cfg \<le> int (length (before MAIN_QUEUE))"
proof -
  obtain r1 w1 where 1: "enqueue R cfg now (log_payload l) w = (r1, w1)" by fastforce
  have sql1: "api_sql w1 = api_sql w" by (rule redis_only_api_sql [OF redis_only_enqueue 1])
  show ?thesis
  proof (cases r1)
    case (Inl e)
    with 1 assms(5) have f: "ingest_failed R D l e w1 = (r, w')" by (simp add: tryE_apply thenE_apply)
    show ?thesis
    proof (cases "e = QueueFull")
      case True
      with 1 Inl have full: "MAX_QUEUE_DEPTH cfg \<le> int (length (before MAIN_QUEUE))" "db view w1 = db view w"
        using enqueue_QueueFull [OF assms(1)] unfolding before_def by blast+
      from ingest_failed_full [OF assms(2,3) f [unfolded True]] assms(4) sql1 full show ?thesis
        unfolding rows_def before_def by auto
    next
      case False
      from enqueue_cases [OF assms(1) 1] Inl have "rlists (db view w1) = before \<or> rlists (db view w1) = sent"
        unfolding sent_def before_def by (elim disjE conjE) simp_all
      with ingest_failed_counts [OF assms(1) False f] assms(4) sql1 show ?thesis
        unfolding rows_def by auto
    qed
  next
    case (Inr x)
    with enqueue_cases [OF assms(1) 1] have s1: "rlists (db view w1) = sent"
      unfolding sent_def before_def by (elim disjE conjE) simp_all
    obtain r2 w2 where 2: "apiE D (Commit [SetEnqueued (log_key l)]) w1 = (r2, w2)" by fastforce
    obtain d where d: "others (dview (api_sql w1)) d" "conn w2 = conn w1"
      and c: "r2 = Inr Committed \<and> apply_changes [SetEnqueued (log_key l)] d = Inr (dview (api_sql w2))
        \<or> (r2 = Inl IntegrityError \<or> r2 = Inl DatabaseError)
          \<and> (dview (api_sql w2) = d \<or> apply_changes [SetEnqueued (log_key l)] d = Inr (dview (api_sql w2)))"
      using apiE_commit_cases [OF assms(2) 2] by metis
    have keep: "rows_of (log_key l) d = [l]"
      using leaves_logD [OF assms(3) d(1)] assms(4) sql1 by simp
    have mark: "rows_of (log_key l) d' = [l\<lparr>log_enqueued := True\<rparr>]"
      if "apply_changes [SetEnqueued (log_key l)] d = Inr d'" for d'
    proof -
      from that have "apply_change (SetEnqueued (log_key l)) d = Inr d'"
        by (simp del: apply_change.simps split: sum.splits)
      from rows_of_mark [OF this, of "log_key l"] keep show ?thesis by simp
    qed
    show ?thesis
    proof (cases r2)
      case (Inl e)
      with 1 2 Inr assms(5) have f: "ingest_failed R D l e w2 = (r, w')" by (simp add: tryE_apply thenE_apply)
      from Inl c have "e \<noteq> QueueFull" by auto
      from ingest_failed_counts [OF assms(1) this f] Inl c keep mark s1 d(2) show ?thesis
        unfolding rows_def by auto
    next
      case (Inr y)
      with 1 2 \<open>r1 = Inr x\<close> assms(5) have "r = Inr (l\<lparr>log_enqueued := True\<rparr>)" "w' = w2"
        by (simp_all add: tryE_apply thenE_apply returnE_apply)
      with Inr c mark s1 d(2) show ?thesis unfolding rows_def by auto
    qed
  qed
qed

section \<open>Every log is accounted for\<close>

lemma ingest_cases:
  assumes "redis_ok R view" and "sql_ok D dview others" and "leaves_log others key"
    and "rows_of key (dview (api_sql w)) = []"
    and "ingest_log available R D cfg key utc_now now p w = (r, w')"
  shows "let l = new_log key utc_now p; before = rlists (db view w); after = rlists (db view w');
      sent = before(MAIN_QUEUE := new_message (log_payload l) now # before MAIN_QUEUE);
      rows = rows_of key (dview (api_sql w'))
    in (after = before \<or> after = sent)
      \<and> (rows = [] \<or> rows = [l] \<or> rows = [l\<lparr>log_enqueued := True\<rparr>] \<and> after = sent)
      \<and> (\<forall>x. r = Inr x \<longrightarrow> rows \<noteq> [] \<and> (x = l \<or> x = l\<lparr>log_enqueued := True\<rparr> \<and> rows = [x]))
      \<and> (r = Inl (HTTPException 429) \<longrightarrow>
          rows = [] \<and> after = before \<and> MAX_QUEUE_DEPTH cfg \<le> int (length (before MAIN_QUEUE)))"
proof -
  define l where "l = new_log key utc_now p"
  have k: "log_key l = key" by (simp add: l_def)
  obtain r1 w1 where 1: "apiE D (Commit [InsertLog l]) w = (r1, w1)" by fastforce
  obtain d where d: "others (dview (api_sql w)) d" and c1: "conn w1 = conn w"
    and c: "r1 = Inr Committed \<and> apply_changes [InsertLog l] d = Inr (dview (api_sql w1))
      \<or> (r1 = Inl IntegrityError \<or> r1 = Inl DatabaseError)
        \<and> (dview (api_sql w1) = d \<or> apply_changes [InsertLog l] d = Inr (dview (api_sql w1)))"
    using apiE_commit_cases [OF assms(2) 1] by metis
  have none: "rows_of key d = []" using leaves_logD [OF assms(3) d] assms(4) by simp
  have one: "rows_of key d' = [l]" if "apply_changes [InsertLog l] d = Inr d'" for d'
  proof -
    from that have "apply_change (InsertLog l) d = Inr d'" by (simp del: apply_change.simps split: sum.splits)
    from rows_of_insert [OF this k] none show ?thesis by simp
  qed
  obtain r2 w2 where 2: "refresh D key w1 = (r2, w2)" by fastforce
  note f2 = refresh_cases [OF assms(2,3) 2]
  show ?thesis
  proof (cases "isl r1 \<or> isl r2")
    case True
    have "r \<noteq> Inl (HTTPException 429) \<and> isl r \<and> (w' = w1 \<and> isl r1 \<or> w' = w2 \<and> \<not> isl r1)"
      using True assms(5) 1 2 c f2
      by (auto simp: ingest_log_def thenE_apply bindE_apply l_def [symmetric] isl_def split: sum.splits)
    then have "isl r" "r \<noteq> Inl (HTTPException 429)" "conn w' = conn w"
      "rows_of key (dview (api_sql w')) \<in> {[], [l]}"
      using c c1 f2 none one by (auto simp: isl_def)
    then show ?thesis by (auto simp: Let_def l_def [symmetric] isl_def)
  next
    case False
    then have r1: "r1 = Inr Committed" using c by auto
    from False obtain x where r2: "r2 = Inr x" by (cases r2) auto
    have row1: "rows_of key (dview (api_sql w1)) = [l]" using c r1 one by auto
    with f2 r2 have x: "x = l" and row2: "rows_of key (dview (api_sql w2)) = [l]" and c2: "conn w2 = conn w"
      using c1 by auto
    show ?thesis
    proof (cases available)
      case False
      with assms(5) 1 2 r1 r2 x have "r = Inr l \<and> w' = w2"
        by (simp add: ingest_log_def thenE_apply bindE_apply l_def [symmetric] get_enqueue_def returnE_apply)
      with row2 c2 show ?thesis by (simp add: Let_def l_def [symmetric])
    next
      case True
      with assms(5) 1 2 r1 r2 x have run: "tryE (thenE (enqueue R cfg now (log_payload l))
           (thenE (apiE D (Commit [SetEnqueued (log_key l)])) (returnE (l\<lparr>log_enqueued := True\<rparr>))))
         (ingest_failed R D l) w2 = (r, w')"
        by (simp add: ingest_log_def thenE_apply bindE_apply l_def [symmetric] get_enqueue_def)
      have pre: "leaves_log others (log_key l)" "rows_of (log_key l) (dview (api_sql w2)) = [l]"
        using assms(3) row2 k by simp_all
      from ingest_send [OF assms(1,2) pre run] show ?thesis
        unfolding k c2 Let_def l_def [symmetric] by (elim disjE conjE) auto
    qed
  qed
qed

text \<open>
  C6. No log is lost by the ingestion, whatever Redis and the database do. Let \<open>l\<close> be the row made
  of the post. Afterwards the lists are as before or have its message, the table has no row for it,
  or the row unmarked (which the sweep of the next start selects), or the row marked, and then its
  message is in the main queue. A log is returned only when its row is in the table, and the
  answer 429 is given only when the queue was full, with neither a row nor a message left.
\<close>

theorem ingest_accounts_for_log:
  assumes "redis_ok R view" and "sql_ok D dview others" and "leaves_log others key"
    and "rows_of key (dview (api_sql w)) = []"
    and "ingest_log available R D cfg key utc_now now p w = (r, w')"
  shows "let l = new_log key utc_now p; before = rlists (db view w); after = rlists (db view w');
      sent = before(MAIN_QUEUE := new_message (log_payload l) now # before MAIN_QUEUE);
      rows = rows_of key (dview (api_sql w'))
    in (after = before \<or> after = sent)
      \<and> (rows = [] \<or> rows = [l] \<or> rows = [l\<lparr>log_enqueued := True\<rparr>] \<and> after = sent)
      \<and> (\<forall>x. r = Inr x \<longrightarrow> rows \<noteq> [] \<and> (x = l \<or> x = l\<lparr>log_enqueued := True\<rparr> \<and> rows = [x]))
      \<and> (r = Inl (HTTPException 429) \<longrightarrow>
          rows = [] \<and> after = before \<and> MAX_QUEUE_DEPTH cfg \<le> int (length (before MAIN_QUEUE)))"
  using assms by (rule ingest_cases)

definition api_at :: "'r \<Rightarrow> 'd \<Rightarrow> ('r, 'd) api" where
  "api_at c d = \<lparr>conn = c, counters = initial_counters, api_sql = d\<rparr>"

lemma api_at_simps [simp]: "conn (api_at c d) = c" "api_sql (api_at c d) = d"
  by (simp_all add: api_at_def)

theorem ingest_accounts_for_log_witness:
  "let cfg = (default_settings [])\<lparr>MAX_QUEUE_DEPTH := 0\<rparr>;
       run = ingest_log True mem_redis mem_sql cfg ''k'' 0 0 sample_post (api_at empty_db \<lparr>logs = [], alerts = []\<rparr>)
   in fst run = Inl (HTTPException 429) \<and> rows_of ''k'' (api_sql (snd run)) = []"
proof -
  let ?cfg = "(default_settings [])\<lparr>MAX_QUEUE_DEPTH := 0\<rparr>"
  let ?w = "api_at empty_db \<lparr>logs = [], alerts = []\<rparr>"
  let ?run = "ingest_log True mem_redis mem_sql ?cfg ''k'' 0 0 sample_post ?w"
  have full: "fst ?run = Inl (HTTPException 429)" by code_simp
  have e: "rows_of ''k'' (api_sql ?w) = []" by (simp add: rows_of_def)
  have run: "ingest_log True mem_redis mem_sql ?cfg ''k'' 0 0 sample_post ?w = (fst ?run, snd ?run)" by simp
  from ingest_accounts_for_log [OF redis_ok_mem sql_ok_mem leaves_log_eq e run] full
  show ?thesis unfolding Let_def by blast
qed

end
