(* ===== verification/StartupSweep.thy ===== *)
theory StartupSweep
  imports WorkerRounds Ingestion
begin

text \<open>
  The sweep of the worker's start-up (\<open>_sweep_unenqueued_logs\<close>): it marks a log only after its
  message is in the main queue, whatever fails, and enqueues every unmarked log when nothing does.
\<close>

section \<open>Marking several logs\<close>

lemma apply_marks:
  assumes "set us \<subseteq> log_key ` set (logs d)"
  shows "apply_changes (map SetEnqueued us) d
    = Inr (d\<lparr>logs := map (\<lambda>l. if log_key l \<in> set us then l\<lparr>log_enqueued := True\<rparr> else l) (logs d)\<rparr>)"
  using assms
proof (induction us arbitrary: d)
  case Nil
  then show ?case by simp
next
  case (Cons u us)
  let ?d = "d\<lparr>logs := map (mark_enqueued u) (logs d)\<rparr>"
  have "log_key ` set (logs ?d) = log_key ` set (logs d)" by (simp add: image_image)
  with Cons have "apply_changes (map SetEnqueued us) ?d
    = Inr (?d\<lparr>logs := map (\<lambda>l. if log_key l \<in> set us then l\<lparr>log_enqueued := True\<rparr> else l) (logs ?d)\<rparr>)"
    by simp
  with Cons.prems show ?case by (simp add: comp_def mark_enqueued_def)
qed

lemma apply_marks_rows:
  assumes "apply_changes (map SetEnqueued us) d = Inr d'"
  shows "rows_of u d' = (if u \<in> set us then map (\<lambda>l. l\<lparr>log_enqueued := True\<rparr>) (rows_of u d) else rows_of u d)"
  using assms
proof (induction us arbitrary: d)
  case Nil
  then show ?case by simp
next
  case (Cons v us)
  then obtain d1 where 1: "apply_change (SetEnqueued v) d = Inr d1"
    and 2: "apply_changes (map SetEnqueued us) d1 = Inr d'"
    by (auto simp del: apply_change.simps split: sum.splits)
  have "rows_of u d1 = (if u = v then map (\<lambda>l. l\<lparr>log_enqueued := True\<rparr>) (rows_of u d) else rows_of u d)"
    by (rule rows_of_mark [OF 1])
  with Cons.IH [OF 2] show ?case by (auto simp: comp_def)
qed

section \<open>The loop\<close>

abbreviation main_queue :: "('r \<Rightarrow> redis_db) \<Rightarrow> ('r, 'z) env_scheme \<Rightarrow> stored list" where
  "main_queue view w \<equiv> rlists (db view w) MAIN_QUEUE"

lemma redis_only_sql:
  assumes "redis_only f" and "f w = (r, w')"
  shows "sql w' = sql w"
  using redis_onlyD [OF assms] by auto

lemma try_enqueue:
  assumes "redis_ok R view"
    and "tryE (thenE (enqueue R cfg now p) (returnE True)) (\<lambda>_. returnE False) w = (r, w')"
  shows "(r = Inr True \<and> main_queue view w' = new_message p now # main_queue view w
      \<or> r = Inr False \<and> set (main_queue view w) \<subseteq> set (main_queue view w'))"
proof -
  obtain r1 w1 where 1: "enqueue R cfg now p w = (r1, w1)" by fastforce
  from assms(2) 1 have "w' = w1" and "r = (case r1 of Inl _ \<Rightarrow> Inr False | Inr _ \<Rightarrow> Inr True)"
    by (auto simp: tryE_apply thenE_apply returnE_apply split: sum.splits)
  with enqueue_cases [OF assms(1) 1] show ?thesis by (elim disjE conjE exE) auto
qed

lemma sweep_loop_queues:
  assumes "redis_ok R view" and "sweep_loop R cfg nows ls w = (r, w')"
  shows "\<exists>us. r = Inr us \<and> sql w' = sql w \<and> set (main_queue view w) \<subseteq> set (main_queue view w')
    \<and> (\<forall>u \<in> set us. \<exists>l \<in> set ls. log_key l = u
        \<and> new_message (log_payload l) (nows l) \<in> set (main_queue view w'))"
  using assms(2)
proof (induction ls arbitrary: w r w')
  case Nil
  then show ?case by (simp add: returnE_apply)
next
  case (Cons l ls)
  let ?f = "tryE (thenE (enqueue R cfg (nows l) (log_payload l)) (returnE True)) (\<lambda>_. returnE False)"
  obtain r1 w1 where 1: "?f w = (r1, w1)" by fastforce
  note c1 = try_enqueue [OF assms(1) 1]
  have s1: "sql w1 = sql w" using 1
    by (rule redis_only_sql [rotated]) (auto intro!: redis_only_intros)
  obtain r2 w2 where 2: "sweep_loop R cfg nows ls w1 = (r2, w2)" by fastforce
  obtain us where us: "r2 = Inr us" and s2: "sql w2 = sql w1"
    and sub: "set (main_queue view w1) \<subseteq> set (main_queue view w2)"
    and q: "\<forall>u \<in> set us. \<exists>l \<in> set ls. log_key l = u
        \<and> new_message (log_payload l) (nows l) \<in> set (main_queue view w2)"
    using Cons.IH [OF 2] by blast
  from c1 obtain sent where r1: "r1 = Inr sent" by blast
  with Cons.prems 1 2 us have "r = Inr (if sent then log_key l # us else us)" and "w' = w2"
    by (auto simp: bindE_apply returnE_apply)
  moreover have "set (main_queue view w) \<subseteq> set (main_queue view w1)"
    and "sent \<Longrightarrow> new_message (log_payload l) (nows l) \<in> set (main_queue view w1)"
    using c1 r1 by auto
  ultimately show ?case using s1 s2 sub q by (cases sent) auto
qed

text \<open>With Redis answering and room for all, every log of the list is enqueued, in order.\<close>

lemma try_enqueue_up:
  assumes "redis_ok R view" and "redis_up R" and "int (length (main_queue view w)) < MAX_QUEUE_DEPTH cfg"
  shows "\<exists>w'. tryE (thenE (enqueue R cfg now p) (returnE True)) (\<lambda>_. returnE False) w = (Inr True, w')
    \<and> main_queue view w' = new_message p now # main_queue view w \<and> sql w' = sql w"
proof -
  obtain r w1 where 1: "enqueue R cfg now p w = (r, w1)" by fastforce
  note b = enqueue_answered [OF assms(1,2) 1]
  have "r \<noteq> Inl QueueFull" using b assms(3) by linarith
  with b have "r = Inr ()" and "main_queue view w1 = new_message p now # main_queue view w" by auto
  with 1 redis_only_sql [OF redis_only_enqueue 1] show ?thesis
    by (auto simp: tryE_apply thenE_apply returnE_apply)
qed

lemma sweep_loop_up:
  assumes "redis_ok R view" and "redis_up R"
    and "int (length (main_queue view w)) + int (length ls) \<le> MAX_QUEUE_DEPTH cfg"
  shows "\<exists>w'. sweep_loop R cfg nows ls w = (Inr (map log_key ls), w') \<and> sql w' = sql w
    \<and> main_queue view w' = rev (map (\<lambda>l. new_message (log_payload l) (nows l)) ls) @ main_queue view w"
  using assms(3)
proof (induction ls arbitrary: w)
  case Nil
  then show ?case by (simp add: returnE_apply)
next
  case (Cons l ls)
  have room: "int (length (main_queue view w)) < MAX_QUEUE_DEPTH cfg" using Cons.prems by simp
  obtain w1 where 1: "tryE (thenE (enqueue R cfg (nows l) (log_payload l)) (returnE True)) (\<lambda>_. returnE False) w
      = (Inr True, w1)" and q: "main_queue view w1 = new_message (log_payload l) (nows l) # main_queue view w"
    and s: "sql w1 = sql w"
    using try_enqueue_up [OF assms(1,2) room] by blast
  obtain w2 where "sweep_loop R cfg nows ls w1 = (Inr (map log_key ls), w2)" "sql w2 = sql w1"
    "main_queue view w2 = rev (map (\<lambda>l. new_message (log_payload l) (nows l)) ls) @ main_queue view w1"
    using Cons.IH [of w1] Cons.prems q by auto
  with 1 q s show ?case by (simp add: bindE_apply returnE_apply)
qed

section \<open>The sweep\<close>

lemma sqlE_commit_cases:
  assumes "sql_ok D view others" and "sqlE D (Commit cs) w = (r, w')"
  obtains d where "others (view (sql w)) d" and "conn w' = conn w"
    and "r = Inr Committed \<and> apply_changes cs d = Inr (view (sql w'))
      \<or> (r = Inl IntegrityError \<or> r = Inl DatabaseError)
        \<and> (view (sql w') = d \<or> apply_changes cs d = Inr (view (sql w')))"
  using commit_cases [OF assms(1)] sqlE_cases [OF assms(2)] sqlE_frame [OF assms(2)] by metis

text \<open>What a sweep has read, sent and marked, wherever it stopped.\<close>

lemma sweep_outcome:
  assumes "redis_ok R view" and "sql_ok D dview others"
    and "sweep_unenqueued_logs R D cfg nows w = (r, w')"
  shows "\<exists>d d' us. others (dview (sql w)) d \<and> (d' = d \<or> others d d')
    \<and> (dview (sql w') = d' \<or> apply_changes (map SetEnqueued us) d' = Inr (dview (sql w')))
    \<and> (\<forall>u \<in> set us. \<exists>l \<in> set (logs d). log_key l = u \<and> \<not> log_enqueued l
         \<and> new_message (log_payload l) (nows l) \<in> set (main_queue view w'))"
proof -
  obtain r1 w1 where 1: "sqlE D SelectUnenqueued w = (r1, w1)" by fastforce
  then have D: "D SelectUnenqueued (sql w) = (r1, sql w1)" using sqlE_cases by blast
  obtain d where d: "others (dview (sql w)) d" and w1: "dview (sql w1) = d"
    and ok: "\<And>x. r1 = Inr x \<Longrightarrow> x = LogRows (filter (\<lambda>l. \<not> log_enqueued l) (logs d))"
    using sql_cases [OF assms(2) D] by (metis run_stmt.simps(1) snd_conv fst_conv sum.inject(2))
  show ?thesis
  proof (cases r1)
    case (Inl e)
    with assms(3) 1 have "w' = w1" by (simp add: sweep_unenqueued_logs_def bindE_apply)
    with w1 d show ?thesis by (intro exI [of _ d] exI [of _ "[]"]) simp
  next
    case (Inr x)
    let ?ls = "filter (\<lambda>l. \<not> log_enqueued l) (logs d)"
    obtain r2 w2 where 2: "sweep_loop R cfg nows ?ls w1 = (r2, w2)" by fastforce
    obtain us where us: "r2 = Inr us" "sql w2 = sql w1"
      and q: "\<forall>v \<in> set us. \<exists>l \<in> set ?ls. log_key l = v
        \<and> new_message (log_payload l) (nows l) \<in> set (main_queue view w2)"
      using sweep_loop_queues [OF assms(1) 2] by blast
    note run = assms(3) 1 2 Inr ok [OF Inr] us(1)
    show ?thesis
    proof (cases "us = []")
      case True
      with run have "w' = w2" by (simp add: sweep_unenqueued_logs_def bindE_apply returnE_apply)
      with w1 us(2) d show ?thesis by (intro exI [of _ d] exI [of _ "[]"]) simp
    next
      case False
      obtain r3 w3 where 3: "sqlE D (Commit (map SetEnqueued us)) w2 = (r3, w3)" by fastforce
      obtain d3 where d3: "others (dview (sql w2)) d3" "conn w3 = conn w2"
        and c3: "dview (sql w3) = d3 \<or> apply_changes (map SetEnqueued us) d3 = Inr (dview (sql w3))"
        using sqlE_commit_cases [OF assms(2) 3] by metis
      have "w' = w3"
        using run 3 False by (auto simp: sweep_unenqueued_logs_def bindE_apply returnE_apply split: sum.splits)
      with c3 d3 q us(2) w1 d show ?thesis by (intro exI [of _ d] exI [of _ d3] exI [of _ us]) auto
    qed
  qed
qed

text \<open>
  C16. The sweep marks only what it has enqueued: whatever Redis and the database do, a log that was
  unmarked before the sweep is unmarked after it, or it is marked and its message is in the main
  queue. A failure in between can send a message twice, and never drops one.
\<close>

theorem sweep_marks_only_queued:
  assumes "redis_ok R view" and "sql_ok D dview others" and "leaves_log others u"
    and "rows_of u (dview (sql w)) = [l]" and "\<not> log_enqueued l"
    and "sweep_unenqueued_logs R D cfg nows w = (r, w')"
  shows "rows_of u (dview (sql w')) = [l]
    \<or> rows_of u (dview (sql w')) = [l\<lparr>log_enqueued := True\<rparr>]
      \<and> new_message (log_payload l) (nows l) \<in> set (main_queue view w')"
proof -
  obtain d d' us where
    o: "others (dview (sql w)) d" "d' = d \<or> others d d'"
    and m: "dview (sql w') = d' \<or> apply_changes (map SetEnqueued us) d' = Inr (dview (sql w'))"
    and q: "\<forall>v \<in> set us. \<exists>l \<in> set (logs d). log_key l = v \<and> \<not> log_enqueued l
           \<and> new_message (log_payload l) (nows l) \<in> set (main_queue view w')"
    using sweep_outcome [OF assms(1,2,6)] by blast
  have row: "rows_of u d = [l]" "rows_of u d' = [l]"
    using leaves_logD [OF assms(3) o(1)] leaves_logD [OF assms(3), of d d'] o(2) assms(4) by auto
  have queued: "new_message (log_payload l) (nows l) \<in> set (main_queue view w')" if u: "u \<in> set us"
  proof -
    from q u obtain l' where "l' \<in> set (rows_of u d)"
      and "new_message (log_payload l') (nows l') \<in> set (main_queue view w')" by (auto simp: rows_of_def)
    with row show ?thesis by simp
  qed
  from m show ?thesis
  proof
    assume "apply_changes (map SetEnqueued us) d' = Inr (dview (sql w'))"
    from apply_marks_rows [OF this, of u] row queued show ?thesis by auto
  qed (use row in simp)
qed

definition unsent_log :: log_row where
  "unsent_log = some_log ''INFO'' ''hello''\<lparr>log_enqueued := False\<rparr>"

text \<open>The commit of the marks fails: the message is queued and the log is left for the next sweep.\<close>

theorem sweep_marks_only_queued_witness:
  "let w' = snd (sweep_unenqueued_logs mem_redis sim_sql (default_settings []) (\<lambda>_. 5)
      (worker_at empty_db ([Runs, Fails], some_db unsent_log)))
   in \<forall>l \<in> set (rows_of uuid1 (snd (sql w'))). log_enqueued l \<longrightarrow>
        new_message (log_payload unsent_log) 5 \<in> set (main_queue (\<lambda>d. d) w')"
proof -
  let ?w = "worker_at empty_db ([Runs, Fails], some_db unsent_log)"
  let ?run = "sweep_unenqueued_logs mem_redis sim_sql (default_settings []) (\<lambda>_. 5) ?w"
  have row: "rows_of uuid1 (snd (sql ?w)) = [unsent_log]"
    by (simp add: rows_of_def worker_at_def some_db_def unsent_log_def some_log_def)
  have un: "\<not> log_enqueued unsent_log" by (simp add: unsent_log_def)
  have run: "?run = (fst ?run, snd ?run)" by simp
  from sweep_marks_only_queued [OF redis_ok_mem sql_ok_sim leaves_log_eq row un run] un
  show ?thesis unfolding Let_def by auto
qed

text \<open>
  When Redis and the database answer and the queue has room, the sweep recovers everything: it
  returns the number of unmarked logs, the message of each is in the main queue, oldest log
  first in line, and every log of the table is marked.
\<close>

theorem sweep_enqueues_all:
  assumes "redis_ok R view" and "redis_up R" and "sql_up D dview"
    and "int (length (main_queue view w)) + int (length (filter (\<lambda>l. \<not> log_enqueued l) (logs (dview (sql w)))))
      \<le> MAX_QUEUE_DEPTH cfg"
  shows "\<exists>w'. sweep_unenqueued_logs R D cfg nows w
        = (Inr (length (filter (\<lambda>l. \<not> log_enqueued l) (logs (dview (sql w))))), w')
    \<and> main_queue view w' = rev (map (\<lambda>l. new_message (log_payload l) (nows l))
          (filter (\<lambda>l. \<not> log_enqueued l) (logs (dview (sql w))))) @ main_queue view w
    \<and> logs (dview (sql w')) = map (\<lambda>l. l\<lparr>log_enqueued := True\<rparr>) (logs (dview (sql w)))"
proof -
  let ?d = "dview (sql w)" and ?ls = "filter (\<lambda>l. \<not> log_enqueued l) (logs (dview (sql w)))"
  have all: "map (\<lambda>l. if log_key l \<in> set (map log_key ?ls) then l\<lparr>log_enqueued := True\<rparr> else l) (logs ?d)
      = map (\<lambda>l. l\<lparr>log_enqueued := True\<rparr>) (logs ?d)"
    by (intro map_cong refl) auto
  obtain s1 where s1: "D SelectUnenqueued (sql w) = (Inr (LogRows ?ls), s1)" "dview s1 = ?d"
    using assms(3) unfolding sql_up_def by (metis run_stmt.simps(1) fst_conv snd_conv)
  let ?w1 = "w\<lparr>sql := s1\<rparr>"
  have 1: "sqlE D SelectUnenqueued w = (Inr (LogRows ?ls), ?w1)"
    using s1 by (simp add: sqlE_def zoomE_apply)
  have "int (length (main_queue view ?w1)) + int (length ?ls) \<le> MAX_QUEUE_DEPTH cfg" using assms(4) by simp
  from sweep_loop_up [OF assms(1,2) this, of nows]
  obtain w2 where 2: "sweep_loop R cfg nows ?ls ?w1 = (Inr (map log_key ?ls), w2)" and s2: "sql w2 = s1"
    and q: "main_queue view w2 = rev (map (\<lambda>l. new_message (log_payload l) (nows l)) ?ls) @ main_queue view w"
    by auto
  show ?thesis
  proof (cases "?ls = []")
    case True
    with 1 2 have "sweep_unenqueued_logs R D cfg nows w = (Inr 0, w2)"
      by (simp add: sweep_unenqueued_logs_def bindE_apply returnE_apply)
    moreover have "map (\<lambda>l. l\<lparr>log_enqueued := True\<rparr>) (logs ?d) = logs ?d"
      using True by (intro map_idI) (auto simp: filter_empty_conv)
    ultimately show ?thesis using True s2 s1(2) q by auto
  next
    case False
    let ?c = "Commit (map SetEnqueued (map log_key ?ls))"
    have "apply_changes (map SetEnqueued (map log_key ?ls)) ?d
        = Inr (?d\<lparr>logs := map (\<lambda>l. l\<lparr>log_enqueued := True\<rparr>) (logs ?d)\<rparr>)"
      using apply_marks [of "map log_key ?ls" ?d] unfolding all by auto
    then have c: "run_stmt ?c ?d = (Inr Committed, ?d\<lparr>logs := map (\<lambda>l. l\<lparr>log_enqueued := True\<rparr>) (logs ?d)\<rparr>)"
      by simp
    have "\<exists>s3. D ?c (sql w2) = (Inr Committed, s3) \<and> dview s3 = ?d\<lparr>logs := map (\<lambda>l. l\<lparr>log_enqueued := True\<rparr>) (logs ?d)\<rparr>"
      using assms(3) c s2 s1(2) unfolding sql_up_def by (metis fst_conv snd_conv)
    then obtain s3 where s3: "D ?c (sql w2) = (Inr Committed, s3)"
      "dview s3 = ?d\<lparr>logs := map (\<lambda>l. l\<lparr>log_enqueued := True\<rparr>) (logs ?d)\<rparr>" by blast
    have "sqlE D ?c w2 = (Inr Committed, w2\<lparr>sql := s3\<rparr>)" using s3 by (simp add: sqlE_def zoomE_apply)
    with 1 2 False have "sweep_unenqueued_logs R D cfg nows w = (Inr (length ?ls), w2\<lparr>sql := s3\<rparr>)"
      by (simp add: sweep_unenqueued_logs_def bindE_apply returnE_apply)
    with q s3 show ?thesis by auto
  qed
qed

theorem sweep_enqueues_all_witness:
  "logs (sql (snd (sweep_unenqueued_logs mem_redis mem_sql (default_settings []) (\<lambda>_. 5)
      (worker_at empty_db (some_db unsent_log))))) = [unsent_log\<lparr>log_enqueued := True\<rparr>]"
proof -
  let ?w = "worker_at empty_db (some_db unsent_log)"
  have "int (length (main_queue (\<lambda>d. d) ?w)) + int (length (filter (\<lambda>l. \<not> log_enqueued l) (logs (sql ?w))))
      \<le> MAX_QUEUE_DEPTH (default_settings [])"
    by (simp add: worker_at_def empty_db_def some_db_def default_settings_def)
  from sweep_enqueues_all [OF redis_ok_mem redis_up_mem sql_up_mem this, of "\<lambda>_. 5"]
  show ?thesis by (auto simp: worker_at_def some_db_def)
qed

end
