(* ===== verification/Settlement.thy ===== *)
theory Settlement
  imports StartupSweep QueueFifo
begin

text \<open>
  The path of a log through the system: a message leaves the lists only when its log is decided, and
  so a log that was ingested and enqueued is still in flight or decided after a round of the worker.
\<close>

section \<open>A processed message is decided\<close>

text \<open>The detectors of the worker \<open>w\<close> assess the log as unsuspicious.\<close>

definition dismissed ::
  "settings \<Rightarrow> 'm ml \<Rightarrow> readings \<Rightarrow> log_row \<Rightarrow> ('r, 'm, 'd, 'z) worker_scheme \<Rightarrow> bool" where
  "dismissed cfg lib rd l w = (case fst (assess cfg lib rd l w) of
       Inl e \<Rightarrow> False
     | Inr a \<Rightarrow> final_severity (as_result a) = ''NONE'')"

lemma dismissed_cong: "detectors v = detectors w \<Longrightarrow> dismissed cfg lib rd l v = dismissed cfg lib rd l w"
  for v w :: "('r, 'm, 'd, 'z) worker_scheme"
  by (simp add: dismissed_def assess_def detectors_def split: prod.split sum.split)

lemma peaceful_keeps_log:
  assumes "peaceful others u key" and "others d d'" and "u \<in> log_key ` set (logs d)"
  shows "u \<in> log_key ` set (logs d')"
  using assms unfolding peaceful_def by blast

lemma peaceful_keeps_fresh:
  assumes "peaceful others u key" and "others d d'" and "key \<notin> alert_key ` set (alerts d)"
  shows "key \<notin> alert_key ` set (alerts d')"
  using assms unfolding peaceful_def by blast

lemma process_message_decides:
  assumes "redis_ok R view" and "redis_up R" and "sql_ok D dview others"
    and "\<And>u. peaceful others u (rd_alert_key rd)"
    and "rd_alert_key rd \<notin> alert_key ` set (alerts (dview (sql w)))"
    and "at_head m (db view w)" and "in_flight (db view w') \<noteq> in_flight (db view w)"
    and "process_message R D cfg lib rd m w = (Inr (), w')"
  shows "\<exists>j u. message_log_id m = Inr j \<and> parse_log_id j = Inr u
    \<and> (u \<in> alert_log ` set (alerts (dview (sql w')))
      \<or> (\<exists>d l. others (dview (sql w)) d \<and> l \<in> set (rows_of u d) \<and> dismissed cfg lib rd l w))"
  using assms(3,8)
proof (cases rule: process_message_split)
  case (raised e)
  then show ?thesis by simp
next
  case (retried v)
  obtain r1 v1 where 1: "retry_or_dlq R (rd_retry rd) m v = (r1, v1)" by fastforce
  have "at_head m (db view v)" using assms(6) retried(2) by simp
  from retry_up [OF assms(1,2) this 1] retried 1 assms(7) show ?thesis
    by (cases r1) (auto simp: thenE_apply returnE_apply)
next
  case (skipped v j u)
  have "sql w' = sql v" by (rule redis_only_sql [OF redis_only_acknowledge skipped(1)])
  with skipped show ?thesis by auto
next
  case (processed l v j d)
  have k: "log_key l \<in> log_key ` set (logs (dview (sql v)))"
    using peaceful_keeps_log [OF assms(4) processed(6)] processed(7) by blast
  have a: "rd_alert_key rd \<notin> alert_key ` set (alerts (dview (sql v)))"
    by (rule peaceful_keeps_fresh [OF assms(4) processed(6) peaceful_keeps_fresh [OF assms(4) processed(5) assms(5)]])
  from processed_log_decides [OF assms(3,4) k a processed(1)] obtain as w1
    where 1: "assess cfg lib rd l v = (Inr as, w1)"
      and 2: "final_severity (as_result as) = ''NONE'' \<or> log_key l \<in> alert_log ` set (alerts (dview (sql w')))"
    by blast
  from 2 show ?thesis
  proof
    assume "final_severity (as_result as) = ''NONE''"
    with 1 have "dismissed cfg lib rd l v" by (simp add: dismissed_def)
    with dismissed_cong [OF processed(8)] have "dismissed cfg lib rd l w" by blast
    moreover have "l \<in> set (rows_of (log_key l) d)" using processed(7) by (simp add: rows_of_def)
    ultimately show ?thesis using processed(3,4,5) by blast
  next
    assume "log_key l \<in> alert_log ` set (alerts (dview (sql w')))"
    with processed(3,4) show ?thesis by blast
  qed
qed

text \<open>
  A message leaves the lists only when it is settled: in a round with Redis answering, the messages
  in flight change only by the one the round dequeued, and then its payload names a log that has an
  alert in the database or whose row the detectors, as they were, assess as unsuspicious.
\<close>

lemma worker_round_settles:
  assumes "redis_ok R view" and "redis_up R" and "sql_ok D dview others"
    and "\<And>u. peaceful others u (rd_alert_key rd)"
    and "rd_alert_key rd \<notin> alert_key ` set (alerts (dview (sql w)))"
    and "worker_round R D cfg lib rd w = (r, w')"
    and "in_flight (db view w') \<noteq> in_flight (db view w)"
  shows "\<exists>m w1 j u. dequeue R (rd_dequeued rd) w = (Inr (Some m), w1)
    \<and> in_flight (db view w) = add_mset (dict_get (msg_fields m) ''payload'') (in_flight (db view w'))
    \<and> message_log_id m = Inr j \<and> parse_log_id j = Inr u
    \<and> (u \<in> alert_log ` set (alerts (dview (sql w')))
      \<or> (\<exists>d l. others (dview (sql w)) d \<and> l \<in> set (rows_of u d) \<and> dismissed cfg lib rd l w))"
proof -
  from worker_round_keeps [OF assms(1,2,3,6)] assms(7)
  obtain m w1 where 1: "dequeue R (rd_dequeued rd) w = (Inr (Some m), w1)"
    and 2: "process_message R D cfg lib rd m w1 = (Inr (), w')"
    and f: "in_flight (db view w) = add_mset (dict_get (msg_fields m) ''payload'') (in_flight (db view w'))"
    by blast
  note keep = redis_only_detectors [OF redis_only_dequeue 1]
  have h: "at_head m (db view w1)" using dequeue_tagged [OF assms(1) 1] by blast
  have fresh: "rd_alert_key rd \<notin> alert_key ` set (alerts (dview (sql w1)))" using assms(5) keep by simp
  have ne: "in_flight (db view w') \<noteq> in_flight (db view w1)"
    using dequeue_conserves [OF assms(1) 1] assms(7) by simp
  from process_message_decides [OF assms(1-4) fresh h ne 2] obtain j u
    where j: "message_log_id m = Inr j" "parse_log_id j = Inr u"
      and d: "u \<in> alert_log ` set (alerts (dview (sql w')))
      \<or> (\<exists>d l. others (dview (sql w1)) d \<and> l \<in> set (rows_of u d) \<and> dismissed cfg lib rd l w1)" by blast
  from keep have "detectors w1 = detectors w" "sql w1 = sql w" by blast+
  with d dismissed_cong [of w1 w cfg lib rd] 1 f j show ?thesis by auto
qed

section \<open>From the post to the decision\<close>

lemma payload_names_log:
  assumes "is_uuid (log_key l)" and "dict_get (msg_fields m) ''payload'' = Some (log_payload l)"
  shows "message_log_id m = Inr (JStr (uuid_str (log_key l)))
    \<and> parse_log_id (JStr (uuid_str (log_key l))) = Inr (log_key l)"
  using assms
  by (simp add: message_log_id_def log_payload_def dict_get_or_def dict_simps parse_log_id_def uuid_parse_str)

lemma only_message:
  assumes "redis_ok R view" and "rlists (db view w) MAIN_QUEUE = [new_message p t]"
    and "dequeue R now w = (Inr (Some m), w1)"
  shows "dict_get (msg_fields m) ''payload'' = Some p \<and> dict_get (msg_fields m) ''process_after'' = None"
proof -
  obtain d u where "last (rlists (db view w) MAIN_QUEUE) = Text (JObj d)"
    and "m = \<lparr>msg_fields = tagged d now, msg_raw = Some u\<rparr>"
    using dequeue_returned [OF assms(1,3)] by metis
  with assms(2) show ?thesis by (auto simp: new_message_def json_dumps_def tagged_def dict_simps)
qed

text \<open>
  The message of a log leads back to the log: when Redis answers, a log enqueued on an empty
  main queue is what the next dequeue returns, and the worker reads from that message the
  identifier of the log (through its text in the JSON) and that it need not wait.
\<close>

theorem enqueued_log_is_named:
  assumes "redis_ok R view" and "redis_up R" and "is_uuid (log_key l)"
    and "rlists (db view w) MAIN_QUEUE = []" and "0 < MAX_QUEUE_DEPTH cfg" and "0 \<le> t3"
  shows "\<exists>w1 m w2 j. enqueue R cfg t1 (log_payload l) w = (Inr (), w1)
    \<and> dequeue R t2 w1 = (Inr (Some m), w2) \<and> message_log_id m = Inr j \<and> json_truthy j
    \<and> parse_log_id j = Inr (log_key l) \<and> retry_delay t3 m = Inr 0"
proof -
  obtain r w1 where 1: "enqueue R cfg t1 (log_payload l) w = (r, w1)" by fastforce
  from enqueue_answered [OF assms(1,2) 1] assms(4,5)
  have r: "r = Inr ()" and q: "rlists (db view w1) MAIN_QUEUE = [new_message (log_payload l) t1]" by auto
  have "all_payloads (db view w1)" using q by (simp add: all_payloads_def)
  then obtain m w2 where 2: "dequeue R t2 w1 = (Inr (Some m), w2)"
    using dequeue_up_message [OF assms(1,2)] q by (metis list.distinct(1))
  note m = only_message [OF assms(1) q 2]
  note n = payload_names_log [OF assms(3) conjunct1 [OF m]]
  have "retry_delay t3 m = Inr 0"
    using m assms(6) by (simp add: retry_delay_def dict_get_or_def)
  moreover have "json_truthy (JStr (uuid_str (log_key l)))" by (simp add: uuid_str_def)
  ultimately show ?thesis using 1 2 r n by blast
qed

theorem enqueued_log_is_named_witness:
  "\<exists>w1 m w2 j. enqueue mem_redis (default_settings []) 5 (log_payload loud_log)
        \<lparr>conn = empty_db, counters = initial_counters\<rparr> = (Inr (), w1)
    \<and> dequeue mem_redis 6 w1 = (Inr (Some m), w2) \<and> message_log_id m = Inr j \<and> json_truthy j
    \<and> parse_log_id j = Inr uuid1 \<and> retry_delay 7 m = Inr 0"
proof -
  have "is_uuid (log_key loud_log)" by code_simp
  moreover have "rlists (db (\<lambda>d. d) \<lparr>conn = empty_db, counters = initial_counters\<rparr>) MAIN_QUEUE = []"
    by (simp add: empty_db_def)
  moreover have "0 < MAX_QUEUE_DEPTH (default_settings [])" by (simp add: default_settings_def)
  moreover have "log_key loud_log = uuid1" by (simp add: loud_log_def some_log_def)
  ultimately show ?thesis
    using enqueued_log_is_named [OF redis_ok_mem redis_up_mem, of loud_log
      "\<lparr>conn = empty_db, counters = initial_counters\<rparr>" "default_settings []" 7 5 6] by auto
qed



end
