(* ===== verification/Preserve.thy ===== *)
theory Preserve
  imports Prelude
begin

text \<open>
  Relations between the state before and after a piece of code, whatever it returns or raises. The contract
  is a locale over a reflexive and transitive relation; its client facts follow the structure of the code, so that
  a relation that holds of the calls holds of what is composed of them.
\<close>

definition keeps :: "('w \<Rightarrow> 'w \<Rightarrow> bool) \<Rightarrow> ('w, 'a) eff \<Rightarrow> bool" where
  "keeps P f \<longleftrightarrow> (\<forall>w. P w (snd (f w)))"

lemma keepsD: "keeps P f \<Longrightarrow> f w = (r, w') \<Longrightarrow> P w w'"
  unfolding keeps_def by (metis snd_conv)

lemma keepsI: "(\<And>w r w'. f w = (r, w') \<Longrightarrow> P w w') \<Longrightarrow> keeps P f"
  unfolding keeps_def by (metis prod.collapse)

lemma keeps_mono: "keeps P f \<Longrightarrow> (\<And>w w'. P w w' \<Longrightarrow> Q w w') \<Longrightarrow> keeps Q f"
  by (simp add: keeps_def)

locale kept =
  fixes P :: "'w \<Rightarrow> 'w \<Rightarrow> bool"
  assumes refl_kept: "P w w"
    and trans_kept: "P u v \<Longrightarrow> P v w \<Longrightarrow> P u w"
begin

lemma kept_return: "keeps P (returnE x)"
  by (simp add: keeps_def returnE_apply refl_kept)

lemma kept_raise: "keeps P (raiseE e)"
  by (simp add: keeps_def raiseE_apply refl_kept)

lemma kept_get: "keeps P getE"
  by (simp add: keeps_def getE_apply refl_kept)

text \<open>The rest of a sequence may rest on what its first part returned, and on the state in which it returned it.\<close>

lemma kept_bind_result:
  assumes "keeps P m" and "\<And>w x w'. m w = (Inr x, w') \<Longrightarrow> G x" and "\<And>x. G x \<Longrightarrow> keeps P (f x)"
  shows "keeps P (bindE m f)"
proof (rule keepsI)
  fix w r w'
  assume run: "bindE m f w = (r, w')"
  obtain r1 w1 where 1: "m w = (r1, w1)" by fastforce
  note k1 = keepsD [OF assms(1) 1]
  show "P w w'"
  proof (cases r1)
    case (Inl e)
    with run 1 k1 show ?thesis by (simp add: bindE_apply)
  next
    case (Inr x)
    with run 1 have "f x w1 = (r, w')" by (simp add: bindE_apply)
    from keepsD [OF assms(3) [OF assms(2)] this] 1 Inr k1 trans_kept show ?thesis by blast
  qed
qed

lemma kept_bind: "keeps P m \<Longrightarrow> (\<And>x. keeps P (f x)) \<Longrightarrow> keeps P (bindE m f)"
  by (rule kept_bind_result [where G = "\<lambda>_. True"]) simp_all

lemma kept_then: "keeps P m \<Longrightarrow> keeps P k \<Longrightarrow> keeps P (thenE m k)"
  unfolding thenE_def by (rule kept_bind)

lemma kept_try:
  assumes "keeps P m" and "\<And>e. keeps P (h e)"
  shows "keeps P (tryE m h)"
proof (rule keepsI)
  fix w r w'
  assume run: "tryE m h w = (r, w')"
  obtain r1 w1 where 1: "m w = (r1, w1)" by fastforce
  note k1 = keepsD [OF assms(1) 1]
  show "P w w'"
  proof (cases r1)
    case (Inl e)
    with run 1 have "h e w1 = (r, w')" by (simp add: tryE_apply)
    from keepsD [OF assms(2) this] k1 trans_kept show ?thesis by blast
  next
    case (Inr x)
    with run 1 k1 show ?thesis by (simp add: tryE_apply)
  qed
qed

lemmas kept_structure = kept_return kept_raise kept_get kept_bind kept_then kept_try

end

end
