(* ===== verification/ApiEffects.thy ===== *)
theory ApiEffects
  imports Ingestion Preserve
begin

text \<open>
  What a request that stores a log leaves of the rest of the database.
\<close>

section \<open>A post and the tables\<close>

text \<open>A post touches the rows of its own identifier only, and the alerts of that log only.\<close>

definition only_log ::
  "('d \<Rightarrow> sql_db) \<Rightarrow> string \<Rightarrow> ('r, 'd, 'z) api_scheme \<Rightarrow> ('r, 'd, 'z) api_scheme \<Rightarrow> bool" where
  "only_log dview key w w' \<longleftrightarrow> (let d = dview (api_sql w); d' = dview (api_sql w') in
     (\<forall>u. u \<noteq> key \<longrightarrow> rows_of u d' = rows_of u d \<and> (u \<in> alert_log ` set (alerts d) \<longrightarrow> u \<in> alert_log ` set (alerts d')))
     \<and> (db_ok d \<longrightarrow> db_ok d'))"

interpretation only_log: kept "only_log dview key" for dview key
  by unfold_locales (simp_all add: only_log_def Let_def)

fun change_for :: "string \<Rightarrow> change \<Rightarrow> bool" where
  "change_for key (InsertLog l) \<longleftrightarrow> log_key l = key"
| "change_for key (SetEnqueued u) \<longleftrightarrow> u = key"
| "change_for key (DeleteLog u) \<longleftrightarrow> u = key"
| "change_for key (InsertAlert al) \<longleftrightarrow> False"

fun stmt_for :: "string \<Rightarrow> stmt \<Rightarrow> bool" where
  "stmt_for key (Commit cs) \<longleftrightarrow> list_all (change_for key) cs"
| "stmt_for key _ \<longleftrightarrow> True"

lemma change_for_effect:
  assumes "change_for key c" and "u \<noteq> key" and "apply_change c d = Inr d'"
  shows "rows_of u d' = rows_of u d \<and> (u \<in> alert_log ` set (alerts d) \<longrightarrow> u \<in> alert_log ` set (alerts d'))"
proof (cases c)
  case (SetEnqueued v)
  with assms rows_of_mark [of v d d' u] show ?thesis by (auto split: if_splits)
next
  case (DeleteLog v)
  have same: "(\<lambda>l. log_key l \<noteq> v \<and> log_key l = u) = (\<lambda>l. log_key l = u)"
    using DeleteLog assms(1,2) by auto
  have "rows_of u d' = filter (\<lambda>l. log_key l \<noteq> v \<and> log_key l = u) (logs d)"
    using DeleteLog assms(3) by (auto simp: rows_of_def)
  then have "rows_of u d' = rows_of u d" unfolding same by (simp add: rows_of_def)
  with DeleteLog assms show ?thesis by auto
qed (use assms in \<open>auto simp: rows_of_def split: if_splits\<close>)

lemma stmt_for_effect:
  assumes "stmt_for key st" and "u \<noteq> key"
  shows "rows_of u (snd (run_stmt st d)) = rows_of u d
    \<and> (u \<in> alert_log ` set (alerts d) \<longrightarrow> u \<in> alert_log ` set (alerts (snd (run_stmt st d))))"
proof (cases st)
  case (Commit cs)
  have "rows_of u d' = rows_of u d \<and> (u \<in> alert_log ` set (alerts d) \<longrightarrow> u \<in> alert_log ` set (alerts d'))"
    if "list_all (change_for key) cs" and "apply_changes cs d = Inr d'" for d' and cs d
    using that
  proof (induction cs arbitrary: d)
    case (Cons c cs)
    then obtain d1 where 1: "apply_change c d = Inr d1" and "apply_changes cs d1 = Inr d'"
      by (auto split: sum.splits)
    with Cons change_for_effect [OF _ assms(2) 1] show ?case by simp
  qed simp
  with assms(1) Commit show ?thesis by (auto split: sum.splits)
qed simp_all

lemma only_log_sql:
  fixes D :: "'d sql_conn"
  assumes "sql_ok D dview (=)" and "stmt_for key st"
  shows "keeps (only_log dview key) (apiE D st)"
proof (rule keepsI)
  fix w :: "('r, 'd, 'z) api_scheme" and r w'
  assume "apiE D st w = (r, w')"
  then have "D st (api_sql w) = (r, api_sql w')" using apiE_cases by blast
  from sql_cases [OF assms(1) this]
  have "dview (api_sql w') = dview (api_sql w) \<or> dview (api_sql w') = snd (run_stmt st (dview (api_sql w)))" by metis
  then show "only_log dview key w w'"
    using stmt_for_effect [OF assms(2), of _ "dview (api_sql w)"] run_stmt_ok [of "dview (api_sql w)" st]
    by (elim disjE) (simp_all add: only_log_def Let_def)
qed

lemma only_log_redis: "redis_only f \<Longrightarrow> keeps (only_log dview key) f"
  by (rule keepsI) (simp add: only_log_def redis_only_api_sql)

lemma refresh_key:
  assumes "sql_ok D dview (=)" and "refresh D key w = (Inr l, w')"
  shows "log_key l = key"
proof -
  obtain ls where "rows_of key (dview (api_sql w)) = l # ls"
    using refresh_cases [OF assms(1) leaves_log_eq assms(2)] by blast
  then show ?thesis by (metis list.set_intros(1) rows_of_key)
qed

lemma only_log_ingest:
  assumes "sql_ok D dview (=)"
  shows "keeps (only_log dview key) (ingest_log available R D cfg key utc_now now p)"
proof -
  note only_log_intros = only_log.kept_structure only_log_redis [OF redis_only_enqueue]
    only_log_redis [OF redis_only_increment]
  have stmts: "keeps (only_log dview key) (apiE D (Commit [InsertLog (new_log key utc_now p)]))"
    "keeps (only_log dview key) (apiE D (SelectLog key))"
    "keeps (only_log dview key) (apiE D (Commit [SetEnqueued key]))"
    "keeps (only_log dview key) (apiE D (Commit [DeleteLog key]))"
    by (rule only_log_sql [OF assms], simp)+
  have refresh: "keeps (only_log dview key) (refresh D key)"
    unfolding refresh_def by (auto intro!: only_log_intros stmts split: rows.split list.split)
  have rest: "keeps (only_log dview key) (case get_enqueue available R cfg of None \<Rightarrow> returnE l
      | Some enqueue_fn \<Rightarrow> tryE (thenE (enqueue_fn now (log_payload l))
          (thenE (apiE D (Commit [SetEnqueued (log_key l)])) (returnE (l\<lparr>log_enqueued := True\<rparr>))))
        (ingest_failed R D l))" if "log_key l = key" for l
    unfolding ingest_failed_def [abs_def] get_enqueue_def that
    by (auto intro!: only_log_intros stmts)
  show ?thesis
    unfolding ingest_log_def
    by (intro only_log.kept_then stmts only_log.kept_bind_result [OF refresh refresh_key [OF assms] rest])
qed

lemma only_log_create:
  "sql_ok D dview (=) \<Longrightarrow> keeps (only_log dview key) (create_log available R D cfg ts key utc_now now p)"
  unfolding create_log_def
  by (auto intro!: only_log.kept_structure only_log_ingest only_log_redis [OF redis_only_increment])

end
