(* ===== verification/SystemEffects.thy ===== *)
theory SystemEffects
  imports WorkerDrain Settlement ApiEffects
begin

text \<open>
  What each operation of the worker does to the two stores it shares with the API: the tables of the
  database and the lists of Redis.
\<close>

section \<open>The worker and the tables\<close>

text \<open>A worker in its loop leaves the logs alone, only adds alerts with the identifier it drew, and keeps the constraints.\<close>

definition adds_alerts ::
  "('d \<Rightarrow> sql_db) \<Rightarrow> string \<Rightarrow> ('r, 'm, 'd, 'z) worker_scheme \<Rightarrow> ('r, 'm, 'd, 'z) worker_scheme \<Rightarrow> bool" where
  "adds_alerts dview key w w' \<longleftrightarrow> logs (dview (sql w')) = logs (dview (sql w))
     \<and> alert_log ` set (alerts (dview (sql w))) \<subseteq> alert_log ` set (alerts (dview (sql w')))
     \<and> alert_key ` set (alerts (dview (sql w'))) \<subseteq> insert key (alert_key ` set (alerts (dview (sql w))))
     \<and> (db_ok (dview (sql w)) \<longrightarrow> db_ok (dview (sql w')))"

lemma subset_insert_trans: "A \<subseteq> insert x B \<Longrightarrow> B \<subseteq> insert x C \<Longrightarrow> A \<subseteq> insert x C"
  by blast

interpretation adds_alerts: kept "adds_alerts dview key" for dview key
  proof
  show "adds_alerts dview key u v \<Longrightarrow> adds_alerts dview key v w \<Longrightarrow> adds_alerts dview key u w" for u v w
    unfolding adds_alerts_def by (elim conjE, intro conjI) (simp, erule (1) order_trans,
        erule (1) subset_insert_trans, simp)
qed (auto simp: adds_alerts_def)

fun worker_stmt :: "string \<Rightarrow> stmt \<Rightarrow> bool" where
  "worker_stmt key (Commit cs) \<longleftrightarrow> (\<exists>al. cs = [InsertAlert al] \<and> alert_key al = key)"
| "worker_stmt key _ \<longleftrightarrow> True"

lemma worker_stmt_effect:
  assumes "worker_stmt key st"
  shows "logs (snd (run_stmt st d)) = logs d
    \<and> alert_log ` set (alerts d) \<subseteq> alert_log ` set (alerts (snd (run_stmt st d)))
    \<and> alert_key ` set (alerts (snd (run_stmt st d))) \<subseteq> insert key (alert_key ` set (alerts d))"
  using assms by (cases "(key, st)" rule: worker_stmt.cases)
    (auto split: sum.splits if_splits)

lemma adds_alerts_sql:
  fixes D :: "'d sql_conn"
  assumes "sql_ok D dview (=)" and "worker_stmt key st"
  shows "keeps (adds_alerts dview key) (sqlE D st)"
proof (rule keepsI)
  fix w :: "('r, 'm, 'd, 'z) worker_scheme" and r w'
  assume "sqlE D st w = (r, w')"
  then have "D st (sql w) = (r, sql w')" using sqlE_cases by blast
  from sql_cases [OF assms(1) this]
  have "dview (sql w') = dview (sql w) \<or> dview (sql w') = snd (run_stmt st (dview (sql w)))" by metis
  then show "adds_alerts dview key w w'"
    using worker_stmt_effect [OF assms(2), of "dview (sql w)"] run_stmt_ok [of "dview (sql w)" st]
    by (elim disjE) (auto simp: adds_alerts_def)
qed

lemma adds_alerts_same: "keeps (\<lambda>w w'. sql w' = sql w) f \<Longrightarrow> keeps (adds_alerts dview key) f"
  by (erule keeps_mono) (auto simp: adds_alerts_def)

lemma adds_alerts_redis: "redis_only f \<Longrightarrow> keeps (adds_alerts dview key) f"
  by (rule adds_alerts_same, rule keepsI) (rule redis_only_sql)

lemma adds_alerts_lift: "keeps (adds_alerts dview key) (liftE r)"
  by (cases r) (simp_all add: liftE_def adds_alerts.kept_structure)

lemma adds_alerts_local:
  "keeps (adds_alerts dview key) (assess cfg lib rd l)" "keeps (adds_alerts dview key) (learn_baseline cfg l a)"
  "keeps (adds_alerts dview key) (spawn t)"
proof -
  show "keeps (adds_alerts dview key) (assess cfg lib rd l)"
    by (rule adds_alerts_same, rule keepsI) (use assess_frame in blast)
  show "keeps (adds_alerts dview key) (learn_baseline cfg l a)"
    by (rule adds_alerts_same, rule keepsI) (use learn_baseline_cases in fastforce)
  show "keeps (adds_alerts dview key) (spawn t)"
    by (rule adds_alerts_same) (simp add: keeps_def spawn_def modifyE_apply)
qed

lemmas adds_alerts_intros = adds_alerts.kept_structure adds_alerts_lift adds_alerts_local
  adds_alerts_redis [OF redis_only_increment] adds_alerts_redis [OF redis_only_acknowledge]
  adds_alerts_redis [OF redis_only_retry] adds_alerts_redis [OF redis_only_dequeue]

lemma adds_alerts_round:
  assumes "sql_ok D dview (=)"
  shows "keeps (adds_alerts dview (rd_alert_key rd)) (worker_round R D cfg lib rd)"
proof -
  let ?key = "rd_alert_key rd"
  note stmts = adds_alerts_sql [OF assms]
  have select: "keeps (adds_alerts dview ?key) (sqlE D (SelectLog u))" "keeps (adds_alerts dview ?key) (sqlE D (SelectAlertsOf u))"
    "keeps (adds_alerts dview ?key) (sqlE D (Commit [InsertAlert (new_alert rd l a)]))" for u l a
    by (rule stmts, simp add: new_alert_def)+
  have get: "keeps (adds_alerts dview ?key) (get_log D u)" for u
    unfolding get_log_def
    by (auto intro!: adds_alerts_intros select split: rows.split list.split)
  have exists: "keeps (adds_alerts dview ?key) (alert_exists D u)" for u
    unfolding alert_exists_def by (auto intro!: adds_alerts_intros select split: rows.split)
  have raise: "keeps (adds_alerts dview ?key) (raise_alert R D rd l a)" for l a
    unfolding raise_alert_def commit_alert_def by (auto intro!: adds_alerts_intros select)
  have retrain: "keeps (adds_alerts dview ?key) (trigger_retrain cfg rd)"
    unfolding trigger_retrain_def by (auto intro!: adds_alerts_intros)
  have log: "keeps (adds_alerts dview ?key) (process_log R D cfg lib rd m l)" for m l
    unfolding process_log_def by (auto intro!: adds_alerts_intros raise retrain)
  have message: "keeps (adds_alerts dview ?key) (process_message R D cfg lib rd m)" for m
    unfolding process_message_def
    by (auto intro!: adds_alerts_intros get exists log split: option.split)
  show ?thesis
    unfolding worker_round_def handle_message_def
    by (auto intro!: adds_alerts_intros message split: option.split)
qed

section \<open>Redis\<close>

text \<open>Commands that leave the lists alone.\<close>

definition same_lists :: "('r \<Rightarrow> redis_db) \<Rightarrow> ('r, 'z) env_scheme \<Rightarrow> ('r, 'z) env_scheme \<Rightarrow> bool" where
  "same_lists view w w' \<longleftrightarrow> rlists (db view w') = rlists (db view w)"

interpretation same_lists: kept "same_lists view" for view
  by unfold_locales (simp_all add: same_lists_def)

lemma call_lists:
  assumes "redis_ok R view" and "redis_call R c s = (r, s')" and "\<And>d. rlists (snd (apply_cmd c d)) = rlists d"
  shows "rlists (view s') = rlists (view s)"
proof (cases r)
  case (Inl e)
  with redis_call_Inl [OF assms(1)] assms(2,3) show ?thesis by fastforce
next
  case (Inr x)
  with redis_call_Inr [OF assms(1)] assms(2,3) show ?thesis by (metis snd_conv)
qed

lemma same_lists_call:
  fixes R :: "'r redis_conn"
  assumes "redis_ok R view" and "\<And>d. rlists (snd (apply_cmd c d)) = rlists d"
    and "\<And>r s. \<exists>x. f r s = (x, s)"
  shows "keeps (same_lists view) (redisE (bindE (redis_call R c) f) :: (('r, 'z) env_scheme, 'x) eff)"
proof (rule keepsI)
  fix w :: "('r, 'z) env_scheme" and r w'
  assume run: "redisE (bindE (redis_call R c) f) w = (r, w')"
  obtain r1 s1 where 1: "redis_call R c (conn w) = (r1, s1)" by fastforce
  have "\<exists>y. bindE (redis_call R c) f (conn w) = (y, s1)"
    using 1 assms(3) by (cases r1) (auto simp: bindE_apply)
  with run have "conn w' = s1" by (auto simp: redisE_apply)
  with call_lists [OF assms(1) 1 assms(2)] show "same_lists view w w'" by (simp add: same_lists_def)
qed

lemma same_lists_set: "redis_ok R view \<Longrightarrow> keeps (same_lists view) (redisE (redis_set R k v ex))"
  unfolding redis_set_def by (rule same_lists_call) (simp_all add: returnE_apply)

lemma same_lists_pub: "redis_ok R view \<Longrightarrow> keeps (same_lists view) (redisE (redis_publish R ch v))"
  unfolding redis_publish_def by (rule same_lists_call) (simp_all add: returnE_apply)

lemma same_lists_get: "redis_ok R view \<Longrightarrow> keeps (same_lists view) (redisE (redis_get R k))"
  unfolding redis_get_def
  by (rule same_lists_call) (auto simp: returnE_apply raiseE_apply split: reply.split option.split)

lemmas same_lists_ops = same_lists_set same_lists_pub same_lists_get

lemma same_lists_increment:
  "redis_ok R view \<Longrightarrow> keeps (same_lists view) (increment_async R n a)"
  by (rule keepsI) (simp add: same_lists_def increment_lists)

lemma same_lists_heartbeat:
  "redis_ok R view \<Longrightarrow> keeps (same_lists view) (heartbeat R now)"
  unfolding heartbeat_def set_worker_heartbeat_def
  by (intro same_lists.kept_structure same_lists_ops)

lemma same_lists_publish:
  "redis_ok R view \<Longrightarrow> keeps (same_lists view) (publish_dashboard_event R e)"
  unfolding publish_dashboard_event_def by (intro same_lists.kept_structure same_lists_ops)

lemma same_lists_persist:
  "redis_ok R view \<Longrightarrow> keeps (same_lists view) (persist_model_to_redis R cfg artifact c p)"
  unfolding persist_model_to_redis_def set_last_model_retrain_def Let_def
  by (intro same_lists.kept_structure same_lists_ops)

lemma same_lists_restore:
  "redis_ok R view \<Longrightarrow> keeps (same_lists view) (restore_from_redis R lib now utc_now)"
  unfolding restore_from_redis_def liftE_def
  by (auto intro!: same_lists.kept_structure same_lists_ops split: option.split sum.split)
    (simp_all add: keeps_def engineE_def modifyE_apply same_lists_def)

lemma same_lists_retrain:
  assumes "redis_ok R view" and "retrain_piece R cfg lib clock utc_now t w = (t', w')"
  shows "rlists (db view w') = rlists (db view w)"
  using assms(2) keepsD [OF same_lists_persist [OF assms(1)]]
  by (auto simp: retrain_piece_def same_lists_def split: retrain_task.splits prod.splits)

text \<open>Start-up and sweep lose nothing of what is in flight, and keep the invariant of the queue.\<close>

definition keeps_flight :: "('r \<Rightarrow> redis_db) \<Rightarrow> ('r, 'z) env_scheme \<Rightarrow> ('r, 'z) env_scheme \<Rightarrow> bool" where
  "keeps_flight view w w' \<longleftrightarrow> in_flight (db view w) \<subseteq># in_flight (db view w')
     \<and> (queue_inv (db view w) \<longrightarrow> queue_inv (db view w'))"

interpretation keeps_flight: kept "keeps_flight view" for view
  by unfold_locales (auto simp: keeps_flight_def)

lemma keeps_flight_lists: "same_lists view w w' \<Longrightarrow> keeps_flight view w w'"
  unfolding same_lists_def keeps_flight_def
  using in_flight_cong queue_invI_cong subset_mset.order_refl by metis

lemma keeps_flight_enqueue:
  assumes "redis_ok R view"
  shows "keeps (keeps_flight view) (enqueue R cfg now p)"
proof (rule keepsI)
  fix w :: "('a, 'b) env_scheme" and r w'
  assume run: "enqueue R cfg now p w = (r, w')"
  from enqueue_cases [OF assms run] have "in_flight (db view w) \<subseteq># in_flight (db view w')"
    by (elim disjE conjE exE) (auto simp: in_flight_push)
  with enqueue_inv [OF assms run] show "keeps_flight view w w'" by (simp add: keeps_flight_def)
qed

lemma keeps_flight_requeue:
  assumes "redis_ok R view" and "redis_up R" and "requeue_raw R e w = (r, w')"
  shows "in_flight (db view w) \<subseteq># in_flight (db view w')"
proof -
  let ?p = "rlists (db view w) PROCESSING_QUEUE"
  have l: "rlists (db view w') = (rlists (db view w))(PROCESSING_QUEUE := remove1 e ?p,
         MAIN_QUEUE := e # rlists (db view w) MAIN_QUEUE)"
    using requeue_raw_up [OF assms(1,2), of e w] assms(3) by auto
  have "mset ?p \<subseteq># add_mset e (mset (remove1 e ?p))" by (auto intro!: mset_subset_eqI)
  from image_mset_subseteq_mono [OF this, of payload_of] show ?thesis
    by (simp add: in_flight_def l)
qed

lemma keeps_flight_recover:
  assumes "redis_ok R view" and "redis_up R"
  shows "keeps (keeps_flight view) (recover_processing_queue R now)"
proof (rule keepsI)
  fix w :: "('a, 'b) env_scheme" and r w'
  assume run: "recover_processing_queue R now w = (r, w')"
  have loop: "in_flight (db view v) \<subseteq># in_flight (db view v')"
    if "recover_loop R now rs n v = (x, v')" for rs n and v v' :: "('a, 'b) env_scheme" and x
    using that
  proof (induction rs arbitrary: n v)
    case Nil
    then show ?case by (simp add: returnE_apply)
  next
    case (Cons e rs)
    obtain r1 v1 where 1: "requeue_raw R e v = (r1, v1)" by fastforce
    note k = keeps_flight_requeue [OF assms 1]
    show ?case
      using Cons.prems 1 k Cons.IH subset_mset.order_trans [OF k]
      by (cases "staleness now e"; cases r1) (auto simp: thenE_apply raiseE_apply)
  qed
  obtain r1 w1 where 1: "redisE (redis_lrange R PROCESSING_QUEUE) w = (r1, w1)" by fastforce
  have "db view w1 = db view w" using redisE_lrange_cases [OF assms(1) 1] by simp
  with run 1 have "in_flight (db view w) \<subseteq># in_flight (db view w')"
    by (cases r1) (auto simp: recover_processing_queue_def bindE_apply returnE_apply dest: loop split: if_splits)
  with recover_inv [OF assms(1) run] show "keeps_flight view w w'" by (simp add: keeps_flight_def)
qed

lemma keeps_flight_sweep:
  fixes R :: "'r redis_conn"
  assumes "redis_ok R view"
  shows "keeps (keeps_flight view) (sweep_unenqueued_logs R D cfg nows)"
proof -
  have sql: "keeps (keeps_flight view) (sqlE D st)" for st
    by (rule keepsI) (simp add: sqlE_frame keeps_flight_def)
  have "keeps (keeps_flight view) (sweep_loop R cfg nows ls)" for ls
    by (induction ls) (auto intro!: keeps_flight.kept_structure keeps_flight_enqueue [OF assms])
  with sql show ?thesis
    unfolding sweep_unenqueued_logs_def
    by (auto intro!: keeps_flight.kept_structure split: rows.split)
qed

end
