(* ===== verification/SystemMachine.thy ===== *)
theory SystemMachine
  imports SystemEffects
begin

text \<open>
  The API and the worker together, as one machine over the database and the queue they share: posts,
  rounds, crashes and starts of the worker, its retraining, its heartbeats and its events, in every
  order. Redis answers; statements of the database may fail at any point, and the model too.
\<close>

section \<open>The machine\<close>

text \<open>
  Each process has its own copy of the connection to what they share; a step of one hands the new
  state to the other. \<open>dismissals\<close> is a record of the proof: the logs assessed as unsuspicious.
\<close>

record ('r, 'm, 'd) system =
  api_side :: "('r, 'd) api"
  worker_side :: "('r, 'm, 'd) worker"
  dismissals :: "log_row set"

definition after_api :: "('r, 'd) api \<Rightarrow> ('r, 'm, 'd) system \<Rightarrow> ('r, 'm, 'd) system" where
  "after_api a s = s\<lparr>api_side := a,
     worker_side := (worker_side s)\<lparr>conn := conn a, sql := api_sql a\<rparr>\<rparr>"

definition after_worker :: "('r, 'm, 'd) worker \<Rightarrow> ('r, 'm, 'd) system \<Rightarrow> ('r, 'm, 'd) system" where
  "after_worker w s = s\<lparr>worker_side := w,
     api_side := (api_side s)\<lparr>conn := conn w, api_sql := sql w\<rparr>\<rparr>"

text \<open>
  The log whose message a round takes from the queue, when the detectors assess it as unsuspicious.
\<close>

definition dismissed_in_round ::
  "'r redis_conn \<Rightarrow> ('d \<Rightarrow> sql_db) \<Rightarrow> settings \<Rightarrow> 'm ml \<Rightarrow> readings \<Rightarrow> ('r, 'm, 'd) worker \<Rightarrow> log_row set" where
  "dismissed_in_round R dview cfg lib rd w = {l. l \<in> set (logs (dview (sql w)))
     \<and> dismissed cfg lib rd l w
     \<and> (\<exists>m w1 j. dequeue R (rd_dequeued rd) w = (Inr (Some m), w1)
          \<and> message_log_id m = Inr j \<and> parse_log_id j = Inr (log_key l))}"

text \<open>
  A crash takes the memory of the worker. It strikes after the dequeue, and perhaps after the commit of an alert, before
  the message is acknowledged.
\<close>

inductive system_step for R and D :: "'d sql_conn" and dview and cfg and lib where
  post: "is_uuid key \<Longrightarrow> rows_of key (dview (api_sql (api_side s))) = [] \<Longrightarrow>
    ingest_log available R D cfg key utc_now now p (api_side s) = (r, a) \<Longrightarrow>
    system_step R D dview cfg lib s (after_api a s)"
| round: "rd_alert_key rd \<notin> alert_key ` set (alerts (dview (sql (worker_side s)))) \<Longrightarrow>
    worker_round R D cfg lib rd (worker_side s) = (r, w) \<Longrightarrow>
    system_step R D dview cfg lib s (after_worker w
      (s\<lparr>dismissals := dismissals s \<union> dismissed_in_round R dview cfg lib rd (worker_side s)\<rparr>))"
| crash: "dequeue R now (worker_side s) = (r1, w1) \<Longrightarrow> w2 = w1 \<or> commit_alert D al w1 = (r2, w2) \<Longrightarrow>
    conn w = conn w2 \<Longrightarrow> sql w = sql w2 \<Longrightarrow>
    system_step R D dview cfg lib s (after_worker w s)"
| start: "worker_start R D cfg lib replicas clock utc_now now nows (worker_side s) = (r, w) \<Longrightarrow>
    system_step R D dview cfg lib s (after_worker w s)"
| retrain: "retrain_piece R cfg lib clock utc_now t (worker_side s) = (t', w) \<Longrightarrow>
    system_step R D dview cfg lib s (after_worker w s)"
| beat: "heartbeat R now (worker_side s) = (r, w) \<Longrightarrow>
    system_step R D dview cfg lib s (after_worker w s)"
| event: "publish_dashboard_event R e (worker_side s) = (r, w) \<Longrightarrow>
    system_step R D dview cfg lib s (after_worker w s)"

inductive system_reachable for R and view and D :: "'d sql_conn" and dview and cfg and lib where
  init: "view (conn (worker_side s)) = empty_db \<Longrightarrow> dview (sql (worker_side s)) = \<lparr>logs = [], alerts = []\<rparr> \<Longrightarrow>
    conn (api_side s) = conn (worker_side s) \<Longrightarrow> api_sql (api_side s) = sql (worker_side s) \<Longrightarrow>
    dismissals s = {} \<Longrightarrow> system_reachable R view D dview cfg lib s"
| step: "system_reachable R view D dview cfg lib s \<Longrightarrow> system_step R D dview cfg lib s s' \<Longrightarrow>
    system_reachable R view D dview cfg lib s'"

section \<open>The invariant\<close>

definition decided :: "log_row \<Rightarrow> sql_db \<Rightarrow> log_row set \<Rightarrow> bool" where
  "decided l d seen \<longleftrightarrow> log_key l \<in> alert_log ` set (alerts d) \<or> l \<in> seen"

definition logs_accounted :: "redis_db \<Rightarrow> sql_db \<Rightarrow> log_row set \<Rightarrow> bool" where
  "logs_accounted q d seen \<longleftrightarrow> queue_inv q \<and> db_ok d \<and> (\<forall>l \<in> set (logs d). is_uuid (log_key l)
     \<and> (log_enqueued l \<longrightarrow> Some (log_payload l) \<in># in_flight q \<or> decided l d seen))"

lemma logs_accounted_mono:
  assumes "logs_accounted q d seen" and "queue_inv q'" and "in_flight q \<subseteq># in_flight q'" and "db_ok d'"
    and "logs d' = logs d" and "alert_log ` set (alerts d) \<subseteq> alert_log ` set (alerts d')" and "seen \<subseteq> seen'"
  shows "logs_accounted q' d' seen'"
  unfolding logs_accounted_def decided_def
  using assms(1,2,4-7) mset_subset_eqD [OF assms(3)] unfolding logs_accounted_def decided_def by (metis subsetD)

lemma post_accounted:
  assumes "redis_ok R view" and "sql_ok D dview (=)" and "is_uuid key" and "rows_of key (dview (api_sql a)) = []"
    and "ingest_log available R D cfg key utc_now now p a = (r, a')"
    and "logs_accounted (db view a) (dview (api_sql a)) seen"
  shows "logs_accounted (db view a') (dview (api_sql a')) seen"
proof -
  let ?l = "new_log key utc_now p" and ?d = "dview (api_sql a)" and ?d' = "dview (api_sql a')"
  let ?sent = "(rlists (db view a))(MAIN_QUEUE := new_message (log_payload ?l) now # rlists (db view a) MAIN_QUEUE)"
  have q: "rlists (db view a') = rlists (db view a) \<or> rlists (db view a') = ?sent"
    and rows: "rows_of key ?d' = [] \<or> rows_of key ?d' = [?l]
      \<or> rows_of key ?d' = [?l\<lparr>log_enqueued := True\<rparr>] \<and> rlists (db view a') = ?sent"
    using ingest_cases [OF assms(1,2) leaves_log_eq assms(4,5)] unfolding Let_def by blast+
  have only: "rows_of u ?d' = rows_of u ?d" "u \<in> alert_log ` set (alerts ?d) \<Longrightarrow> u \<in> alert_log ` set (alerts ?d')"
    if "u \<noteq> key" for u
    using keepsD [OF only_log_ingest [OF assms(2)] assms(5)] that by (auto simp: only_log_def Let_def)
  have flight: "in_flight (db view a) \<subseteq># in_flight (db view a')"
    using q by (elim disjE) (auto simp: in_flight_def)
  have sent: "Some (log_payload (?l\<lparr>log_enqueued := True\<rparr>)) \<in># in_flight (db view a')"
    if "rlists (db view a') = ?sent"
    using that by (simp add: in_flight_def log_payload_def)
  have "is_uuid (log_key x) \<and> (log_enqueued x \<longrightarrow>
      Some (log_payload x) \<in># in_flight (db view a') \<or> decided x ?d' seen)" if x: "x \<in> set (logs ?d')" for x
  proof (cases "log_key x = key")
    case True
    with x have "x \<in> set (rows_of key ?d')" by (simp add: rows_of_def)
    with rows have "x = ?l \<or> x = ?l\<lparr>log_enqueued := True\<rparr> \<and> rlists (db view a') = ?sent" by auto
    moreover have "\<not> log_enqueued ?l" by (simp add: new_log_def)
    ultimately show ?thesis using True assms(3) sent by auto
  next
    case False
    from x have "x \<in> set (rows_of (log_key x) ?d')" by (simp add: rows_of_def)
    with only(1) [OF False] have "x \<in> set (logs ?d)" by (simp add: rows_of_def)
    with assms(6) only(2) [OF False] mset_subset_eqD [OF flight] show ?thesis
      by (auto simp: logs_accounted_def decided_def)
  qed
  moreover have "db_ok ?d'"
    using keepsD [OF only_log_ingest [OF assms(2)] assms(5)] assms(6)
    by (simp add: only_log_def Let_def logs_accounted_def)
  moreover have "queue_inv (db view a')"
    using q assms(6) by (auto simp: logs_accounted_def queue_inv_def live_new_message)
  ultimately show ?thesis by (simp add: logs_accounted_def)
qed

text \<open>Steps of the worker that leave the database alone, or only add alerts.\<close>

lemma worker_accounted:
  assumes "keeps_flight view w w'" and "adds_alerts dview key w w'"
    and "logs_accounted (db view w) (dview (sql w)) seen"
  shows "logs_accounted (db view w') (dview (sql w')) seen"
  by (rule logs_accounted_mono [OF assms(3)])
    (use assms in \<open>simp_all add: keeps_flight_def adds_alerts_def logs_accounted_def\<close>)

lemma round_accounted:
  fixes w :: "('r, 'm, 'd) worker"
  assumes "redis_ok R view" and "redis_up R" and "sql_ok D dview (=)"
    and "rd_alert_key rd \<notin> alert_key ` set (alerts (dview (sql w)))"
    and "worker_round R D cfg lib rd w = (r, w')"
    and "logs_accounted (db view w) (dview (sql w)) seen"
  shows "logs_accounted (db view w') (dview (sql w')) (seen \<union> dismissed_in_round R dview cfg lib rd w)"
proof -
  let ?d = "dview (sql w)" and ?seen = "seen \<union> dismissed_in_round R dview cfg lib rd w"
  have qi: "queue_inv (db view w)" using assms(6) by (simp add: logs_accounted_def)
  have qi': "queue_inv (db view w')"
    using worker_round_outcome [OF assms(1-3) qi assms(5)] round_outcome_inv [OF _ qi] qi
    by (auto split: if_splits)
  have al: "adds_alerts dview (rd_alert_key rd) w w'" by (rule keepsD [OF adds_alerts_round [OF assms(3)] assms(5)])
  show ?thesis
  proof (cases "in_flight (db view w') = in_flight (db view w)")
    case True
    show ?thesis
      by (rule logs_accounted_mono [OF assms(6) qi'])
        (use True al assms(6) in \<open>simp_all add: adds_alerts_def logs_accounted_def\<close>)
  next
    case False
    have peace: "peaceful (=) u (rd_alert_key rd)" for u by (simp add: peaceful_def)
    obtain m w1 j u where 1: "dequeue R (rd_dequeued rd) w = (Inr (Some m), w1)"
      and f: "in_flight (db view w) = add_mset (dict_get (msg_fields m) ''payload'') (in_flight (db view w'))"
      and j: "message_log_id m = Inr j" "parse_log_id j = Inr u"
      and d: "u \<in> alert_log ` set (alerts (dview (sql w')))
        \<or> (\<exists>d l. ?d = d \<and> l \<in> set (rows_of u d) \<and> dismissed cfg lib rd l w)"
      using worker_round_settles [OF assms(1-3) peace assms(4,5) False] by blast
    have "Some (log_payload l) \<in># in_flight (db view w') \<or> decided l (dview (sql w')) ?seen"
      if l: "l \<in> set (logs ?d)" "log_enqueued l" for l
    proof (cases "dict_get (msg_fields m) ''payload'' = Some (log_payload l)")
      case True
      have "is_uuid (log_key l)" using assms(6) l by (simp add: logs_accounted_def)
      from payload_names_log [OF this True] j have u: "u = log_key l" by simp
      have "distinct (map log_key (logs ?d))" using assms(6) by (simp add: logs_accounted_def db_ok_def)
      then have "l' = l" if "l' \<in> set (rows_of u ?d)" for l'
        using that l(1) u by (auto simp: rows_of_def distinct_map dest: inj_onD)
      with d u 1 j l(1) show ?thesis by (auto simp: decided_def dismissed_in_round_def)
    next
      case False
      from assms(6) l have "Some (log_payload l) \<in># in_flight (db view w) \<or> decided l ?d seen"
        by (simp add: logs_accounted_def)
      with f False al show ?thesis by (auto simp: decided_def adds_alerts_def)
    qed
    with qi' al assms(6) show ?thesis by (simp add: logs_accounted_def adds_alerts_def)
  qed
qed

section \<open>What the rest of the worker leaves alone\<close>

lemma redis_only_heartbeat: "redis_only (heartbeat R now)"
  unfolding heartbeat_def set_worker_heartbeat_def by (intro redis_only_intros)

lemma redis_only_publish: "redis_only (publish_dashboard_event R e)"
  unfolding publish_dashboard_event_def by (intro redis_only_intros)

lemma redis_only_persist: "redis_only (persist_model_to_redis R cfg artifact c p)"
  unfolding persist_model_to_redis_def set_last_model_retrain_def Let_def by (intro redis_only_intros)

lemma retrain_piece_sql:
  assumes "retrain_piece R cfg lib clock utc_now t w = (t', w')"
  shows "sql w' = sql w"
  using assms redis_only_sql [OF redis_only_persist]
  by (auto simp: retrain_piece_def split: retrain_task.splits prod.splits)

lemma adds_alerts_commit: "sql_ok D dview (=) \<Longrightarrow> keeps (adds_alerts dview (alert_key al)) (commit_alert D al)"
  unfolding commit_alert_def
  by (auto intro!: adds_alerts.kept_structure adds_alerts_sql)

lemma adds_alerts_restore: "keeps (adds_alerts dview key) (restore_from_redis R lib clock utc_now)"
proof -
  have "keeps (adds_alerts dview key) (engineE f)" for f
    by (rule adds_alerts_same) (simp add: keeps_def engineE_def modifyE_apply)
  then show ?thesis
    unfolding restore_from_redis_def
    by (auto intro!: adds_alerts_intros adds_alerts_redis [OF redis_only_redisE] split: option.split)
qed

section \<open>The start of the worker\<close>

text \<open>The sweep marks logs whose message is in flight, and changes nothing else.\<close>

lemma sweep_accounted:
  fixes w :: "('r, 'm, 'd) worker"
  assumes "redis_ok R view" and "sql_ok D dview (=)"
    and "sweep_unenqueued_logs R D cfg nows w = (r, w')"
    and "logs_accounted (db view w) (dview (sql w)) seen"
  shows "logs_accounted (db view w') (dview (sql w')) seen"
proof -
  let ?d = "dview (sql w)"
  have k: "keeps_flight view w w'" by (rule keepsD [OF keeps_flight_sweep [OF assms(1)] assms(3)])
  have same: "logs_accounted (db view w') ?d seen"
    by (rule logs_accounted_mono [OF assms(4)])
      (use k assms(4) in \<open>simp_all add: keeps_flight_def logs_accounted_def\<close>)
  obtain us where m: "dview (sql w') = ?d \<or> apply_changes (map SetEnqueued us) ?d = Inr (dview (sql w'))"
    and us: "\<And>u. u \<in> set us \<Longrightarrow> \<exists>l \<in> set (logs ?d). log_key l = u \<and> \<not> log_enqueued l
         \<and> new_message (log_payload l) (nows l) \<in> set (main_queue view w')"
    using sweep_outcome [OF assms(1-3)] by metis
  from m show ?thesis
  proof
    assume "apply_changes (map SetEnqueued us) ?d = Inr (dview (sql w'))"
    moreover have "set us \<subseteq> log_key ` set (logs ?d)" using us by blast
    ultimately have d': "dview (sql w') =
        ?d\<lparr>logs := map (\<lambda>l. if log_key l \<in> set us then l\<lparr>log_enqueued := True\<rparr> else l) (logs ?d)\<rparr>"
      and ok: "db_ok (dview (sql w'))"
      using apply_marks [of us ?d] apply_changes_ok assms(4) by (auto simp: logs_accounted_def)
    have inj: "inj_on log_key (set (logs ?d))"
      using assms(4) by (simp add: logs_accounted_def db_ok_def distinct_map)
    have sent: "Some (log_payload l) \<in># in_flight (db view w')" if "l \<in> set (logs ?d)" "log_key l \<in> set us" for l
    proof -
      from us [OF that(2)] obtain l' where "l' \<in> set (logs ?d)" "log_key l' = log_key l"
        and q: "new_message (log_payload l') (nows l') \<in> set (main_queue view w')" by blast
      with inj that(1) have "l' = l" by (auto dest: inj_onD)
      with q have "payload_of (new_message (log_payload l) (nows l)) \<in># in_flight (db view w')"
        unfolding in_flight_def by (auto simp del: payload_of_new_message)
      then show ?thesis by simp
    qed
    show ?thesis
      using same ok sent unfolding logs_accounted_def d' by (auto simp: decided_def log_payload_def)
  qed (use same in simp)
qed

lemma start_accounted:
  fixes w :: "('r, 'm, 'd) worker"
  assumes "redis_ok R view" and "redis_up R" and "sql_ok D dview (=)"
    and "worker_start R D cfg lib replicas clock utc_now now nows w = (r, w')"
    and "logs_accounted (db view w) (dview (sql w)) seen"
  shows "logs_accounted (db view w') (dview (sql w')) seen"
proof -
  obtain r1 w1 where 1: "restore_from_redis R lib clock utc_now w = (r1, w1)" by fastforce
  obtain r2 w2 where 2: "recover_processing_queue R now w1 = (r2, w2)" by fastforce
  obtain r3 w3 where 3: "sweep_unenqueued_logs R D cfg nows w2 = (r3, w3)" by fastforce
  have "keeps_flight view w w1"
    using keepsD [OF same_lists_restore [OF assms(1)] 1] by (rule keeps_flight_lists)
  moreover have "adds_alerts dview [] w w1" by (rule keepsD [OF adds_alerts_restore 1])
  ultimately have a1: "logs_accounted (db view w1) (dview (sql w1)) seen" using assms(5) by (rule worker_accounted)
  have "keeps_flight view w1 w2" by (rule keepsD [OF keeps_flight_recover [OF assms(1,2)] 2])
  moreover have "adds_alerts dview [] w1 w2"
    using redis_only_detectors [OF redis_only_recover 2] by (auto simp: adds_alerts_def)
  ultimately have a2: "logs_accounted (db view w2) (dview (sql w2)) seen" using a1 by (rule worker_accounted)
  note a3 = sweep_accounted [OF assms(1,3) 3 a2]
  have "w' = w \<or> w' = w1 \<or> w' = w2 \<or> w' = w3"
    using assms(4) 1 2 3
    by (auto simp: worker_start_def thenE_apply raiseE_apply returnE_apply
        split: option.splits if_splits sum.splits)
  with assms(5) a1 a2 a3 show ?thesis by blast
qed

section \<open>Every step\<close>

definition system_inv :: "('r \<Rightarrow> redis_db) \<Rightarrow> ('d \<Rightarrow> sql_db) \<Rightarrow> ('r, 'm, 'd) system \<Rightarrow> bool" where
  "system_inv view dview s \<longleftrightarrow> conn (api_side s) = conn (worker_side s) \<and> api_sql (api_side s) = sql (worker_side s)
     \<and> logs_accounted (db view (worker_side s)) (dview (sql (worker_side s))) (dismissals s)"

lemma system_inv_after:
  "system_inv view dview (after_api a s) \<longleftrightarrow> logs_accounted (db view a) (dview (api_sql a)) (dismissals s)"
  "system_inv view dview (after_worker w s) \<longleftrightarrow> logs_accounted (db view w) (dview (sql w)) (dismissals s)"
  by (simp_all add: system_inv_def after_api_def after_worker_def)

lemma crash_keeps:
  assumes "redis_ok R view" and "sql_ok D dview (=)" and "dequeue R now w = (r1, w1)"
    and "w2 = w1 \<or> commit_alert D al w1 = (r2, w2)"
    and "logs_accounted (db view w) (dview (sql w)) seen"
  shows "logs_accounted (db view w2) (dview (sql w2)) seen"
proof -
  have "keeps_flight view w w1"
    using dequeue_conserves [OF assms(1,3)] dequeue_inv [OF assms(1,3)] by (simp add: keeps_flight_def)
  moreover have "adds_alerts dview [] w w1"
    using redis_only_detectors [OF redis_only_dequeue assms(3)] by (auto simp: adds_alerts_def)
  ultimately have a1: "logs_accounted (db view w1) (dview (sql w1)) seen" using assms(5) by (rule worker_accounted)
  from assms(4) show ?thesis
  proof
    assume 2: "commit_alert D al w1 = (r2, w2)"
    have "keeps_flight view w1 w2" using commit_alert_frame [OF 2] by (simp add: keeps_flight_def)
    moreover have "adds_alerts dview (alert_key al) w1 w2" by (rule keepsD [OF adds_alerts_commit [OF assms(2)] 2])
    ultimately show ?thesis using a1 by (rule worker_accounted)
  qed (use a1 in simp)
qed

lemma system_step_inv:
  assumes "redis_ok R view" and "redis_up R" and "sql_ok D dview (=)"
    and "system_step R D dview cfg lib s s'" and "system_inv view dview s"
  shows "system_inv view dview s'"
proof -
  from assms(5) have same: "conn (api_side s) = conn (worker_side s)" "api_sql (api_side s) = sql (worker_side s)"
    and acc: "logs_accounted (db view (worker_side s)) (dview (sql (worker_side s))) (dismissals s)"
    by (simp_all add: system_inv_def)
  have worker: "system_inv view dview (after_worker w s)"
    if "keeps_flight view (worker_side s) w" and "adds_alerts dview [] (worker_side s) w" for w
    using worker_accounted [OF that acc] by (simp add: system_inv_after)
  from assms(4) show ?thesis
  proof (cases rule: system_step.cases)
    case (post key available utc_now now p r a)
    from post_accounted [OF assms(1,3) post(2-4)] acc same post(1) show ?thesis
      by (simp add: system_inv_after)
  next
    case (round rd r w)
    from round_accounted [OF assms(1-3) round(2,3) acc] round(1) show ?thesis
      by (simp add: system_inv_after)
  next
    case (crash now r1 w1 w2 al r2 w)
    from crash_keeps [OF assms(1,3) crash(2,3) acc] crash show ?thesis by (simp add: system_inv_after)
  next
    case (start replicas clock utc_now now nows r w)
    from start_accounted [OF assms(1-3) start(2) acc] start(1) show ?thesis by (simp add: system_inv_after)
  next
    case (retrain clock utc_now t t' w)
    have "keeps_flight view (worker_side s) w"
      using same_lists_retrain [OF assms(1) retrain(2)] by (auto intro: keeps_flight_lists simp: same_lists_def)
    moreover have "adds_alerts dview [] (worker_side s) w"
      using retrain_piece_sql [OF retrain(2)] by (auto simp: adds_alerts_def)
    ultimately show ?thesis unfolding retrain(1) by (rule worker)
  next
    case (beat now r w)
    have "keeps_flight view (worker_side s) w"
      using keepsD [OF same_lists_heartbeat [OF assms(1)] beat(2)] by (rule keeps_flight_lists)
    moreover have "adds_alerts dview [] (worker_side s) w"
      using redis_only_detectors [OF redis_only_heartbeat beat(2)] by (auto simp: adds_alerts_def)
    ultimately show ?thesis unfolding beat(1) by (rule worker)
  next
    case (event e r w)
    have "keeps_flight view (worker_side s) w"
      using keepsD [OF same_lists_publish [OF assms(1)] event(2)] by (rule keeps_flight_lists)
    moreover have "adds_alerts dview [] (worker_side s) w"
      using redis_only_detectors [OF redis_only_publish event(2)] by (auto simp: adds_alerts_def)
    ultimately show ?thesis unfolding event(1) by (rule worker)
  qed
qed

lemma reachable_inv:
  assumes "redis_ok R view" and "redis_up R" and "sql_ok D dview (=)"
    and "system_reachable R view D dview cfg lib s"
  shows "system_inv view dview s"
  using assms(4)
proof (induction rule: system_reachable.induct)
  case (init s)
  then show ?case by (simp add: system_inv_def logs_accounted_def queue_inv_def empty_db_def empty_sql_ok)
next
  case (step s s')
  then show ?case using system_step_inv [OF assms(1-3)] by blast
qed


text \<open>A post, then a round.\<close>

definition sample_system :: "(redis_db, rat, sql_db) system" where
  "sample_system = (let s = \<lparr>api_side = api_at empty_db \<lparr>logs = [], alerts = []\<rparr>,
       worker_side = worker_at empty_db \<lparr>logs = [], alerts = []\<rparr>, dismissals = {}\<rparr>
     in after_api (snd (ingest_log True mem_redis mem_sql (default_settings []) uuid1 0 5 sample_post (api_side s))) s)"

definition sample_log :: log_row where
  "sample_log = new_log uuid1 0 sample_post\<lparr>log_enqueued := True\<rparr>"

lemma sample_system_stores:
  "logs (sql (worker_side sample_system)) = [sample_log]" "alerts (sql (worker_side sample_system)) = []"
  "length (rlists (conn (worker_side sample_system)) MAIN_QUEUE) = 1"
  "rlists (conn (worker_side sample_system)) PROCESSING_QUEUE = []"
  by code_simp+

lemma sample_system_reachable:
  "system_reachable mem_redis (\<lambda>d. d) mem_sql (\<lambda>d. d) (default_settings []) toy_ml sample_system"
proof -
  let ?s = "\<lparr>api_side = api_at empty_db \<lparr>logs = [], alerts = []\<rparr>,
       worker_side = worker_at empty_db \<lparr>logs = [], alerts = []\<rparr>, dismissals = {}\<rparr> :: (redis_db, rat, sql_db) system"
  have 0: "system_reachable mem_redis (\<lambda>d. d) mem_sql (\<lambda>d. d) (default_settings []) toy_ml ?s"
    by (rule system_reachable.init) (simp_all add: worker_at_def)
  have u: "is_uuid uuid1" by code_simp
  show ?thesis
    unfolding sample_system_def Let_def
    by (rule system_reachable.step [OF 0 system_step.post [OF u _ prod.collapse [symmetric]]])
      (simp add: rows_of_def)
qed


section \<open>Rounds until the queue is empty\<close>

lemma worker_side_after [simp]: "worker_side (after_worker w s) = w"
  by (simp add: after_worker_def)

lemma loop_reachable:
  assumes "redis_ok R view" and "redis_up R" and "sql_ok D dview (=)"
    and "system_reachable R view D dview cfg lib s" and "distinct (map rd_alert_key rds)"
    and "\<And>rd. rd \<in> set rds \<Longrightarrow> rd_alert_key rd \<notin> alert_key ` set (alerts (dview (sql (worker_side s))))"
    and "worker_loop R D cfg lib rds (worker_side s) = (r, w')"
  shows "\<exists>seen. system_reachable R view D dview cfg lib (after_worker w' (s\<lparr>dismissals := seen\<rparr>))
    \<and> logs (dview (sql w')) = logs (dview (sql (worker_side s)))"
  using assms(4-7)
proof (induction rds arbitrary: s)
  case Nil
  have "after_worker (worker_side s) (s\<lparr>dismissals := dismissals s\<rparr>) = s"
    using reachable_inv [OF assms(1-3) Nil.prems(1)] by (simp add: after_worker_def system_inv_def)
  with Nil.prems(1,4) show ?case by (metis returnE_apply snd_conv worker_loop.simps(1))
next
  case (Cons rd rds)
  let ?seen = "dismissals s \<union> dismissed_in_round R dview cfg lib rd (worker_side s)"
  obtain r1 w1 where 1: "worker_round R D cfg lib rd (worker_side s) = (r1, w1)" by fastforce
  let ?s = "after_worker w1 (s\<lparr>dismissals := ?seen\<rparr>)"
  have "r1 = Inr ()" using worker_round_keeps [OF assms(1-3) 1] by blast
  then have rest: "worker_loop R D cfg lib rds (worker_side ?s) = (r, w')"
    using Cons.prems(4) 1 by (simp add: thenE_apply)
  have "system_reachable R view D dview cfg lib ?s"
    using Cons.prems(3) by (intro system_reachable.step [OF Cons.prems(1) system_step.round [OF _ 1]]) simp
  moreover have al: "adds_alerts dview (rd_alert_key rd) (worker_side s) w1"
    by (rule keepsD [OF adds_alerts_round [OF assms(3)] 1])
  have "rd_alert_key rd' \<notin> alert_key ` set (alerts (dview (sql (worker_side ?s))))" if "rd' \<in> set rds" for rd'
  proof -
    have "rd_alert_key rd' \<noteq> rd_alert_key rd" using Cons.prems(2) imageI [OF that, of rd_alert_key] by (metis distinct.simps(2) image_set list.simps(9))
    with al Cons.prems(3) [of rd'] that show ?thesis unfolding adds_alerts_def worker_side_after by auto
  qed
  ultimately obtain seen where "system_reachable R view D dview cfg lib (after_worker w' (?s\<lparr>dismissals := seen\<rparr>))"
    and l: "logs (dview (sql w')) = logs (dview (sql w1))"
    using Cons.IH [OF _ _ _ rest] Cons.prems(2) by auto
  moreover have "after_worker w' (?s\<lparr>dismissals := seen\<rparr>) = after_worker w' (s\<lparr>dismissals := seen\<rparr>)"
    by (simp add: after_worker_def)
  ultimately show ?case using al by (auto simp: adds_alerts_def)
qed



end
