(* ===== verification/PyRegex.thy ===== *)
theory PyRegex
  imports PyText
begin

text \<open>
  The regular expressions of Python's \<open>re\<close> as far as the agent uses them: classes, word boundaries,
  the start of the text, sequences, alternatives, greedy counted repetitions, groups. \<open>runs\<close> lists
  the ways to match in the order in which the backtracking matcher tries them, so the first one is
  the match. \<open>word_of\<close> is the language of an expression; every match is a word of it.
\<close>

section \<open>Expressions\<close>

datatype rx =
    Cls "char \<Rightarrow> bool"
  | WordBoundary
  | TextStart
  | Seq "rx list"
  | Alt "rx list"
  | Rep rx nat nat
  | Plus "char \<Rightarrow> bool"
  | Group rx

definition Lit :: "string \<Rightarrow> rx" where
  "Lit s = Seq (map (\<lambda>c. Cls (\<lambda>x. x = c)) s)"

definition Optional :: "rx \<Rightarrow> rx" where
  "Optional r = Rep r 0 1"

text \<open>Word characters and white space, of the characters up to 255 (the digits are \<open>is_digit\<close>).\<close>

definition rx_word :: "char \<Rightarrow> bool" where
  "rx_word c \<longleftrightarrow> (let n = (of_char c :: nat) in 48 \<le> n \<and> n \<le> 57 \<or> 65 \<le> n \<and> n \<le> 90 \<or> n = 95
     \<or> 97 \<le> n \<and> n \<le> 122 \<or> n \<in> {170, 178, 179, 181, 185, 186, 188, 189, 190}
     \<or> 192 \<le> n \<and> n \<noteq> 215 \<and> n \<noteq> 247)"

definition rx_space :: "char \<Rightarrow> bool" where
  "rx_space c \<longleftrightarrow> char_is_space c \<or> (of_char c :: nat) = 133 \<or> (of_char c :: nat) = 160"

section \<open>The matcher\<close>

text \<open>A position: what was consumed, backwards, what is left, and the groups so far.\<close>

type_synonym position = "string \<times> string \<times> string list"

fun head_is :: "(char \<Rightarrow> bool) \<Rightarrow> string \<Rightarrow> bool" where
  "head_is p [] = False"
| "head_is p (c # s) = p c"

fun step_cls :: "(char \<Rightarrow> bool) \<Rightarrow> position \<Rightarrow> position list" where
  "step_cls p (pre, c # s, g) = (if p c then [(c # pre, s, g)] else [])"
| "step_cls p (pre, [], g) = []"

fun repeat_runs :: "(position \<Rightarrow> position list) \<Rightarrow> nat \<Rightarrow> nat \<Rightarrow> position \<Rightarrow> position list" where
  "repeat_runs f lo 0 x = (if lo = 0 then [x] else [])"
| "repeat_runs f lo (Suc hi) x =
     concat (map (repeat_runs f (lo - 1) hi) (f x)) @ (if lo = 0 then [x] else [])"

definition taken :: "string \<Rightarrow> string \<Rightarrow> string" where
  "taken pre pre' = rev (take (length pre' - length pre) pre')"

fun seq_runs :: "(position \<Rightarrow> position list) list \<Rightarrow> position \<Rightarrow> position list" where
  "seq_runs [] x = [x]"
| "seq_runs (f # fs) x = concat (map (seq_runs fs) (f x))"

primrec runs :: "rx \<Rightarrow> position \<Rightarrow> position list" where
  "runs (Cls p) = step_cls p"
| "runs WordBoundary = (\<lambda>(pre, s, g). if head_is rx_word pre \<noteq> head_is rx_word s then [(pre, s, g)] else [])"
| "runs TextStart = (\<lambda>(pre, s, g). if pre = [] then [(pre, s, g)] else [])"
| "runs (Seq rs) = seq_runs (map runs rs)"
| "runs (Alt rs) = (\<lambda>x. concat (map (\<lambda>f. f x) (map runs rs)))"
| "runs (Rep r lo hi) = repeat_runs (runs r) lo hi"
| "runs (Plus p) = (\<lambda>(pre, s, g). repeat_runs (step_cls p) 1 (length s) (pre, s, g))"
| "runs (Group r) = (\<lambda>(pre, s, g). map (\<lambda>(pre', s', g'). (pre', s', g' @ [taken pre pre'])) (runs r (pre, s, g)))"

text \<open>A match: its text, \<open>group(0)\<close>, and its groups.\<close>

definition rx_match_at :: "rx \<Rightarrow> string \<Rightarrow> string \<Rightarrow> (string \<times> string list) option" where
  "rx_match_at r pre s = (case runs r (pre, s, []) of
       [] \<Rightarrow> None
     | (pre', _, g) # _ \<Rightarrow> Some (taken pre pre', g))"

definition rx_match :: "rx \<Rightarrow> string \<Rightarrow> (string \<times> string list) option" where
  "rx_match r s = rx_match_at r [] s"

fun rx_search_from :: "rx \<Rightarrow> string \<Rightarrow> string \<Rightarrow> (string \<times> string list) option" where
  "rx_search_from r pre [] = rx_match_at r pre []"
| "rx_search_from r pre (c # s) = (case rx_match_at r pre (c # s) of
       Some m \<Rightarrow> Some m
     | None \<Rightarrow> rx_search_from r (c # pre) s)"

definition rx_search :: "rx \<Rightarrow> string \<Rightarrow> (string \<times> string list) option" where
  "rx_search r s = rx_search_from r [] s"

section \<open>Every match is a word of the language, found in the text\<close>

inductive repeated :: "(string \<Rightarrow> bool) \<Rightarrow> nat \<Rightarrow> nat \<Rightarrow> string \<Rightarrow> bool" for w where
  none: "repeated w 0 hi []"
| more: "w s \<Longrightarrow> repeated w (lo - 1) hi t \<Longrightarrow> repeated w lo (Suc hi) (s @ t)"

fun in_sequence :: "(string \<Rightarrow> bool) list \<Rightarrow> string \<Rightarrow> bool" where
  "in_sequence [] s \<longleftrightarrow> s = []"
| "in_sequence (w # ws) s \<longleftrightarrow> (\<exists>t u. s = t @ u \<and> w t \<and> in_sequence ws u)"

primrec word_of :: "rx \<Rightarrow> string \<Rightarrow> bool" where
  "word_of (Cls p) = (\<lambda>s. \<exists>c. s = [c] \<and> p c)"
| "word_of WordBoundary = (\<lambda>s. s = [])"
| "word_of TextStart = (\<lambda>s. s = [])"
| "word_of (Seq rs) = in_sequence (map word_of rs)"
| "word_of (Alt rs) = (\<lambda>s. \<exists>w \<in> set (map word_of rs). w s)"
| "word_of (Rep r lo hi) = repeated (word_of r) lo hi"
| "word_of (Plus p) = (\<lambda>s. s \<noteq> [] \<and> list_all p s)"
| "word_of (Group r) = word_of r"

text \<open>A step from one position to another reads a word of the text.\<close>

definition reads :: "(string \<Rightarrow> bool) \<Rightarrow> (position \<Rightarrow> position list) \<Rightarrow> bool" where
  "reads w f \<longleftrightarrow> (\<forall>pre s g pre' s' g'. (pre', s', g') \<in> set (f (pre, s, g)) \<longrightarrow>
     (\<exists>t. s = t @ s' \<and> pre' = rev t @ pre \<and> w t))"

lemma readsI:
  "(\<And>pre s g pre' s' g'. (pre', s', g') \<in> set (f (pre, s, g)) \<Longrightarrow> \<exists>t. s = t @ s' \<and> pre' = rev t @ pre \<and> w t)
    \<Longrightarrow> reads w f"
  unfolding reads_def by blast

lemma readsD:
  assumes "reads w f" and "(pre', s', g') \<in> set (f (pre, s, g))"
  obtains t where "s = t @ s'" and "pre' = rev t @ pre" and "w t"
  using assms unfolding reads_def by blast

lemma reads_cls: "reads (\<lambda>s. \<exists>c. s = [c] \<and> p c) (step_cls p)"
proof (rule readsI)
  fix pre s g pre' s' g'
  assume "(pre', s', g') \<in> set (step_cls p (pre, s, g))"
  then show "\<exists>t. s = t @ s' \<and> pre' = rev t @ pre \<and> (\<exists>c. t = [c] \<and> p c)"
    by (cases s) (auto split: if_splits)
qed

lemma reads_repeat:
  assumes "reads w f"
  shows "reads (repeated w lo hi) (repeat_runs f lo hi)"
proof (induction hi arbitrary: lo)
  case 0
  show ?case by (rule readsI) (auto intro: repeated.none split: if_splits)
next
  case (Suc hi)
  show ?case
  proof (rule readsI)
    fix pre s g pre' s' g'
    assume m: "(pre', s', g') \<in> set (repeat_runs f lo (Suc hi) (pre, s, g))"
    show "\<exists>t. s = t @ s' \<and> pre' = rev t @ pre \<and> repeated w lo (Suc hi) t"
    proof (cases "lo = 0 \<and> (pre', s', g') = (pre, s, g)")
      case True
      then show ?thesis by (auto intro: repeated.none)
    next
      case False
      with m obtain p1 s1 g1 where 1: "(p1, s1, g1) \<in> set (f (pre, s, g))"
        and 2: "(pre', s', g') \<in> set (repeat_runs f (lo - 1) hi (p1, s1, g1))" by (auto split: if_splits)
      from readsD [OF assms 1] obtain t where t: "s = t @ s1" "p1 = rev t @ pre" "w t" .
      from readsD [OF Suc.IH 2] obtain u where u: "s1 = u @ s'" "pre' = rev u @ p1" "repeated w (lo - 1) hi u" .
      from t u show ?thesis by (intro exI [of _ "t @ u"]) (auto intro: repeated.more)
    qed
  qed
qed

lemma reads_seq:
  assumes "list_all2 reads ws fs"
  shows "reads (in_sequence ws) (seq_runs fs)"
  using assms
proof (induction rule: list_all2_induct)
  case Nil
  show ?case by (rule readsI) auto
next
  case (Cons w ws f fs)
  show ?case
  proof (rule readsI)
    fix pre s g pre' s' g'
    assume "(pre', s', g') \<in> set (seq_runs (f # fs) (pre, s, g))"
    then obtain p1 s1 g1 where 1: "(p1, s1, g1) \<in> set (f (pre, s, g))"
      and 2: "(pre', s', g') \<in> set (seq_runs fs (p1, s1, g1))" by auto
    from readsD [OF Cons(1) 1] obtain t where t: "s = t @ s1" "p1 = rev t @ pre" "w t" .
    from readsD [OF Cons(3) 2] obtain u where u: "s1 = u @ s'" "pre' = rev u @ p1" "in_sequence ws u" .
    from t u show "\<exists>t. s = t @ s' \<and> pre' = rev t @ pre \<and> in_sequence (w # ws) t"
      by (intro exI [of _ "t @ u"]) auto
  qed
qed

lemma repeated_all: "repeated (\<lambda>s. \<exists>c. s = [c] \<and> p c) lo hi s \<Longrightarrow> list_all p s \<and> lo \<le> length s \<and> length s \<le> hi"
proof (induction lo hi s rule: repeated.induct)
  case (none hi)
  then show ?case by simp
next
  case (more s lo hi t)
  then show ?case by (auto simp: le_diff_conv)
qed

lemma reads_runs: "reads (word_of r) (runs r)"
proof (induction r)
  case (Cls p)
  then show ?case by (simp add: reads_cls)
next
  case (Seq rs)
  then show ?case by (auto intro!: reads_seq simp: list_all2_conv_all_nth)
next
  case (Alt rs)
  then show ?case by (fastforce intro!: readsI elim: readsD)
next
  case (Rep r lo hi)
  then show ?case by (simp add: reads_repeat)
next
  case (Plus p)
  show ?case
  proof (rule readsI)
    fix pre s g pre' s' g'
    assume "(pre', s', g') \<in> set (runs (Plus p) (pre, s, g))"
    then have "(pre', s', g') \<in> set (repeat_runs (step_cls p) 1 (length s) (pre, s, g))" by simp
    from readsD [OF reads_repeat [OF reads_cls] this] obtain t where "s = t @ s'" "pre' = rev t @ pre"
      "repeated (\<lambda>s. \<exists>c. s = [c] \<and> p c) 1 (length s) t" .
    with repeated_all [OF this(3)] show "\<exists>t. s = t @ s' \<and> pre' = rev t @ pre \<and> word_of (Plus p) t" by auto
  qed
next
  case (Group r)
  then show ?case by (fastforce intro!: readsI elim: readsD)
qed (auto intro!: readsI split: if_splits)

lemma rx_match_at_word:
  assumes "rx_match_at r pre s = Some (t, g)"
  shows "word_of r t \<and> prefix t s"
proof -
  from assms obtain pre' s' rest where 1: "runs r (pre, s, []) = (pre', s', g) # rest" and t: "t = taken pre pre'"
    by (auto simp: rx_match_at_def split: list.splits)
  have "(pre', s', g) \<in> set (runs r (pre, s, []))" using 1 by simp
  from readsD [OF reads_runs this] obtain u where "s = u @ s'" "pre' = rev u @ pre" "word_of r u" .
  with t show ?thesis by (simp add: taken_def prefix_def)
qed

lemma rx_search_from_word:
  "rx_search_from r pre s = Some (t, g) \<Longrightarrow> word_of r t \<and> sublist t s"
proof (induction s arbitrary: pre)
  case Nil
  then show ?case using rx_match_at_word [of r pre "[]" t g] prefix_imp_sublist by auto
next
  case (Cons c s)
  show ?case
  proof (cases "rx_match_at r pre (c # s)")
    case None
    with Cons have "word_of r t \<and> sublist t s" by simp
    then show ?thesis by (auto simp: sublist_Cons_right)
  next
    case (Some m)
    with Cons.prems rx_match_at_word [of r pre "c # s" t g] prefix_imp_sublist show ?thesis by auto
  qed
qed

lemma rx_search_word: "rx_search r s = Some (t, g) \<Longrightarrow> word_of r t \<and> sublist t s"
  unfolding rx_search_def by (rule rx_search_from_word)

end
