(* ===== verification/PyIso.thy ===== *)
theory PyIso
  imports PyTime
begin

text \<open>
  \<open>datetime.fromisoformat\<close> on the texts of the form \<open>YYYY-MM-DD?HH:MM:SS\<close>, with an optional fraction and
  offset, and the proof that it reads back what \<open>isoformat\<close> writes, over the whole calendar.
\<close>

section \<open>Reading\<close>

definition num_at :: "nat \<Rightarrow> nat \<Rightarrow> string \<Rightarrow> int" where
  "num_at i n s = digits_value 0 (take n (drop i s))"

definition fraction_us :: "string \<Rightarrow> int" where
  "fraction_us ds = (let six = take 6 ds in digits_value 0 six * 10 ^ (6 - length six))"

text \<open>
  Shorter texts and other layouts, which Python's function also knows, are not among those the program reads;
  here they are a \<open>ValueError\<close>.
\<close>

definition iso_shape :: "string \<Rightarrow> bool" where
  "iso_shape s \<longleftrightarrow> 19 \<le> length s \<and> list_all (\<lambda>i. is_digit (s ! i)) [0, 1, 2, 3, 5, 6, 8, 9, 11, 12, 14, 15, 17, 18]
     \<and> s ! 4 = CHR ''-'' \<and> s ! 7 = CHR ''-'' \<and> s ! 13 = CHR '':'' \<and> s ! 16 = CHR '':''"

definition zone_shape :: "string \<Rightarrow> bool" where
  "zone_shape z \<longleftrightarrow> length z = 6 \<and> z ! 0 \<in> set ''+-'' \<and> z ! 3 = CHR '':''
     \<and> list_all (\<lambda>i. is_digit (z ! i)) [1, 2, 4, 5]"

definition split_fraction :: "string \<Rightarrow> int \<times> string" where
  "split_fraction rest = (case rest of
       CHR ''.'' # f \<Rightarrow> (fraction_us (takeWhile is_digit f), dropWhile is_digit f)
     | _ \<Rightarrow> (0, rest))"

definition fromisoformat :: "string \<Rightarrow> exn + py_datetime" where
  "fromisoformat s =
     (if \<not> iso_shape s then Inl ValueError
      else case split_fraction (drop 19 s) of (us, zone) \<Rightarrow>
        case make_datetime (num_at 0 4 s) (num_at 5 2 s) (num_at 8 2 s) (num_at 11 2 s)
            (num_at 14 2 s) (num_at 17 2 s) us of
          Inl e \<Rightarrow> Inl e
        | Inr t \<Rightarrow>
            if zone = [] then Inr (Naive t)
            else if \<not> zone_shape zone then Inl ValueError
            else let magnitude = num_at 1 2 zone * 60 + num_at 4 2 zone;
                     offset = (if hd zone = CHR ''-'' then - magnitude else magnitude)
              in if 1440 \<le> magnitude then Inl ValueError else Inr (Aware (t - minutes offset)))"

lemma fromisoformat_examples:
  "fromisoformat ''2024-02-29 12:34:00'' = Inr (Naive 1709210040000000)"
  "fromisoformat ''2024-02-29T12:34:56.000250+00:00'' = Inr (Aware 1709210096000250)"
  "fromisoformat ''2024-02-30T12:34:56+00:00'' = Inl ValueError"
  by code_simp+

definition in_calendar :: "instant \<Rightarrow> bool" where
  "in_calendar t \<longleftrightarrow> first_instant \<le> t \<and> t \<le> last_instant"

section \<open>The calendar\<close>

text \<open>
  The years of an era of 400 begin in March, so that a leap day is the last of its year; \<open>year_start\<close> is
  the first day of such a year and \<open>year_of_day\<close> the year of a day.
\<close>

definition year_start :: "int \<Rightarrow> int" where
  "year_start y = 365 * y + y div 4 - y div 100"

definition elapsed :: "int \<Rightarrow> int" where
  "elapsed doe = doe - doe div 1460 + doe div 36524 - doe div 146096"

definition year_of_day :: "int \<Rightarrow> int" where
  "year_of_day doe = elapsed doe div 365"

lemma elapsed_step:
  assumes "0 \<le> n" and "n < 146096"
  shows "elapsed n \<le> elapsed (n + 1)"
proof (cases "n + 1 = 146096")
  case True
  then have "n = 146095" by simp
  then show ?thesis by (simp add: elapsed_def)
next
  case False
  with assms have "(n + 1) div 146096 = 0" "n div 146096 = 0" by auto
  moreover have "(n + 1) div 1460 \<le> n div 1460 + 1" by simp
  moreover have "n div 36524 \<le> (n + 1) div 36524" by (rule zdiv_mono1) auto
  ultimately show ?thesis unfolding elapsed_def by linarith
qed

lemma elapsed_mono:
  assumes "0 \<le> a" and "a \<le> b" and "b \<le> 146096"
  shows "elapsed a \<le> elapsed b"
  using assms(2,3)
proof (induction b rule: int_ge_induct)
  case base
  show ?case by simp
next
  case (step i)
  with elapsed_step [of i] assms(1) show ?case by fastforce
qed

lemma year_of_day_mono:
  "0 \<le> a \<Longrightarrow> a \<le> b \<Longrightarrow> b \<le> 146096 \<Longrightarrow> year_of_day a \<le> year_of_day b"
  unfolding year_of_day_def by (intro zdiv_mono1 elapsed_mono) auto

definition year_end :: "int \<Rightarrow> int" where
  "year_end y = (if y = 399 then 146096 else year_start (y + 1) - 1)"

lemma years_checked:
  "list_all (\<lambda>y. year_of_day (year_start y) = y \<and> year_of_day (year_end y) = y
     \<and> 0 \<le> year_start y \<and> year_end y \<le> 146096) [0..399]"
  by code_simp

lemma year_checked:
  "0 \<le> y \<Longrightarrow> y < 400 \<Longrightarrow> year_of_day (year_start y) = y \<and> year_of_day (year_end y) = y
     \<and> 0 \<le> year_start y \<and> year_end y \<le> 146096"
  using years_checked by (simp add: list_all_iff)

lemma year_of_day_bounds:
  assumes "0 \<le> doe" and "doe \<le> 146096"
  defines "y \<equiv> year_of_day doe"
  shows "0 \<le> y \<and> y < 400 \<and> year_start y \<le> doe \<and> doe \<le> year_end y"
proof -
  have "year_of_day 0 = 0" "year_of_day 146096 = 399" by (simp_all add: year_of_day_def elapsed_def)
  then have y: "0 \<le> y" "y < 400"
    using year_of_day_mono [of 0 doe] year_of_day_mono [of doe 146096] assms by auto
  have "year_start y \<le> doe"
  proof (rule ccontr)
    assume less: "\<not> year_start y \<le> doe"
    with assms have "y \<noteq> 0" by (auto simp: year_start_def)
    with y less have "doe \<le> year_end (y - 1)" by (simp add: year_end_def)
    with year_checked [of "y - 1"] year_of_day_mono [of doe "year_end (y - 1)"] assms y \<open>y \<noteq> 0\<close>
    show False by auto
  qed
  moreover have "doe \<le> year_end y"
  proof (rule ccontr)
    assume less: "\<not> doe \<le> year_end y"
    with assms have "y \<noteq> 399" by (auto simp: year_end_def)
    with y less have "year_start (y + 1) \<le> doe" by (simp add: year_end_def)
    with year_checked [of "y + 1"] year_of_day_mono [of "year_start (y + 1)" doe] assms y \<open>y \<noteq> 399\<close>
    show False by auto
  qed
  ultimately show ?thesis using y by blast
qed

text \<open>Months: March is 0; February is 11 and belongs to the civil year after.\<close>

definition month_of :: "int \<Rightarrow> int" where
  "month_of mp = (if mp < 10 then mp + 3 else mp - 9)"

lemma month_of_le_2: "0 \<le> mp \<Longrightarrow> mp \<le> 11 \<Longrightarrow> month_of mp \<le> 2 \<longleftrightarrow> 10 \<le> mp"
  by (auto simp: month_of_def)

lemma year_lengths_checked:
  "list_all (\<lambda>y. year_end y - year_start y = (if is_leap (y + 1) then 365 else 364)) [0..399]"
  by code_simp

lemma months_checked:
  "list_all (\<lambda>doy. let mp = (5 * doy + 2) div 153; d = doy - (153 * mp + 2) div 5 + 1 in
     0 \<le> mp \<and> mp \<le> 11 \<and> 1 \<le> d
     \<and> d \<le> (if mp = 11 then (if doy = 365 then 29 else 28) else days_in_month 1 (month_of mp))) [0..365]"
  by code_simp

lemma is_leap_era: "is_leap (y + 400 * e) \<longleftrightarrow> is_leap y"
proof -
  have "(y + 400 * e) mod 4 = y mod 4" "(y + 400 * e) mod 100 = y mod 100"
    using mod_mult_self2 [of y 4 "100 * e"] mod_mult_self2 [of y 100 "4 * e"] by simp_all
  then show ?thesis by (simp add: is_leap_def)
qed

lemma civil_date_unfold:
  "civil_date day =
     (let z = day + 719468; era = z div 146097; doe = z mod 146097; yoe = year_of_day doe;
          doy = doe - year_start yoe; mp = (5 * doy + 2) div 153; m = month_of mp
      in (if m \<le> 2 then yoe + era * 400 + 1 else yoe + era * 400, m, doy - (153 * mp + 2) div 5 + 1))"
  unfolding civil_date_def year_of_day_def elapsed_def year_start_def month_of_def Let_def by (rule refl)

lemma civil_date_parts:
  obtains era yoe doy where
    "civil_date day = (let mp = (5 * doy + 2) div 153; m = month_of mp in
       (if m \<le> 2 then yoe + era * 400 + 1 else yoe + era * 400, m, doy - (153 * mp + 2) div 5 + 1))"
    "0 \<le> yoe" "yoe < 400" "0 \<le> doy" "doy \<le> (if is_leap (yoe + 1) then 365 else 364)"
    "day = era * 146097 + year_start yoe + doy - 719468"
proof -
  define era where "era = (day + 719468) div 146097"
  define doe where "doe = (day + 719468) mod 146097"
  define yoe where "yoe = year_of_day doe"
  have doe: "0 \<le> doe" "doe \<le> 146096"
    using pos_mod_bound [of 146097 "day + 719468"] by (simp_all add: doe_def)
  note y = year_of_day_bounds [OF doe, folded yoe_def]
  have len: "year_end yoe - year_start yoe = (if is_leap (yoe + 1) then 365 else 364)"
    using year_lengths_checked y by (simp add: list_all_iff)
  have split: "day + 719468 = era * 146097 + doe" by (simp add: era_def doe_def)
  show thesis
  proof (rule that [of "doe - year_start yoe" yoe era])
    show "civil_date day = (let mp = (5 * (doe - year_start yoe) + 2) div 153; m = month_of mp in
       (if m \<le> 2 then yoe + era * 400 + 1 else yoe + era * 400, m,
        doe - year_start yoe - (153 * mp + 2) div 5 + 1))"
      by (simp add: civil_date_unfold era_def doe_def yoe_def Let_def)
    show "doe - year_start yoe \<le> (if is_leap (yoe + 1) then 365 else 364)"
      unfolding len [symmetric] using y by simp
  qed (use y split in auto)
qed

lemma month_day_facts:
  assumes "0 \<le> doy" and "doy \<le> 365"
  defines "mp \<equiv> (5 * doy + 2) div 153"
  defines "d \<equiv> doy - (153 * mp + 2) div 5 + 1"
  shows "0 \<le> mp \<and> mp \<le> 11 \<and> 1 \<le> d
    \<and> d \<le> (if mp = 11 then (if doy = 365 then 29 else 28) else days_in_month 1 (month_of mp))"
proof -
  have "doy \<in> set [0..365]" using assms(1,2) by simp
  with months_checked show ?thesis unfolding list_all_iff Let_def mp_def d_def by blast
qed

text \<open>Every day number has a date, and its date leads back to it.\<close>

theorem civil_date_correct:
  assumes "civil_date day = (y, m, d)"
  shows "days_from_civil y m d = day \<and> 1 \<le> m \<and> m \<le> 12 \<and> 1 \<le> d \<and> d \<le> days_in_month y m"
proof -
  obtain era yoe doy where c: "civil_date day = (let mp = (5 * doy + 2) div 153; m = month_of mp in
       (if m \<le> 2 then yoe + era * 400 + 1 else yoe + era * 400, m, doy - (153 * mp + 2) div 5 + 1))"
    and yoe: "0 \<le> yoe" "yoe < 400" and doy: "0 \<le> doy" "doy \<le> (if is_leap (yoe + 1) then 365 else 364)"
    and day: "day = era * 146097 + year_start yoe + doy - 719468"
    by (rule civil_date_parts)
  define mp where "mp = (5 * doy + 2) div 153"
  have "doy \<le> 365" using doy(2) by (simp split: if_splits)
  note f = month_day_facts [OF doy(1) this, folded mp_def]
  have ymd: "m = month_of mp" "y = (if m \<le> 2 then yoe + era * 400 + 1 else yoe + era * 400)"
    "d = doy - (153 * mp + 2) div 5 + 1"
    using c assms by (simp_all add: Let_def mp_def)
  have m: "1 \<le> m" "m \<le> 12" "m \<le> 2 \<longleftrightarrow> 10 \<le> mp" "(if 2 < m then m - 3 else m + 9) = mp"
    using f by (auto simp: ymd(1) month_of_def)
  have era: "(yoe + era * 400) div 400 = era" "(yoe + era * 400) mod 400 = yoe" using yoe by simp_all
  have "days_from_civil y m d = day"
    using m(4) era by (cases "m \<le> 2") (simp_all add: days_from_civil_def Let_def ymd(2,3) day year_start_def)
  moreover have "d \<le> days_in_month y m"
  proof (cases "mp = 11")
    case True
    then have "m = 2" "y = yoe + 1 + 400 * era" by (simp_all add: ymd month_of_def)
    with f True doy(2) show ?thesis by (auto simp: ymd(3) days_in_month_def is_leap_era)
  next
    case False
    then have "m \<noteq> 2" using f by (auto simp: ymd(1) month_of_def)
    with f False show ?thesis by (simp add: ymd(1,3) days_in_month_def)
  qed
  ultimately show ?thesis using m f by (simp add: ymd(3))
qed

text \<open>The dates of Python's calendar are those of its instants.\<close>

lemma civil_date_valid:
  assumes "civil_date day = (y, m, d)" and "-719162 \<le> day" and "day \<le> 2932896"
  shows "valid_date y m d"
proof -
  obtain era yoe doy where c: "civil_date day = (let mp = (5 * doy + 2) div 153; m = month_of mp in
       (if m \<le> 2 then yoe + era * 400 + 1 else yoe + era * 400, m, doy - (153 * mp + 2) div 5 + 1))"
    and yoe: "0 \<le> yoe" "yoe < 400" and doy: "0 \<le> doy" "doy \<le> (if is_leap (yoe + 1) then 365 else 364)"
    and day: "day = era * 146097 + year_start yoe + doy - 719468"
    by (rule civil_date_parts)
  have doy': "doy \<le> 365" using doy(2) by (simp split: if_splits)
  have start: "0 \<le> year_start yoe" "year_start yoe \<le> 145731" using yoe by (auto simp: year_start_def)
  have era: "0 \<le> era" "era \<le> 24" using assms(2,3) day start doy doy' by linarith+
  have y: "y = (if m \<le> 2 then yoe + era * 400 + 1 else yoe + era * 400)" and m: "m = month_of ((5 * doy + 2) div 153)"
    using c assms(1) by (simp_all add: Let_def)
  have late: "m \<le> 2 \<longleftrightarrow> 306 \<le> doy"
  proof -
    have "0 \<le> (5 * doy + 2) div 153" "(5 * doy + 2) div 153 \<le> 11"
      using month_day_facts [OF doy(1) doy'] by blast+
    then have "m \<le> 2 \<longleftrightarrow> 10 \<le> (5 * doy + 2) div 153" unfolding m by (rule month_of_le_2)
    also have "\<dots> \<longleftrightarrow> 306 \<le> doy" by (intro iffI) linarith+
    finally show ?thesis .
  qed
  have "1 \<le> y"
  proof (cases "era = 0 \<and> yoe = 0")
    case True
    with day assms(2) have "306 \<le> doy" by (simp add: year_start_def)
    with late y True show ?thesis by simp
  next
    case False
    with yoe era y show ?thesis by (auto split: if_splits)
  qed
  moreover have "y \<le> 9999"
  proof (cases "era = 24 \<and> yoe = 399")
    case True
    with day assms(3) have "doy < 306" by (simp add: year_start_def)
    with late y True show ?thesis by simp
  next
    case False
    with yoe era have "yoe + era * 400 \<le> 9998" by (cases "era = 24") auto
    with y show ?thesis by (auto split: if_splits)
  qed
  ultimately show ?thesis using civil_date_correct [OF assms(1)] by (simp add: valid_date_def)
qed

section \<open>Digits\<close>

lemma digits_value_append: "digits_value a (s @ t) = digits_value (digits_value a s) t"
  by (induction s arbitrary: a) auto

lemma digit_char: "n < 10 \<Longrightarrow> is_digit (char_of (48 + n)) \<and> int (of_char (char_of (48 + n) :: char)) = 48 + int n"
proof -
  assume n: "n < (10 :: nat)"
  have "list_all (\<lambda>n. is_digit (char_of (48 + n))) [0..<10]" by code_simp
  with n have "is_digit (char_of (48 + n))" by (simp add: list_all_iff)
  moreover have "(of_char (char_of (48 + n) :: char) :: nat) = 48 + n" using n by (simp add: of_char_of)
  ultimately show ?thesis by (metis of_nat_add of_nat_numeral of_nat_of_char)
qed

lemma str_of_nat_digits: "list_all is_digit (str_of_nat n) \<and> digits_value 0 (str_of_nat n) = int n"
proof (induction n rule: str_of_nat.induct)
  case (1 n)
  show ?case
  proof (cases "n < 10")
    case True
    with digit_char [of n] show ?thesis by (simp add: str_of_nat.simps [of n])
  next
    case False
    have "n mod 10 < 10" "10 * int (n div 10) + int (n mod 10) = int n"
      by (simp, metis mult_div_mod_eq of_nat_add of_nat_mult of_nat_numeral)
    with digit_char [of "n mod 10"] 1 [OF False] False show ?thesis
      by (simp add: str_of_nat.simps [of n] digits_value_append)
  qed
qed

lemma length_str_of_nat: "n < 10 ^ k \<Longrightarrow> 0 < k \<Longrightarrow> length (str_of_nat n) \<le> k"
proof (induction n arbitrary: k rule: str_of_nat.induct)
  case (1 n)
  show ?case
  proof (cases "n < 10")
    case True
    with 1(3) show ?thesis by (simp add: str_of_nat.simps [of n])
  next
    case False
    with 1(2) obtain j where k: "k = Suc j" "0 < j" by (cases k; cases "k - 1") auto
    with 1(2) have "n div 10 < 10 ^ j" by (simp add: less_mult_imp_div_less mult.commute)
    from 1(1) [OF False this k(2)] False k show ?thesis by (simp add: str_of_nat.simps [of n])
  qed
qed

lemma digits_value_zeros: "digits_value 0 (replicate k (CHR ''0'') @ s) = digits_value 0 s"
  by (induction k) auto

lemma pad_digits:
  assumes "0 \<le> i" and "i < 10 ^ n" and "0 < n"
  shows "length (pad n i) = n \<and> list_all is_digit (pad n i) \<and> digits_value 0 (pad n i) = i"
proof -
  have s: "str_of_int i = str_of_nat (nat i)" using assms(1) by (simp add: str_of_int_def)
  have "int (nat i) < int (10 ^ n)" using assms(1,2) by simp
  then have "nat i < 10 ^ n" by (simp only: of_nat_less_iff)
  note len = length_str_of_nat [OF this assms(3)]
  have "list_all is_digit (replicate k (CHR ''0''))" for k by (induction k) (simp_all add: is_digit_def)
  with len show ?thesis
    using str_of_nat_digits [of "nat i"] assms(1) by (simp add: pad_def Let_def s digits_value_zeros)
qed

section \<open>The round trip\<close>

lemma pad_2:
  assumes "0 \<le> i" and "i < 100"
  obtains a b where "pad 2 i = [a, b]" "is_digit a" "is_digit b" "digits_value 0 [a, b] = i"
proof -
  have p: "length (pad 2 i) = 2" "list_all is_digit (pad 2 i)" "digits_value 0 (pad 2 i) = i"
    using pad_digits [of i 2] assms by simp_all
  then obtain a b where "pad 2 i = [a, b]" by (auto simp: numeral_2_eq_2 length_Suc_conv)
  with p show thesis using that by auto
qed

lemma pad_4:
  assumes "0 \<le> i" and "i < 10000"
  obtains a b c d where "pad 4 i = [a, b, c, d]" "is_digit a" "is_digit b" "is_digit c" "is_digit d"
    "digits_value 0 [a, b, c, d] = i"
proof -
  have p: "length (pad 4 i) = 4" "list_all is_digit (pad 4 i)" "digits_value 0 (pad 4 i) = i"
    using pad_digits [of i 4] assms by simp_all
  then obtain a b c d where "pad 4 i = [a, b, c, d]" by (auto simp: numeral_eq_Suc length_Suc_conv)
  with p show thesis using that by auto
qed

text \<open>The clock of a day.\<close>

lemma clock_parts:
  fixes t :: instant
  defines "sec \<equiv> t mod us_per_day div us_per_second"
  shows "0 \<le> sec div 3600" "sec div 3600 < 24" "0 \<le> sec div 60 mod 60" "sec div 60 mod 60 < 60"
    "0 \<le> sec mod 60" "sec mod 60 < 60"
    "(sec div 3600 * 3600 + sec div 60 mod 60 * 60 + sec mod 60) * us_per_second + t mod us_per_day mod us_per_second
      = t mod us_per_day"
proof -
  have r: "0 \<le> t mod us_per_day" "t mod us_per_day < us_per_day" by (simp_all add: us_per_day_def)
  have sec: "0 \<le> sec" "sec < 86400"
    using r unfolding sec_def by (simp_all add: us_per_day_def us_per_second_def pos_imp_zdiv_nonneg_iff)
  then show "0 \<le> sec div 3600" "sec div 3600 < 24" by auto
  show "0 \<le> sec div 60 mod 60" "sec div 60 mod 60 < 60" "0 \<le> sec mod 60" "sec mod 60 < 60" by simp_all
  have "sec div 3600 = sec div 60 div 60" by (simp add: zdiv_zmult2_eq [symmetric])
  then have "sec div 3600 * 3600 + sec div 60 mod 60 * 60 + sec mod 60 = sec"
    using div_mult_mod_eq [of sec 60] div_mult_mod_eq [of "sec div 60" 60] by linarith
  then show "(sec div 3600 * 3600 + sec div 60 mod 60 * 60 + sec mod 60) * us_per_second
      + t mod us_per_day mod us_per_second = t mod us_per_day"
    unfolding sec_def by simp
qed

lemma make_datetime_of_instant:
  assumes "first_instant \<le> t" and "t \<le> last_instant" and "civil_date (t div us_per_day) = (y, m, d)"
  defines "sec \<equiv> t mod us_per_day div us_per_second"
  shows "make_datetime y m d (sec div 3600) (sec div 60 mod 60) (sec mod 60) (t mod us_per_day mod us_per_second)
      = Inr t \<and> valid_date y m d"
proof -
  have f: "first_instant = -719162 * us_per_day" "last_instant = 2932896 * us_per_day + us_per_day - 1"
    by code_simp+
  have "-719162 \<le> t div us_per_day" "t div us_per_day \<le> 2932896"
    using assms(1,2) unfolding f us_per_day_def by linarith+
  from civil_date_valid [OF assms(3) this] have v: "valid_date y m d" .
  have "days_from_civil y m d = t div us_per_day" using civil_date_correct [OF assms(3)] by simp
  moreover have "days (t div us_per_day) + t mod us_per_day = t" by (simp add: days_def)
  ultimately show ?thesis
    using v clock_parts [of t, folded sec_def] by (simp add: make_datetime_def add.assoc)
qed

lemma take_drop_digits:
  "list_all is_digit ds \<Longrightarrow> takeWhile is_digit (ds @ CHR ''+'' # z) = ds \<and> dropWhile is_digit (ds @ CHR ''+'' # z) = CHR ''+'' # z"
  by (induction ds) (auto simp: is_digit_def)

lemma split_fraction_pad:
  assumes "0 \<le> us" and "us < 1000000"
  shows "split_fraction ((if us = 0 then [] else ''.'' @ pad 6 us) @ CHR ''+'' # z) = (us, CHR ''+'' # z)"
proof (cases "us = 0")
  case True
  then show ?thesis by (simp add: split_fraction_def)
next
  case False
  have p: "length (pad 6 us) = 6" "list_all is_digit (pad 6 us)" "digits_value 0 (pad 6 us) = us"
    using pad_digits [of us 6] assms by simp_all
  with False show ?thesis by (simp add: split_fraction_def take_drop_digits [OF p(2)] fraction_us_def Let_def)
qed

lemma iso_text:
  assumes "list_all is_digit [y1, y2, y3, y4, m1, m2, d1, d2, h1, h2, i1, i2, s1, s2]"
    and "s = [y1, y2, y3, y4, CHR ''-'', m1, m2, CHR ''-'', d1, d2, separator, h1, h2, CHR '':'', i1, i2,
      CHR '':'', s1, s2] @ rest"
  shows "iso_shape s \<and> drop 19 s = rest \<and> num_at 0 4 s = digits_value 0 [y1, y2, y3, y4]
    \<and> num_at 5 2 s = digits_value 0 [m1, m2] \<and> num_at 8 2 s = digits_value 0 [d1, d2]
    \<and> num_at 11 2 s = digits_value 0 [h1, h2] \<and> num_at 14 2 s = digits_value 0 [i1, i2]
    \<and> num_at 17 2 s = digits_value 0 [s1, s2]"
  using assms(1) unfolding assms(2) by (simp add: iso_shape_def num_at_def)

text \<open>The characters of \<open>iso_body\<close>.\<close>

lemma iso_body_chars:
  assumes "first_instant \<le> t" and "t \<le> last_instant"
  defines "us \<equiv> t mod us_per_day mod us_per_second"
  obtains y1 y2 y3 y4 m1 m2 d1 d2 h1 h2 i1 i2 s1 s2 where
    "iso_body t = [y1, y2, y3, y4, CHR ''-'', m1, m2, CHR ''-'', d1, d2, CHR ''T'', h1, h2, CHR '':'',
      i1, i2, CHR '':'', s1, s2] @ (if us = 0 then [] else ''.'' @ pad 6 us)"
    "list_all is_digit [y1, y2, y3, y4, m1, m2, d1, d2, h1, h2, i1, i2, s1, s2]"
    "make_datetime (digits_value 0 [y1, y2, y3, y4]) (digits_value 0 [m1, m2]) (digits_value 0 [d1, d2])
      (digits_value 0 [h1, h2]) (digits_value 0 [i1, i2]) (digits_value 0 [s1, s2]) us = Inr t"
proof -
  obtain y m d where c: "civil_date (t div us_per_day) = (y, m, d)" by (metis prod_cases3)
  define sec where "sec = t mod us_per_day div us_per_second"
  note dt = make_datetime_of_instant [OF assms(1,2) c, folded sec_def us_def]
  have v: "0 \<le> y" "y < 10000" "0 \<le> m" "m < 100" "0 \<le> d" "d < 100"
    using dt by (auto simp: valid_date_def days_in_month_def split: if_splits)
  note k = clock_parts [of t, folded sec_def]
  obtain y1 y2 y3 y4 where Y: "pad 4 y = [y1, y2, y3, y4]" "is_digit y1" "is_digit y2" "is_digit y3" "is_digit y4"
    "digits_value 0 [y1, y2, y3, y4] = y" by (rule pad_4 [OF v(1,2)])
  obtain m1 m2 where M: "pad 2 m = [m1, m2]" "is_digit m1" "is_digit m2" "digits_value 0 [m1, m2] = m"
    by (rule pad_2 [OF v(3,4)])
  obtain d1 d2 where D: "pad 2 d = [d1, d2]" "is_digit d1" "is_digit d2" "digits_value 0 [d1, d2] = d"
    by (rule pad_2 [OF v(5,6)])
  have small: "sec div 3600 < 100" "sec div 60 mod 60 < 100" "sec mod 60 < 100" using k by linarith+
  obtain h1 h2 where H: "pad 2 (sec div 3600) = [h1, h2]" "is_digit h1" "is_digit h2"
    "digits_value 0 [h1, h2] = sec div 3600" by (rule pad_2 [OF k(1) small(1)])
  obtain i1 i2 where I: "pad 2 (sec div 60 mod 60) = [i1, i2]" "is_digit i1" "is_digit i2"
    "digits_value 0 [i1, i2] = sec div 60 mod 60" by (rule pad_2 [OF k(3) small(2)])
  obtain s1 s2 where S: "pad 2 (sec mod 60) = [s1, s2]" "is_digit s1" "is_digit s2"
    "digits_value 0 [s1, s2] = sec mod 60" by (rule pad_2 [OF k(5) small(3)])
  show thesis
  proof (rule that)
    show "iso_body t = [y1, y2, y3, y4, CHR ''-'', m1, m2, CHR ''-'', d1, d2, CHR ''T'', h1, h2, CHR '':'',
        i1, i2, CHR '':'', s1, s2] @ (if us = 0 then [] else ''.'' @ pad 6 us)"
      by (simp add: iso_body_def c Let_def Y(1) M(1) D(1) H(1) I(1) S(1) sec_def [symmetric] us_def [symmetric])
    show "list_all is_digit [y1, y2, y3, y4, m1, m2, d1, d2, h1, h2, i1, i2, s1, s2]"
      using Y M D H I S by simp
    show "make_datetime (digits_value 0 [y1, y2, y3, y4]) (digits_value 0 [m1, m2]) (digits_value 0 [d1, d2])
        (digits_value 0 [h1, h2]) (digits_value 0 [i1, i2]) (digits_value 0 [s1, s2]) us = Inr t"
      unfolding Y(6) M(4) D(4) H(4) I(4) S(4) using dt by blast
  qed
qed

theorem fromisoformat_isoformat:
  assumes "first_instant \<le> t" and "t \<le> last_instant"
  shows "fromisoformat (isoformat_utc t) = Inr (Aware t)"
proof -
  define us where "us = t mod us_per_day mod us_per_second"
  have us: "0 \<le> us" "us < 1000000" by (simp_all add: us_def us_per_second_def)
  obtain y1 y2 y3 y4 m1 m2 d1 d2 h1 h2 i1 i2 s1 s2 where
    b: "iso_body t = [y1, y2, y3, y4, CHR ''-'', m1, m2, CHR ''-'', d1, d2, CHR ''T'', h1, h2, CHR '':'',
      i1, i2, CHR '':'', s1, s2] @ (if us = 0 then [] else ''.'' @ pad 6 us)"
    and digits: "list_all is_digit [y1, y2, y3, y4, m1, m2, d1, d2, h1, h2, i1, i2, s1, s2]"
    and dt: "make_datetime (digits_value 0 [y1, y2, y3, y4]) (digits_value 0 [m1, m2]) (digits_value 0 [d1, d2])
      (digits_value 0 [h1, h2]) (digits_value 0 [i1, i2]) (digits_value 0 [s1, s2]) us = Inr t"
    by (rule iso_body_chars [OF assms, folded us_def])
  have "isoformat_utc t = [y1, y2, y3, y4, CHR ''-'', m1, m2, CHR ''-'', d1, d2, CHR ''T'', h1, h2, CHR '':'',
      i1, i2, CHR '':'', s1, s2] @ (if us = 0 then [] else ''.'' @ pad 6 us) @ ''+00:00''"
    unfolding isoformat_utc_def b by simp
  note read = iso_text [OF digits this]
  have zone: "zone_shape ''+00:00''" "num_at 1 2 ''+00:00'' = 0" "num_at 4 2 ''+00:00'' = 0" by code_simp+
  show ?thesis
    using read dt split_fraction_pad [OF us, of "''00:00''"]
    by (simp add: fromisoformat_def zone zone(2) [unfolded One_nat_def] minutes_def del: digits_value.simps)
qed

lemma digit_not_T: "is_digit c \<Longrightarrow> c \<noteq> CHR ''T''"
  by (auto simp: is_digit_def)

text \<open>A whole minute as \<open>strftime("%Y-%m-%d %H:%M:00")\<close> prints it is read as a naive datetime.\<close>

lemma fromisoformat_minute:
  assumes "first_instant \<le> t" and "t \<le> last_instant" and "floor_minute t = t"
  shows "fromisoformat (map (\<lambda>c. if c = CHR ''T'' then CHR '' '' else c) (iso_body t)) = Inr (Naive t)"
proof -
  have whole: "t mod us_per_day mod us_per_second = 0"
  proof -
    have "us_per_second dvd us_per_minute" "us_per_second dvd us_per_day"
      by (simp_all add: us_per_second_def us_per_minute_def us_per_day_def)
    moreover have "us_per_minute dvd t" using assms(3) by (simp add: floor_minute_def mod_eq_0_iff_dvd)
    ultimately show ?thesis by (metis dvd_mod_imp_dvd dvd_trans mod_0_imp_dvd mod_mod_cancel dvd_imp_mod_0)
  qed
  obtain y1 y2 y3 y4 m1 m2 d1 d2 h1 h2 i1 i2 s1 s2 where
    b: "iso_body t = [y1, y2, y3, y4, CHR ''-'', m1, m2, CHR ''-'', d1, d2, CHR ''T'', h1, h2, CHR '':'',
      i1, i2, CHR '':'', s1, s2]"
    and digits: "list_all is_digit [y1, y2, y3, y4, m1, m2, d1, d2, h1, h2, i1, i2, s1, s2]"
    and dt: "make_datetime (digits_value 0 [y1, y2, y3, y4]) (digits_value 0 [m1, m2]) (digits_value 0 [d1, d2])
      (digits_value 0 [h1, h2]) (digits_value 0 [i1, i2]) (digits_value 0 [s1, s2]) 0 = Inr t"
    by (rule iso_body_chars [OF assms(1,2), unfolded whole]) simp
  have "map (\<lambda>c. if c = CHR ''T'' then CHR '' '' else c) (iso_body t) =
      [y1, y2, y3, y4, CHR ''-'', m1, m2, CHR ''-'', d1, d2, CHR '' '', h1, h2, CHR '':'',
      i1, i2, CHR '':'', s1, s2] @ []"
    using digits unfolding b by (simp add: digit_not_T)
  note read = iso_text [OF digits this]
  show ?thesis
    using read dt by (simp add: fromisoformat_def split_fraction_def del: digits_value.simps)
qed

end
