(* ===== verification/AgentParser.thy ===== *)
theory AgentParser
  imports PyRegex PyIso
begin

text \<open>
  \<open>sentinel-agent/parser.py\<close>: the level, the timestamp and the address of a line, and the payload
  made of them. A timestamp is kept as its instant; \<open>parse_timestamp\<close> is its text.
\<close>

section \<open>The expressions\<close>

abbreviation digits_n :: "nat \<Rightarrow> rx" where
  "digits_n n \<equiv> Rep (Cls is_digit) n n"

definition IPV4_RE :: rx where
  "IPV4_RE = Seq [WordBoundary, Rep (Seq [Rep (Cls is_digit) 1 3, Lit ''.'']) 3 3,
     Rep (Cls is_digit) 1 3, WordBoundary]"

definition ISO_TS_RE :: rx where
  "ISO_TS_RE = Seq [WordBoundary, digits_n 4, Lit ''-'', digits_n 2, Lit ''-'', digits_n 2, Lit ''T'',
     digits_n 2, Lit '':'', digits_n 2, Lit '':'', digits_n 2,
     Optional (Seq [Lit ''.'', Plus is_digit]),
     Alt [Lit ''Z'', Seq [Cls (\<lambda>c. c = CHR ''+'' \<or> c = CHR ''-''), digits_n 2, Lit '':'', digits_n 2]],
     WordBoundary]"

definition month_names :: "string list" where
  "month_names = [''Jan'', ''Feb'', ''Mar'', ''Apr'', ''May'', ''Jun'', ''Jul'', ''Aug'', ''Sep'',
     ''Oct'', ''Nov'', ''Dec'']"

definition SYSLOG_TS_RE :: rx where
  "SYSLOG_TS_RE = Seq [TextStart, Group (Alt (map Lit month_names)), Plus rx_space,
     Group (Rep (Cls is_digit) 1 2), Plus rx_space,
     Group (Seq [digits_n 2, Lit '':'', digits_n 2, Lit '':'', digits_n 2])]"

section \<open>Level and address\<close>

definition LEVEL_KEYWORDS :: "(string \<times> string list) list" where
  "LEVEL_KEYWORDS =
     [(''CRITICAL'', [''CRITICAL'', ''FATAL'', ''PANIC'', ''EMERG'', ''ALERT'']),
      (''ERROR'', [''ERROR'', ''ERR'', ''FAILED'', ''FAILURE'', ''DENIED'', ''EXCEPTION'']),
      (''WARNING'', [''WARNING'', ''WARN'', ''INVALID'', ''REJECTED'', ''TIMEOUT''])]"

fun first_level :: "string \<Rightarrow> (string \<times> string list) list \<Rightarrow> string" where
  "first_level upper_message [] = ''INFO''"
| "first_level upper_message ((level, keywords) # rest) =
     (if list_ex (\<lambda>keyword. str_contains keyword upper_message) keywords then level
      else first_level upper_message rest)"

definition detect_log_level :: "string \<Rightarrow> string" where
  "detect_log_level message = first_level (str_upper message) LEVEL_KEYWORDS"

definition extract_ipv4 :: "string \<Rightarrow> string option" where
  "extract_ipv4 message = map_option fst (rx_search IPV4_RE message)"

section \<open>Timestamps\<close>

definition replace_Z :: "string \<Rightarrow> string" where
  "replace_Z s = concat (map (\<lambda>c. if c = CHR ''Z'' then ''+00:00'' else [c]) s)"

text \<open>
  \<open>datetime.fromisoformat\<close> on a text of the shape of \<open>ISO_TS_RE\<close>, as an instant: of a fraction the
  first six digits count, and an offset must be below a day.
\<close>

definition from_iso :: "string \<Rightarrow> exn + instant" where
  "from_iso s =
     (let rest = drop 19 s;
          (us, zone) = (case rest of
              CHR ''.'' # f \<Rightarrow> (fraction_us (takeWhile is_digit f), dropWhile is_digit f)
            | _ \<Rightarrow> (0, rest));
          magnitude = num_at 1 2 zone * 60 + num_at 4 2 zone;
          offset = (if hd zone = CHR ''-'' then - magnitude else magnitude)
      in case make_datetime (num_at 0 4 s) (num_at 5 2 s) (num_at 8 2 s) (num_at 11 2 s)
            (num_at 14 2 s) (num_at 17 2 s) us of
           Inl e \<Rightarrow> Inl e
         | Inr t \<Rightarrow>
             if 1440 \<le> magnitude then Inl ValueError
             else let u = t - minutes offset in
               if u < first_instant \<or> last_instant < u then Inl OverflowError else Inr u)"

text \<open>
  \<open>strptime\<close> with the year of the clock, one year back when the result is in the future; the same day
  need not exist in the year before.
\<close>

definition month_number :: "string \<Rightarrow> int" where
  "month_number m = int (length (takeWhile (\<lambda>x. x \<noteq> m) month_names)) + 1"

definition year_of :: "instant \<Rightarrow> int" where
  "year_of t = fst (civil_date (t div us_per_day))"

definition from_syslog :: "instant \<Rightarrow> string \<Rightarrow> string \<Rightarrow> string \<Rightarrow> exn + instant" where
  "from_syslog now month day clock =
     (let in_year = (\<lambda>year. make_datetime year (month_number month) (digits_value 0 day)
                  (num_at 0 2 clock) (num_at 3 2 clock) (num_at 6 2 clock) 0)
      in case in_year (year_of now) of
           Inl e \<Rightarrow> Inl e
         | Inr parsed \<Rightarrow> if now < parsed then in_year (year_of now - 1) else Inr parsed)"

definition parse_instant :: "instant \<Rightarrow> string \<Rightarrow> exn + instant" where
  "parse_instant now message = (case rx_search ISO_TS_RE message of
       Some (raw_value, _) \<Rightarrow> from_iso (replace_Z raw_value)
     | None \<Rightarrow> (case rx_match SYSLOG_TS_RE message of
           Some (_, [month, day, clock]) \<Rightarrow> from_syslog now month day clock
         | _ \<Rightarrow> Inr now))"

definition parse_timestamp :: "instant \<Rightarrow> string \<Rightarrow> exn + string" where
  "parse_timestamp now message = map_sum id isoformat_utc (parse_instant now message)"

section \<open>The payload\<close>

record agent_payload =
  ap_source :: string
  ap_level :: string
  ap_message :: string
  ap_timestamp :: instant
  ap_ip :: "string option"

definition parse_log_line :: "instant \<Rightarrow> string \<Rightarrow> string \<Rightarrow> exn + agent_payload" where
  "parse_log_line now source line =
     (let message = str_strip line in
      case parse_instant now message of
        Inl e \<Rightarrow> Inl e
      | Inr t \<Rightarrow> Inr \<lparr>ap_source = source, ap_level = detect_log_level message, ap_message = message,
          ap_timestamp = t, ap_ip = extract_ipv4 message\<rparr>)"

lemma parser_examples:
  "extract_ipv4 ''from 192.168.1.50 port''  = Some ''192.168.1.50''"
  "extract_ipv4 ''v1.2.3.4 10.0.0.1'' = Some ''10.0.0.1''"
  "extract_ipv4 ''1.2.3.4567'' = None" "extract_ipv4 ''999.1.1.1'' = Some ''999.1.1.1''"
  "detect_log_level ''sshd: failed login'' = ''ERROR''" "detect_log_level ''all good'' = ''INFO''"
  by code_simp+

lemma timestamp_examples:
  "parse_timestamp 0 ''2024-02-29T12:34:56.0002+02:00 x'' = Inr ''2024-02-29T10:34:56.000200+00:00''"
  "parse_timestamp 1710000000000000 ''Dec 31 12:00:00 x'' = Inr ''2023-12-31T12:00:00+00:00''"
  "parse_timestamp 0 ''no time'' = Inr ''1970-01-01T00:00:00+00:00''"
  by code_simp+

section \<open>The shape of a payload\<close>

definition one_to_three_digits :: "string \<Rightarrow> bool" where
  "one_to_three_digits s \<longleftrightarrow> s \<noteq> [] \<and> length s \<le> 3 \<and> list_all is_digit s"

text \<open>Four groups of one to three digits, with dots between.\<close>

definition dotted_quad :: "string \<Rightarrow> bool" where
  "dotted_quad s \<longleftrightarrow> (\<exists>a b c d. s = a @ ''.'' @ b @ ''.'' @ c @ ''.'' @ d
     \<and> one_to_three_digits a \<and> one_to_three_digits b \<and> one_to_three_digits c \<and> one_to_three_digits d)"

inductive_cases repeated_SucE: "repeated w lo (Suc hi) s"
inductive_cases repeated_0E: "repeated w lo 0 s"

lemma repeated_three:
  assumes "repeated w 3 3 s"
  shows "\<exists>a b c. s = a @ b @ c \<and> w a \<and> w b \<and> w c"
  using assms unfolding numeral_3_eq_3 by (elim repeated_SucE repeated_0E) auto

lemma word_of_digits: "repeated (word_of (Cls is_digit)) (Suc 0) 3 s \<Longrightarrow> one_to_three_digits s"
  using repeated_all [of is_digit "Suc 0" 3 s] by (auto simp: one_to_three_digits_def)

lemma word_of_Lit_dot: "word_of (Lit ''.'') s \<longleftrightarrow> s = ''.''"
  by (auto simp: Lit_def)

lemma word_of_IPV4_RE:
  assumes "word_of IPV4_RE t"
  shows "dotted_quad t"
proof -
  let ?part = "in_sequence [repeated (word_of (Cls is_digit)) (Suc 0) 3, word_of (Lit ''.'')]"
  have part: "\<exists>a. s = a @ ''.'' \<and> one_to_three_digits a" if "?part s" for s
    using that word_of_digits by (auto simp: word_of_Lit_dot simp del: word_of.simps)
  from assms obtain u d where t: "t = u @ d" and u: "repeated ?part 3 3 u" and d: "one_to_three_digits d"
    using word_of_digits by (auto simp: IPV4_RE_def simp del: word_of.simps(1))
  from u have "\<exists>a b c. u = a @ b @ c \<and> ?part a \<and> ?part b \<and> ?part c" by (rule repeated_three)
  then show ?thesis using part t d unfolding dotted_quad_def by (metis append.assoc)
qed

lemma extract_ipv4_quad:
  assumes "extract_ipv4 m = Some ip"
  shows "dotted_quad ip \<and> sublist ip m"
  using assms rx_search_word word_of_IPV4_RE by (fastforce simp: extract_ipv4_def)

lemma length_dotted_quad: "dotted_quad s \<Longrightarrow> length s \<le> 15"
  by (auto simp: dotted_quad_def one_to_three_digits_def)

lemma detected_levels: "detect_log_level m \<in> {''CRITICAL'', ''ERROR'', ''WARNING'', ''INFO''}"
  by (simp add: detect_log_level_def LEVEL_KEYWORDS_def)

lemma parse_log_line_Inr:
  assumes "parse_log_line now source line = Inr p"
  shows "ap_source p = source \<and> ap_message p = str_strip line
    \<and> ap_level p = detect_log_level (str_strip line) \<and> ap_ip p = extract_ipv4 (str_strip line)
    \<and> parse_instant now (str_strip line) = Inr (ap_timestamp p)"
  using assms by (auto simp: parse_log_line_def Let_def split: sum.splits)

text \<open>A line with a date that does not exist makes the parser raise.\<close>

lemma parse_log_line_raises:
  "parse_log_line now source ''2024-02-30T10:00:00Z x'' = Inl ValueError"
proof -
  have s: "str_strip ''2024-02-30T10:00:00Z x'' = ''2024-02-30T10:00:00Z x''" by code_simp
  have "rx_search ISO_TS_RE ''2024-02-30T10:00:00Z x'' = Some (''2024-02-30T10:00:00Z'', [])" by code_simp
  moreover have "from_iso (replace_Z ''2024-02-30T10:00:00Z'') = Inl ValueError" by code_simp
  ultimately show ?thesis by (simp add: parse_log_line_def s Let_def parse_instant_def)
qed

end
