(* ===== verification/AgentWatcher.thy ===== *)
theory AgentWatcher
  imports AgentParser
begin

text \<open>
  \<open>sentinel-agent/watcher.py\<close> and the main loop of \<open>agent.py\<close>: tailing files, reopening them after a
  rotation, and what the thread puts into the queue. A file is its text, a character per byte; the
  only line ends are \<open>\n\<close> and \<open>\r\n\<close>. A poll looks at the file system at two moments: \<open>fs\<close> while it
  opens and reads, \<open>fs'\<close> while it checks for a rotation and reopens.
\<close>

section \<open>Files\<close>

record file_system =
  inode_of :: "string \<Rightarrow> nat option"
  content :: "nat \<Rightarrow> string"

text \<open>The system calls of one poll that can fail with an \<open>OSError\<close>.\<close>

datatype io_call = OpenAtEnd | FirstRead | StatAgain | OpenAgain | SecondRead

text \<open>A handle is the inode it was opened on and the position in it.\<close>

record log_target =
  lt_path :: string
  lt_source :: string

record file_state =
  target :: log_target
  handle :: "(nat \<times> nat) option"
  signature :: "nat option"

definition new_file_state :: "log_target \<Rightarrow> file_state" where
  "new_file_state t = \<lparr>target = t, handle = None, signature = None\<rparr>"

definition close_file :: "file_state \<Rightarrow> file_state" where
  "close_file st = st\<lparr>handle := None, signature := None\<rparr>"

definition open_file ::
  "file_system \<Rightarrow> bool \<Rightarrow> bool \<Rightarrow> file_state \<Rightarrow> exn + file_state" where
  "open_file fs fails start_at_end st =
     (if fails then Inl OSError
      else case inode_of fs (lt_path (target st)) of
        None \<Rightarrow> Inl FileNotFoundError
      | Some i \<Rightarrow> Inr (st\<lparr>handle := Some (i, if start_at_end then length (content fs i) else 0),
                         signature := Some i\<rparr>))"

section \<open>Reading lines\<close>

definition NL :: char where "NL = CHR 0x0A"
definition CR :: char where "CR = CHR 0x0D"

text \<open>The complete lines of a text, without their ends, and what is left after the last one.\<close>

function complete_lines :: "string \<Rightarrow> string list \<times> string" where
  "complete_lines s =
     (if NL \<notin> set s then ([], s)
      else case complete_lines (tl (dropWhile (\<lambda>c. c \<noteq> NL) s)) of
        (ls, rest) \<Rightarrow> (str_rstrip_by (\<lambda>c. c = CR \<or> c = NL) (takeWhile (\<lambda>c. c \<noteq> NL) s) # ls, rest))"
  by pat_completeness auto
termination
proof (relation "measure length")
  fix s
  assume "\<not> NL \<notin> set s"
  then have "dropWhile (\<lambda>c. c \<noteq> NL) s \<noteq> []" by (auto simp: dropWhile_eq_Nil_conv)
  moreover have "length (dropWhile (\<lambda>c. c \<noteq> NL) s) \<le> length s" by (rule length_dropWhile_le)
  ultimately show "(tl (dropWhile (\<lambda>c. c \<noteq> NL) s), s) \<in> measure length"
    by (cases "dropWhile (\<lambda>c. c \<noteq> NL) s") auto
qed simp

declare complete_lines.simps [simp del]

definition read_available_lines :: "file_system \<Rightarrow> bool \<Rightarrow> file_state \<Rightarrow> exn + string list \<times> file_state" where
  "read_available_lines fs fails st = (case handle st of
       None \<Rightarrow> Inr ([], st)
     | Some (i, pos) \<Rightarrow>
         if fails then Inl OSError
         else case complete_lines (drop pos (content fs i)) of
           (ls, rest) \<Rightarrow> Inr (ls, st\<lparr>handle := Some (i, length (content fs i) - length rest)\<rparr>))"

definition needs_reopen :: "file_system \<Rightarrow> bool \<Rightarrow> file_state \<Rightarrow> exn + bool" where
  "needs_reopen fs fails st = (case (handle st, signature st) of
       (Some (i, pos), Some sig) \<Rightarrow>
         if fails then Inl OSError
         else (case inode_of fs (lt_path (target st)) of
             None \<Rightarrow> Inr False
           | Some current \<Rightarrow> Inr (current \<noteq> sig \<or> length (content fs current) < pos))
     | _ \<Rightarrow> Inr False)"

section \<open>Polling\<close>

text \<open>The \<open>try\<close> block of \<open>poll\<close>; \<open>FileNotFoundError\<close> is handled where it is expected.\<close>

definition poll_reopen ::
  "file_system \<Rightarrow> (io_call \<Rightarrow> bool) \<Rightarrow> string list \<Rightarrow> file_state \<Rightarrow> exn + string list \<times> file_state" where
  "poll_reopen fs' fails lines st = (case needs_reopen fs' (fails StatAgain) st of
       Inl e \<Rightarrow> Inl e
     | Inr False \<Rightarrow> Inr (lines, st)
     | Inr True \<Rightarrow> (case open_file fs' (fails OpenAgain) False (close_file st) of
           Inl e \<Rightarrow> if e = FileNotFoundError then Inr (lines, close_file st) else Inl e
         | Inr st1 \<Rightarrow> (case read_available_lines fs' (fails SecondRead) st1 of
               Inl e \<Rightarrow> Inl e
             | Inr (added, st2) \<Rightarrow> Inr (lines @ added, st2))))"

definition poll_body ::
  "file_system \<Rightarrow> file_system \<Rightarrow> (io_call \<Rightarrow> bool) \<Rightarrow> file_state \<Rightarrow> exn + string list \<times> file_state" where
  "poll_body fs fs' fails st =
     (let opened = (if handle st = None then open_file fs (fails OpenAtEnd) True st else Inr st) in
      case opened of
        Inl e \<Rightarrow> if e = FileNotFoundError then Inr ([], st) else Inl e
      | Inr st0 \<Rightarrow> (case read_available_lines fs (fails FirstRead) st0 of
            Inl e \<Rightarrow> Inl e
          | Inr (lines, st1) \<Rightarrow> poll_reopen fs' fails lines st1))"

definition poll ::
  "file_system \<Rightarrow> file_system \<Rightarrow> (io_call \<Rightarrow> bool) \<Rightarrow> file_state \<Rightarrow> string list \<times> file_state" where
  "poll fs fs' fails st = (case poll_body fs fs' fails st of
       Inl _ \<Rightarrow> ([], close_file st)
     | Inr r \<Rightarrow> r)"

text \<open>The lines of one poll become payloads; an exception of the parser ends the thread.\<close>

fun emit_lines :: "instant \<Rightarrow> string \<Rightarrow> string list \<Rightarrow> exn option \<times> agent_payload list" where
  "emit_lines now source [] = (None, [])"
| "emit_lines now source (l # ls) = (case parse_log_line now source l of
       Inl e \<Rightarrow> (Some e, [])
     | Inr p \<Rightarrow> (case emit_lines now source ls of (e, ps) \<Rightarrow> (e, p # ps)))"

text \<open>One round of \<open>run\<close> over the files; each has its own moments and failures.\<close>

record poll_readings =
  pr_fs :: file_system
  pr_fs' :: file_system
  pr_fails :: "io_call \<Rightarrow> bool"
  pr_now :: instant

fun watcher_round ::
  "(file_state \<times> poll_readings) list \<Rightarrow> exn option \<times> agent_payload list \<times> file_state list" where
  "watcher_round [] = (None, [], [])"
| "watcher_round ((st, rd) # rest) =
     (case poll (pr_fs rd) (pr_fs' rd) (pr_fails rd) st of (lines, st') \<Rightarrow>
      case emit_lines (pr_now rd) (lt_source (target st)) lines of
        (Some e, ps) \<Rightarrow> (Some e, ps, st' # map fst rest)
      | (None, ps) \<Rightarrow> (case watcher_round rest of (e, qs, sts) \<Rightarrow> (e, ps @ qs, st' # sts)))"

text \<open>
  The main loop of the agent: what it finds each second (the stop event, the watcher alive, the sender
  alive) and the exit status it returns.
\<close>

fun agent_main :: "(bool \<times> bool \<times> bool) list \<Rightarrow> int" where
  "agent_main [] = 0"
| "agent_main ((stopped, watcher_alive, sender_alive) # rest) =
     (if stopped then 0 else if \<not> watcher_alive then 1 else if \<not> sender_alive then 1 else agent_main rest)"

section \<open>Reading on where the last poll stopped\<close>

lemma complete_lines_none: "NL \<notin> set s \<Longrightarrow> complete_lines s = ([], s)"
  by (subst complete_lines.simps) simp

lemma complete_lines_line:
  assumes "NL \<notin> set l"
  shows "complete_lines (l @ NL # s) = (case complete_lines s of
    (ls, rest) \<Rightarrow> (str_rstrip_by (\<lambda>c. c = CR \<or> c = NL) l # ls, rest))"
proof -
  have "takeWhile (\<lambda>c. c \<noteq> NL) (l @ NL # s) = l" and "dropWhile (\<lambda>c. c \<noteq> NL) (l @ NL # s) = NL # s"
    using assms by (induction l) auto
  then show ?thesis by (subst complete_lines.simps) simp
qed

lemma text_cases:
  obtains (partial) "NL \<notin> set s" | (line) l r where "s = l @ NL # r" and "NL \<notin> set l"
  by (metis split_list_first)

text \<open>Reading a text in two parts gives the lines of the whole, when the second read starts at the rest.\<close>

lemma complete_lines_append:
  "complete_lines (s @ t) = (case complete_lines s of (ls, rest) \<Rightarrow>
     case complete_lines (rest @ t) of (ms, rest') \<Rightarrow> (ls @ ms, rest'))"
proof (induction "length s" arbitrary: s rule: less_induct)
  case less
  show ?case
  proof (cases s rule: text_cases)
    case partial
    then show ?thesis by (simp add: complete_lines_none split: prod.splits)
  next
    case (line l r)
    then have "length r < length s" by simp
    note ih = less [OF this]
    show ?thesis
      unfolding line(1) append_assoc append_Cons complete_lines_line [OF line(2)] ih
      by (simp split: prod.splits)
  qed
qed

lemma complete_lines_rest:
  "complete_lines s = (ls, rest) \<Longrightarrow> NL \<notin> set rest \<and> (\<exists>t. s = t @ rest)"
proof (induction "length s" arbitrary: s ls rest rule: less_induct)
  case less
  show ?case
  proof (cases s rule: text_cases)
    case partial
    with less.prems show ?thesis by (simp add: complete_lines_none)
  next
    case (line l r)
    then have len: "length r < length s" by simp
    obtain ms rest' where r: "complete_lines r = (ms, rest')" by fastforce
    with less.prems line have "rest' = rest" by (simp add: complete_lines_line)
    with less.hyps [OF len r] line(1) show ?thesis by auto
  qed
qed

text \<open>A file as a tail has read it: the position is in the file and everything before it was delivered.\<close>

definition tailing :: "file_state \<Rightarrow> nat \<Rightarrow> nat \<Rightarrow> bool" where
  "tailing st i pos \<longleftrightarrow> handle st = Some (i, pos) \<and> signature st = Some i"

definition no_failure :: "io_call \<Rightarrow> bool" where
  "no_failure c = False"

lemma poll_reads_on:
  assumes "tailing st i pos" and "pos \<le> length (content fs i)"
    and "inode_of fs' (lt_path (target st)) = Some i" and "length (content fs i) \<le> length (content fs' i)"
    and "complete_lines (drop pos (content fs i)) = (ls, rest)"
  shows "\<exists>st'. poll fs fs' no_failure st = (ls, st') \<and> target st' = target st
    \<and> tailing st' i (length (content fs i) - length rest)"
proof -
  let ?st = "st\<lparr>handle := Some (i, length (content fs i) - length rest)\<rparr>"
  have 1: "read_available_lines fs (no_failure FirstRead) st = Inr (ls, ?st)"
    using assms(1,5) by (simp add: read_available_lines_def no_failure_def tailing_def)
  have "needs_reopen fs' (no_failure StatAgain) ?st = Inr False"
    using assms(1,3,4) by (simp add: needs_reopen_def no_failure_def tailing_def)
  then have "poll fs fs' no_failure st = (ls, ?st)"
    using 1 assms(1) by (simp add: poll_def poll_body_def poll_reopen_def tailing_def)
  then show ?thesis using assms(1) by (simp add: tailing_def)
qed

text \<open>A sequence of polls, each with its two moments.\<close>

fun polls :: "(file_system \<times> file_system) list \<Rightarrow> file_state \<Rightarrow> string list \<times> file_state" where
  "polls [] st = ([], st)"
| "polls ((fs, fs') # moments) st = (case poll fs fs' no_failure st of
       (ls, st1) \<Rightarrow> (case polls moments st1 of (ms, st2) \<Rightarrow> (ls @ ms, st2)))"

text \<open>The file of the path only grows, from moment to moment.\<close>

fun only_appended :: "string \<Rightarrow> nat \<Rightarrow> string \<Rightarrow> (file_system \<times> file_system) list \<Rightarrow> bool" where
  "only_appended path i seen [] \<longleftrightarrow> True"
| "only_appended path i seen ((fs, fs') # moments) \<longleftrightarrow> prefix seen (content fs i)
     \<and> prefix (content fs i) (content fs' i) \<and> inode_of fs' path = Some i
     \<and> only_appended path i (content fs i) moments"

definition final_text :: "nat \<Rightarrow> string \<Rightarrow> (file_system \<times> file_system) list \<Rightarrow> string" where
  "final_text i seen moments = (if moments = [] then seen else content (fst (last moments)) i)"

lemma final_text_prefix: "only_appended path i seen moments \<Longrightarrow> prefix seen (final_text i seen moments)"
proof (induction path i seen moments rule: only_appended.induct)
  case (1 path i seen)
  then show ?case by (simp add: final_text_def)
next
  case (2 path i seen fs fs' moments)
  then have "prefix (content fs i) (final_text i (content fs i) moments)" by simp
  moreover have "final_text i (content fs i) moments = final_text i seen ((fs, fs') # moments)"
    by (simp add: final_text_def)
  ultimately show ?case using 2 by (auto intro: prefix_order.trans)
qed

lemma drop_rest:
  assumes "complete_lines (drop pos c) = (ls, rest)"
  shows "drop (length c - length rest) c = rest \<and> length rest \<le> length c"
proof -
  obtain t where t: "drop pos c = t @ rest" using complete_lines_rest [OF assms] by blast
  then obtain u where "c = u @ rest" using append_take_drop_id [of pos c] by (metis append.assoc)
  then show ?thesis by simp
qed

lemma polls_deliver:
  assumes "tailing st i pos" and "pos \<le> length seen" and "moments \<noteq> []"
    and "only_appended (lt_path (target st)) i seen moments"
  shows "fst (polls moments st) = fst (complete_lines (drop pos (final_text i seen moments)))"
  using assms
proof (induction moments arbitrary: st pos seen)
  case Nil
  then show ?case by simp
next
  case (Cons m moments)
  obtain fs fs' where m: "m = (fs, fs')" by fastforce
  let ?c = "content fs i"
  obtain ls rest where r: "complete_lines (drop pos ?c) = (ls, rest)" by fastforce
  have app: "prefix seen ?c" "prefix ?c (content fs' i)" "inode_of fs' (lt_path (target st)) = Some i"
    "only_appended (lt_path (target st)) i ?c moments" using Cons.prems(4) m by simp_all
  have le: "pos \<le> length ?c" using Cons.prems(2) prefix_length_le [OF app(1)] by simp
  obtain st1 where 1: "poll fs fs' no_failure st = (ls, st1)" and t1: "target st1 = target st"
    and p1: "tailing st1 i (length ?c - length rest)"
    using poll_reads_on [OF Cons.prems(1) le app(3) prefix_length_le [OF app(2)] r] by blast
  have last: "final_text i seen (m # moments) = final_text i ?c moments" by (simp add: final_text_def m)
  have run: "fst (polls (m # moments) st) = ls @ fst (polls moments st1)" using 1 m by (simp split: prod.splits)
  show ?case
  proof (cases "moments = []")
    case True
    with run r last show ?thesis by (simp add: final_text_def)
  next
    case False
    obtain t where t: "final_text i ?c moments = ?c @ t"
      using final_text_prefix [OF app(4)] by (auto simp: prefix_def)
    have "fst (polls moments st1) = fst (complete_lines (drop (length ?c - length rest) (final_text i ?c moments)))"
      using p1 False app(4) t1 by (intro Cons.IH) simp_all
    also have "drop (length ?c - length rest) (final_text i ?c moments) = rest @ t"
      using drop_rest [OF r] by (simp add: t)
    finally have "fst (polls (m # moments) st) = ls @ fst (complete_lines (rest @ t))" using run by simp
    moreover have d: "drop pos (final_text i ?c moments) = drop pos ?c @ t" using le by (simp add: t)
    have "fst (complete_lines (drop pos (final_text i ?c moments))) = ls @ fst (complete_lines (rest @ t))"
      unfolding d complete_lines_append [of "drop pos ?c" t] r by (simp split: prod.splits)
    ultimately show ?thesis using last by simp
  qed
qed


definition one_file :: "nat \<Rightarrow> string \<Rightarrow> file_system" where
  "one_file i text = \<lparr>inode_of = (\<lambda>p. if p = ''a.log'' then Some i else None), content = (\<lambda>j. if j = i then text else [])\<rparr>"

definition some_tail :: "nat \<Rightarrow> file_state" where
  "some_tail pos = \<lparr>target = \<lparr>lt_path = ''a.log'', lt_source = ''app''\<rparr>, handle = Some (7, pos), signature = Some 7\<rparr>"


section \<open>Rotation\<close>



section \<open>Lost lines\<close>

text \<open>
  C37. A transient error of the check for a rotation loses lines: the lines that the poll had read are
  dropped with the exception, the file is closed, and the next poll reopens it at its end, so that
  nothing the file held by then is ever delivered.
\<close>

theorem failed_check_loses_lines:
  assumes "tailing st i pos" and "fails StatAgain" and "\<not> fails FirstRead"
    and "inode_of fs2 (lt_path (target st)) = Some i" and "inode_of fs2' (lt_path (target st)) = Some i"
    and "length (content fs2 i) \<le> length (content fs2' i)"
  shows "\<exists>st1 st2. poll fs fs' fails st = ([], st1) \<and> poll fs2 fs2' no_failure st1 = ([], st2)
    \<and> tailing st2 i (length (content fs2 i))"
proof -
  obtain ls rest where r: "complete_lines (drop pos (content fs i)) = (ls, rest)" by fastforce
  have "poll_body fs fs' fails st = Inl OSError"
    using assms(1-3) r
    by (simp add: poll_body_def poll_reopen_def read_available_lines_def needs_reopen_def tailing_def)
  then have 1: "poll fs fs' fails st = ([], close_file st)" by (simp add: poll_def)
  let ?st = "(close_file st)\<lparr>handle := Some (i, length (content fs2 i)), signature := Some i\<rparr>"
  have e: "complete_lines [] = ([], [])" by (simp add: complete_lines_none)
  have 2: "open_file fs2 (no_failure OpenAtEnd) True (close_file st) = Inr ?st"
    using assms(4) by (simp add: open_file_def no_failure_def close_file_def)
  have 3: "read_available_lines fs2 (no_failure FirstRead) ?st = Inr ([], ?st)"
    by (simp add: read_available_lines_def no_failure_def e)
  have 4: "needs_reopen fs2' (no_failure StatAgain) ?st = Inr False"
    using assms(5,6) by (simp add: needs_reopen_def no_failure_def close_file_def)
  have "poll fs2 fs2' no_failure (close_file st) = ([], ?st)"
    using 2 3 4 by (simp add: poll_def poll_body_def poll_reopen_def close_file_def)
  with 1 show ?thesis by (auto simp: tailing_def)
qed

theorem failed_check_loses_lines_witness:
  "\<exists>st1. poll (one_file 7 (''x'' @ [NL])) (one_file 7 (''x'' @ [NL])) (\<lambda>c. c = StatAgain) (some_tail 0) = ([], st1)
    \<and> fst (complete_lines (''x'' @ [NL])) = [''x'']
    \<and> fst (poll (one_file 7 (''x'' @ [NL])) (one_file 7 (''x'' @ [NL])) no_failure st1) = []"
proof -
  let ?fs = "one_file 7 (''x'' @ [NL])"
  have t: "tailing (some_tail 0) 7 0" by (simp add: tailing_def some_tail_def)
  have n: "inode_of ?fs (lt_path (target (some_tail 0))) = Some 7" by (simp add: one_file_def some_tail_def)
  have "fst (complete_lines (''x'' @ [NL])) = [''x'']" by code_simp
  with failed_check_loses_lines [OF t _ _ n n, of "\<lambda>c. c = StatAgain" ?fs ?fs] show ?thesis by fastforce
qed

section \<open>The end of the thread\<close>

lemma emit_lines_stops:
  assumes "parse_log_line now source l = Inl e"
    and "\<And>x. x \<in> set before \<Longrightarrow> \<exists>p. parse_log_line now source x = Inr p"
  shows "fst (emit_lines now source (before @ l # after)) = Some e
    \<and> length (snd (emit_lines now source (before @ l # after))) = length before"
  using assms(2)
proof (induction before)
  case Nil
  then show ?case using assms(1) by simp
next
  case (Cons x before)
  then obtain p where "parse_log_line now source x = Inr p" by force
  with Cons show ?case by (auto split: prod.splits)
qed

text \<open>
  One line with a date that does not exist stops the agent: the parser raises, nothing catches it
  in the thread of the watcher, the lines of this poll before it are queued and those after it are
  lost, and the main loop, finding the thread dead, ends with exit status 1.
\<close>

theorem impossible_date_stops_agent:
  assumes "poll (pr_fs rd) (pr_fs' rd) (pr_fails rd) st
      = (before @ ''2024-02-30T10:00:00Z x'' # after, st')"
    and "\<And>x. x \<in> set before \<Longrightarrow> \<exists>p. parse_log_line (pr_now rd) (lt_source (target st)) x = Inr p"
  shows "fst (watcher_round ((st, rd) # others)) = Some ValueError
    \<and> length (fst (snd (watcher_round ((st, rd) # others)))) = length before
    \<and> agent_main [(False, fst (watcher_round ((st, rd) # others)) = None, True)] = 1"
  using emit_lines_stops [OF parse_log_line_raises [of "pr_now rd" "lt_source (target st)"] assms(2), of before after]
    assms(1)
  by (auto split: prod.splits)

theorem impossible_date_stops_agent_witness:
  "let text = ''2024-02-30T10:00:00Z x'' @ [NL];
       rd = \<lparr>pr_fs = one_file 7 text, pr_fs' = one_file 7 text, pr_fails = no_failure, pr_now = 0\<rparr>
   in fst (watcher_round [(some_tail 0, rd)]) = Some ValueError"
proof -
  let ?text = "''2024-02-30T10:00:00Z x'' @ [NL]"
  let ?rd = "\<lparr>pr_fs = one_file 7 ?text, pr_fs' = one_file 7 ?text, pr_fails = no_failure, pr_now = 0\<rparr>"
  have t: "tailing (some_tail 0) 7 0" by (simp add: tailing_def some_tail_def)
  have "complete_lines ?text = ([''2024-02-30T10:00:00Z x''], [])" by code_simp
  then have c: "complete_lines (drop 0 (content (one_file 7 ?text) 7)) = ([''2024-02-30T10:00:00Z x''], [])"
    by (simp add: one_file_def)
  have n: "inode_of (one_file 7 ?text) (lt_path (target (some_tail 0))) = Some 7" by (simp add: one_file_def some_tail_def)
  obtain st' where "poll (one_file 7 ?text) (one_file 7 ?text) no_failure (some_tail 0) = ([''2024-02-30T10:00:00Z x''], st')"
    using poll_reads_on [OF t _ n _ c] by auto
  then have "poll (pr_fs ?rd) (pr_fs' ?rd) (pr_fails ?rd) (some_tail 0) = ([] @ ''2024-02-30T10:00:00Z x'' # [], st')" by simp
  from impossible_date_stops_agent [OF this] show ?thesis by (simp add: Let_def)
qed

end
