(* ===== verification/Backoff.thy ===== *)
theory Backoff
  imports Prelude
begin

text \<open>
  What the two retry loops of the program (the sender of the agent and the event listener of the
  API) ask of their delays, and what follows for the time they wait.
\<close>

locale retry_backoff =
  fixes delay :: "nat \<Rightarrow> rat" and cap :: rat
  assumes delay_mono: "m \<le> n \<Longrightarrow> delay m \<le> delay n"
    and delay_cap: "delay n \<le> cap"
    and delay_pos: "0 < delay n"
begin

text \<open>The delays of \<open>k\<close> failures in a row, after \<open>a\<close> earlier ones.\<close>

definition waits :: "nat \<Rightarrow> nat \<Rightarrow> rat list" where
  "waits a k = map delay [Suc a..<Suc (a + k)]"

lemma waits_0 [simp]: "waits a 0 = []"
  by (simp add: waits_def)

lemma waits_Suc: "waits a (Suc k) = delay (Suc a) # waits (Suc a) k"
  unfolding waits_def by (simp add: upt_conv_Cons del: upt_Suc)

lemma length_waits [simp]: "length (waits a k) = k"
  by (simp add: waits_def del: upt_Suc)

lemma waits_sorted: "sorted (waits a k)"
  unfolding waits_def sorted_map by (rule sorted_wrt_mono_rel [OF _ sorted_upt]) (simp add: delay_mono)

lemma waits_total: "of_nat k * delay (Suc a) \<le> sum_list (waits a k) \<and> sum_list (waits a k) \<le> of_nat k * cap"
proof (induction k arbitrary: a)
  case 0
  then show ?case by simp
next
  case (Suc k)
  have "of_nat k * delay (Suc a) \<le> of_nat k * delay (Suc (Suc a))"
    by (intro mult_left_mono delay_mono) simp_all
  with Suc [of "Suc a"] delay_cap [of "Suc a"] show ?case
    by (simp add: waits_Suc algebra_simps)
qed

end

end
