(* ===== verification/AgentSender.thy ===== *)
theory AgentSender
  imports Backoff
begin

text \<open>
  \<open>sentinel-agent/sender.py\<close>: batching, sending and retrying. The server is a parameter \<open>post\<close>: the
  status of its answer, or \<open>None\<close> for a \<open>RequestException\<close>. Another thread sets the stop event;
  \<open>checks\<close> is the number of times the event is still found unset, so every run in which it is set
  at some time is one with enough checks, and an event that is set already is \<open>checks = 0\<close>.
\<close>

section \<open>State\<close>

type_synonym ('p, 'h) http = "'p \<Rightarrow> 'h \<Rightarrow> int option \<times> 'h"

text \<open>
  The thread: the server as it sees it, the checks left, the times it slept (latest first), and
  the logs it gave up with a warning when the event was set.
\<close>

record ('p, 'h) sender =
  http :: 'h
  checks :: nat
  slept :: "rat list"
  abandoned :: "'p list"

text \<open>\<open>self._stop_event.is_set()\<close>\<close>

definition stop_is_set :: "('p, 'h, 'z) sender_scheme \<Rightarrow> bool \<times> ('p, 'h, 'z) sender_scheme" where
  "stop_is_set s = (if checks s = 0 then (True, s) else (False, s\<lparr>checks := checks s - 1\<rparr>))"

section \<open>Sending\<close>

definition accepted_status :: "int \<Rightarrow> bool" where
  "accepted_status c \<longleftrightarrow> 200 \<le> c \<and> c < 300"

definition permanent_errors :: "int list" where
  "permanent_errors = [400, 401, 403, 404, 422]"

text \<open>
  \<open>_send_pending\<close>: \<open>False\<close> when it raises. It can return nothing but the empty list: what it assigns
  to \<open>unsent\<close> before it raises is lost with the exception.
\<close>

fun send_pending :: "('p, 'h) http \<Rightarrow> 'p list \<Rightarrow> 'h \<Rightarrow> bool \<times> 'h" where
  "send_pending post [] h = (True, h)"
| "send_pending post (p # pending) h = (case post p h of
       (None, h') \<Rightarrow> (False, h')
     | (Some c, h') \<Rightarrow>
         if accepted_status c then send_pending post pending h'
         else if c \<in> set permanent_errors then send_pending post pending h'
         else (False, h'))"

definition sender_backoff :: "rat \<Rightarrow> nat \<Rightarrow> rat" where
  "sender_backoff max_backoff attempt = min max_backoff (2 ^ min attempt 5)"

text \<open>The loop of \<open>_flush_batch\<close>; every turn uses up a check. It returns what is still pending.\<close>

function flush_loop ::
  "('p, 'h) http \<Rightarrow> rat \<Rightarrow> 'p list \<Rightarrow> nat \<Rightarrow> ('p, 'h, 'z) sender_scheme \<Rightarrow> 'p list \<times> ('p, 'h, 'z) sender_scheme" where
  "flush_loop post max_backoff pending attempt s =
     (if pending = [] then ([], s)
      else case stop_is_set s of
        (True, s1) \<Rightarrow> (pending, s1)
      | (False, s1) \<Rightarrow> (case send_pending post pending (http s1) of
          (True, h) \<Rightarrow> flush_loop post max_backoff [] 0 (s1\<lparr>http := h\<rparr>)
        | (False, h) \<Rightarrow> flush_loop post max_backoff pending (attempt + 1)
            (s1\<lparr>http := h, slept := sender_backoff max_backoff (attempt + 1) # slept s1\<rparr>)))"
  by pat_completeness auto
termination
  by (relation "measure (\<lambda>(_, _, _, _, s). checks s)") (auto simp: stop_is_set_def split: if_splits)

declare flush_loop.simps [simp del]

definition flush_batch ::
  "('p, 'h) http \<Rightarrow> rat \<Rightarrow> 'p list \<Rightarrow> ('p, 'h, 'z) sender_scheme \<Rightarrow> ('p, 'h, 'z) sender_scheme" where
  "flush_batch post max_backoff batch s = (case flush_loop post max_backoff batch 0 s of
       (pending, s1) \<Rightarrow> s1\<lparr>abandoned := abandoned s1 @ pending\<rparr>)"

section \<open>The thread\<close>

text \<open>
  The configuration of the thread. \<open>gets\<close> are the results of the reads of the input queue: an item,
  or \<open>None\<close> when nothing arrived in time. When they end, the event counts as set.
\<close>

record sender_config =
  batch_size :: int
  max_backoff :: rat

fun sender_loop ::
  "('p, 'h) http \<Rightarrow> sender_config \<Rightarrow> 'p option list \<Rightarrow> 'p list \<Rightarrow> ('p, 'h, 'z) sender_scheme \<Rightarrow>
     'p list \<times> 'p option list \<times> ('p, 'h, 'z) sender_scheme" where
  "sender_loop post cfg [] batch s = (batch, [], s\<lparr>checks := 0\<rparr>)"
| "sender_loop post cfg (item # gets) batch s = (case stop_is_set s of
       (True, s1) \<Rightarrow> (batch, item # gets, s1)
     | (False, s1) \<Rightarrow> (case item of
         Some x \<Rightarrow>
           (let batch = batch @ [x] in
            if batch_size cfg \<le> int (length batch)
            then sender_loop post cfg gets [] (flush_batch post (max_backoff cfg) batch s1)
            else sender_loop post cfg gets batch s1)
       | None \<Rightarrow>
           if batch \<noteq> [] then sender_loop post cfg gets [] (flush_batch post (max_backoff cfg) batch s1)
           else sender_loop post cfg gets batch s1))"

text \<open>\<open>get_nowait\<close> until the queue is empty: it holds the items of the reads that were not made.\<close>

fun drain_input :: "'p option list \<Rightarrow> 'p list" where
  "drain_input [] = []"
| "drain_input (Some x # gets) = x # drain_input gets"
| "drain_input (None # gets) = drain_input gets"

definition final_flush ::
  "('p, 'h) http \<Rightarrow> sender_config \<Rightarrow> 'p list \<Rightarrow> 'p option list \<Rightarrow> ('p, 'h, 'z) sender_scheme \<Rightarrow>
     ('p, 'h, 'z) sender_scheme" where
  "final_flush post cfg batch gets s =
     (let batch = batch @ drain_input gets in
      if batch \<noteq> [] then flush_batch post (max_backoff cfg) batch s else s)"

definition sender_run ::
  "('p, 'h) http \<Rightarrow> sender_config \<Rightarrow> 'p option list \<Rightarrow> ('p, 'h, 'z) sender_scheme \<Rightarrow> ('p, 'h, 'z) sender_scheme" where
  "sender_run post cfg gets s =
     (case sender_loop post cfg gets [] s of (batch, rest, s1) \<Rightarrow> final_flush post cfg batch rest s1)"

section \<open>Shutdown\<close>

lemma flush_loop_stopped:
  "checks s = 0 \<Longrightarrow> flush_loop post mb pending attempt s = (pending, s)"
  by (subst flush_loop.simps) (auto simp: stop_is_set_def)

lemma flush_loop_Nil [simp]: "flush_loop post mb [] attempt s = ([], s)"
  by (subst flush_loop.simps) simp

lemma sender_loop_stops:
  "sender_loop post cfg gets batch s = (b, rest, s') \<Longrightarrow> checks s' = 0"
proof (induction post cfg gets batch s rule: sender_loop.induct)
  case (1 post cfg batch s)
  then show ?case by auto
next
  case (2 post cfg item gets batch s)
  then show ?case by (auto simp: stop_is_set_def Let_def split: if_splits option.splits)
qed

text \<open>
  C39. The flush at the shutdown sends nothing: when the loop of the thread has ended, what is in the
  batch and what is drained from the input queue is collected, but no request is made; every one
  of these logs is abandoned.
\<close>

theorem final_flush_abandons_all:
  assumes "sender_loop post cfg gets [] s = (batch, rest, s1)"
  shows "http (sender_run post cfg gets s) = http s1
    \<and> abandoned (sender_run post cfg gets s) = abandoned s1 @ batch @ drain_input rest"
  using sender_loop_stops [OF assms] assms
  by (simp add: sender_run_def final_flush_def Let_def flush_batch_def flush_loop_stopped)

text \<open>A server for examples: it answers as scheduled, then always 201, and lists what it accepted.\<close>

fun sim_post :: "('p, int option list \<times> 'p list) http" where
  "sim_post p ([], seen) = (Some 201, ([], seen @ [p]))"
| "sim_post p (None # as, seen) = (None, (as, seen))"
| "sim_post p (Some c # as, seen) = (Some c, (as, if accepted_status c then seen @ [p] else seen))"

definition sender_at :: "int option list \<Rightarrow> nat \<Rightarrow> ('p, int option list \<times> 'p list) sender" where
  "sender_at answers n = \<lparr>http = (answers, []), checks = n, slept = [], abandoned = []\<rparr>"

theorem final_flush_abandons_all_witness:
  "abandoned (sender_run sim_post \<lparr>batch_size = 2, max_backoff = 30\<rparr> (map Some [1, 2, 3, 4, 5 :: int])
     (sender_at [] 4)) = [3, 4, 5]"
proof -
  have "sender_loop sim_post \<lparr>batch_size = 2, max_backoff = 30\<rparr> (map Some [1, 2, 3, 4, 5 :: int]) []
      (sender_at [] 4) = ([3], [Some 4, Some 5], (sender_at [] 0)\<lparr>http := ([], [1, 2])\<rparr>)"
    by code_simp
  from final_flush_abandons_all [OF this] show ?thesis by (simp add: sender_at_def)
qed

section \<open>Retries\<close>

text \<open>The server after \<open>k\<close> failed attempts to send the batch, if they do fail.\<close>

fun after_failures :: "('p, 'h) http \<Rightarrow> 'p list \<Rightarrow> nat \<Rightarrow> 'h \<Rightarrow> 'h option" where
  "after_failures post pending 0 h = Some h"
| "after_failures post pending (Suc k) h = (case send_pending post pending h of
       (True, _) \<Rightarrow> None
     | (False, h') \<Rightarrow> after_failures post pending k h')"

locale sender_delays =
  fixes max_backoff :: rat
  assumes at_least_one: "1 \<le> max_backoff"

sublocale sender_delays \<subseteq> retry_backoff "sender_backoff max_backoff" max_backoff
proof
  show "sender_backoff max_backoff m \<le> sender_backoff max_backoff n" if "m \<le> n" for m n
  proof -
    have "(2 :: rat) ^ min m 5 \<le> 2 ^ min n 5" using that by (intro power_increasing) auto
    then show ?thesis by (simp add: sender_backoff_def min_le_iff_disj)
  qed
  show "sender_backoff max_backoff n \<le> max_backoff" for n by (simp add: sender_backoff_def)
  show "0 < sender_backoff max_backoff n" for n using at_least_one by (simp add: sender_backoff_def)
qed

context sender_delays
begin

lemma flush_loop_retries:
  assumes "after_failures post pending k (http s) = Some h1" and "send_pending post pending h1 = (True, h2)"
    and "pending \<noteq> []" and "k < checks s"
  shows "flush_loop post max_backoff pending a s = ([], s\<lparr>http := h2, checks := checks s - Suc k,
    slept := rev (waits a k) @ slept s\<rparr>)"
  using assms
proof (induction k arbitrary: a s)
  case 0
  then show ?case by (subst flush_loop.simps) (simp add: stop_is_set_def)
next
  case (Suc k)
  then obtain h where h: "send_pending post pending (http s) = (False, h)"
    and f: "after_failures post pending k h = Some h1"
    by (auto split: prod.splits bool.splits)
  let ?s = "s\<lparr>checks := checks s - 1, http := h, slept := sender_backoff max_backoff (Suc a) # slept s\<rparr>"
  have "flush_loop post max_backoff pending a s = flush_loop post max_backoff pending (Suc a) ?s"
    using Suc.prems h by (subst flush_loop.simps) (simp add: stop_is_set_def)
  also have "\<dots> = ([], ?s\<lparr>http := h2, checks := checks ?s - Suc k, slept := rev (waits (Suc a) k) @ slept ?s\<rparr>)"
    using Suc.prems f by (intro Suc.IH) auto
  finally show ?case by (simp add: waits_Suc)
qed

lemma flush_batch_retries:
  assumes "after_failures post batch k (http s) = Some h1" and "send_pending post batch h1 = (True, h2)"
    and "batch \<noteq> []" and "k < checks s"
  shows "let s' = flush_batch post max_backoff batch s in http s' = h2 \<and> abandoned s' = abandoned s
    \<and> slept s' = rev (map (\<lambda>i. min max_backoff (2 ^ min i 5)) [1..<Suc k]) @ slept s
    \<and> sum_list (slept s') \<le> of_nat k * max_backoff + sum_list (slept s)"
  using flush_loop_retries [OF assms, of 0] waits_total [of k 0]
  by (simp add: flush_batch_def Let_def waits_def sender_backoff_def del: upt_Suc)

end

interpretation default_delays: sender_delays 30
  by unfold_locales simp

text \<open>
  C35. A batch is delivered once the server recovers: when the attempts to send it fail \<open>k\<close> times and
  the next one is answered, with the stop event unset all along, the flush ends with nothing
  abandoned. It has slept exactly \<open>k\<close> times, each time the doubled delay, and at most \<open>k\<close> times
  the largest.
\<close>

theorem flush_delivers_after_failures:
  assumes "after_failures post batch k (http s) = Some h1" and "send_pending post batch h1 = (True, h2)"
    and "batch \<noteq> []" and "k < checks s" and "1 \<le> mb"
  shows "let s' = flush_batch post mb batch s in http s' = h2 \<and> abandoned s' = abandoned s
    \<and> slept s' = rev (map (\<lambda>i. min mb (2 ^ min i 5)) [1..<Suc k]) @ slept s
    \<and> sum_list (slept s') \<le> of_nat k * mb + sum_list (slept s)"
  using sender_delays.flush_batch_retries [OF sender_delays.intro [OF assms(5)] assms(1-4)] .

theorem flush_delivers_after_failures_witness:
  "slept (flush_batch sim_post 30 [1, 2 :: int] (sender_at [Some 201, None, Some 500, None] 9)) = [8, 4, 2]"
proof -
  let ?s = "sender_at [Some 201, None, Some 500, None] 9 :: (int, int option list \<times> int list) sender"
  have 1: "after_failures sim_post [1, 2] 3 (http ?s) = Some ([], [1])" by code_simp
  have 2: "send_pending sim_post [1, 2] ([], [1]) = (True, ([], [1, 1, 2 :: int]))" by code_simp
  have "3 < checks ?s" by (simp add: sender_at_def)
  from flush_delivers_after_failures [OF 1 2 _ this, of 30] show ?thesis
    by (simp add: Let_def sender_at_def numeral_3_eq_3)
qed

section \<open>Duplicates\<close>

lemma send_pending_prefix:
  assumes "k < length pending"
  shows "send_pending sim_post pending (replicate k (Some 201) @ [None], seen)
    = (False, ([], seen @ take k pending))"
  using assms
proof (induction k arbitrary: pending seen)
  case 0
  then show ?case by (cases pending) auto
next
  case (Suc k)
  then show ?case by (cases pending) (auto simp: accepted_status_def)
qed

lemma send_pending_all: "send_pending sim_post pending ([], seen) = (True, ([], seen @ pending))"
  by (induction pending arbitrary: seen) (auto simp: accepted_status_def)

text \<open>
  A retry sends again what was accepted: when the connection breaks after \<open>k\<close> logs of the batch
  were accepted and works from then on, the server receives these \<open>k\<close> logs a second time. The
  rest that \<open>_send_pending\<close> computes before it raises does not reach its caller.
\<close>

theorem retry_resends_accepted_logs:
  assumes "k < length batch" and "1 < n"
  shows "snd (http (flush_batch sim_post mb batch (sender_at (replicate k (Some 201) @ [None]) n)))
    = take k batch @ batch"
proof -
  let ?s = "sender_at (replicate k (Some 201) @ [None]) n"
  have ne: "batch \<noteq> []" using assms(1) by auto
  have "flush_loop sim_post mb batch 0 ?s = flush_loop sim_post mb batch 1
      (?s\<lparr>checks := n - 1, http := ([], take k batch), slept := [sender_backoff mb 1]\<rparr>)"
    using ne assms send_pending_prefix [OF assms(1), of "[]"]
    by (subst flush_loop.simps) (simp add: stop_is_set_def sender_at_def)
  also have "\<dots> = ([], ?s\<lparr>checks := n - 2, http := ([], take k batch @ batch), slept := [sender_backoff mb 1]\<rparr>)"
    using ne assms by (subst flush_loop.simps) (simp add: stop_is_set_def send_pending_all)
  finally show ?thesis by (simp add: flush_batch_def)
qed

theorem retry_resends_accepted_logs_witness:
  "snd (http (flush_batch sim_post 30 [1, 2, 3 :: int] (sender_at [Some 201, Some 201, None] 5))) = [1, 2, 1, 2, 3]"
  using retry_resends_accepted_logs [of 2 "[1, 2, 3 :: int]" 5 30] by (simp add: numeral_2_eq_2)

section \<open>What a server promises\<close>

text \<open>
  The contract with the server: an accepted log is stored, a permanent error is given only to a log
  the server refuses, and a stored log stays stored.
\<close>

locale log_server =
  fixes post :: "('p, 'h) http"
    and stored :: "'h \<Rightarrow> 'p \<Rightarrow> bool"
    and refused :: "'p \<Rightarrow> bool"
  assumes accepts: "post p h = (Some c, h') \<Longrightarrow> accepted_status c \<Longrightarrow> stored h' p"
    and refuses: "post p h = (Some c, h') \<Longrightarrow> c \<in> set permanent_errors \<Longrightarrow> refused p"
    and keeps: "post q h = (r, h') \<Longrightarrow> stored h p \<Longrightarrow> stored h' p"
begin

definition settled :: "('p, 'h, 'z) sender_scheme \<Rightarrow> 'p \<Rightarrow> bool" where
  "settled s p \<longleftrightarrow> stored (http s) p \<or> refused p \<or> p \<in> set (abandoned s)"

lemma send_pending_settles:
  assumes "send_pending post pending h = (b, h')"
  shows "(stored h p \<longrightarrow> stored h' p) \<and> (b \<longrightarrow> p \<in> set pending \<longrightarrow> stored h' p \<or> refused p)"
  using assms
proof (induction pending arbitrary: h)
  case Nil
  then show ?case by simp
next
  case (Cons q pending)
  obtain a h1 where 1: "post q h = (a, h1)" by fastforce
  have k: "stored h p \<Longrightarrow> stored h1 p" using keeps [OF 1] .
  have q: "a = Some c \<Longrightarrow> accepted_status c \<or> c \<in> set permanent_errors \<Longrightarrow> stored h1 q \<or> refused q" for c
    using 1 accepts refuses by blast
  show ?case
  proof (cases "\<exists>c. a = Some c \<and> (accepted_status c \<or> c \<in> set permanent_errors)")
    case True
    then obtain c where a: "a = Some c" and c: "accepted_status c \<or> c \<in> set permanent_errors" by blast
    with Cons.prems 1 have "send_pending post pending h1 = (b, h')" by (auto split: if_splits)
    from Cons.IH [OF this] k q [OF a c] Cons.IH [OF this] show ?thesis by auto
  next
    case False
    with Cons.prems 1 have "b = False \<and> h' = h1" by (auto split: option.splits if_splits)
    with k show ?thesis by simp
  qed
qed

end

context log_server
begin

lemma flush_loop_settles:
  assumes "flush_loop post mb pending a s = (left, s')"
  shows "(stored (http s) p \<longrightarrow> stored (http s') p) \<and> abandoned s' = abandoned s
    \<and> (p \<in> set pending \<longrightarrow> p \<in> set left \<or> stored (http s') p \<or> refused p)"
  using assms
proof (induction n \<equiv> "checks s" arbitrary: pending a s)
  case 0
  then show ?case by (simp add: flush_loop_stopped)
next
  case (Suc n)
  show ?case
  proof (cases "pending = []")
    case True
    with Suc.prems show ?thesis by simp
  next
    case False
    let ?s1 = "s\<lparr>checks := n\<rparr>"
    have st: "stop_is_set s = (False, ?s1)" using Suc.hyps(2) by (simp add: stop_is_set_def)
    obtain b h where 1: "send_pending post pending (http s) = (b, h)" by fastforce
    note c = send_pending_settles [OF 1, of p]
    show ?thesis
    proof (cases b)
      case True
      with Suc.prems False st 1 have "left = [] \<and> s' = ?s1\<lparr>http := h\<rparr>"
        by (subst (asm) flush_loop.simps) simp
      with c True show ?thesis by auto
    next
      case b: False
      let ?s2 = "?s1\<lparr>http := h, slept := sender_backoff mb (a + 1) # slept s\<rparr>"
      have "flush_loop post mb pending (a + 1) ?s2 = (left, s')"
        using Suc.prems False st 1 b by (subst (asm) flush_loop.simps) simp
      from Suc.hyps(1) [OF _ this] c show ?thesis by auto
    qed
  qed
qed

lemma flush_batch_settles:
  assumes "settled s p \<or> p \<in> set batch"
  shows "settled (flush_batch post mb batch s) p"
proof -
  obtain left s' where 1: "flush_loop post mb batch 0 s = (left, s')" by fastforce
  from flush_loop_settles [OF 1, of p] assms 1 show ?thesis
    by (auto simp: settled_def flush_batch_def)
qed

lemma settled_checks [simp]: "settled (s\<lparr>checks := n\<rparr>) p = settled s p"
  by (simp add: settled_def)

lemma sender_loop_settles:
  assumes "sender_loop post cfg gets batch s = (b, rest, s')"
    and "settled s p \<or> p \<in> set batch \<or> Some p \<in> set gets"
  shows "settled s' p \<or> p \<in> set b \<or> Some p \<in> set rest"
  using assms
proof (induction gets arbitrary: batch s)
  case Nil
  then show ?case by auto
next
  case (Cons item gets)
  show ?case
  proof (cases "checks s = 0")
    case True
    with Cons.prems show ?thesis by (auto simp: stop_is_set_def)
  next
    case False
    then have st: "stop_is_set s = (False, s\<lparr>checks := checks s - 1\<rparr>)" by (simp add: stop_is_set_def)
    let ?flush = "\<lambda>bs. flush_batch post (max_backoff cfg) bs (s\<lparr>checks := checks s - 1\<rparr>)"
    let ?bs = "case item of None \<Rightarrow> batch | Some x \<Rightarrow> batch @ [x]"
    have step: "sender_loop post cfg gets [] (?flush ?bs) = (b, rest, s')
        \<or> sender_loop post cfg gets ?bs (s\<lparr>checks := checks s - 1\<rparr>) = (b, rest, s')"
      using Cons.prems(1) st by (cases item) (auto simp: Let_def split: if_splits)
    have "settled s p \<or> p \<in> set ?bs \<or> Some p \<in> set gets"
      using Cons.prems(2) by (cases item) auto
    then have "settled (?flush ?bs) p \<or> Some p \<in> set gets"
      and "settled (s\<lparr>checks := checks s - 1\<rparr>) p \<or> p \<in> set ?bs \<or> Some p \<in> set gets"
      using flush_batch_settles [of "s\<lparr>checks := checks s - 1\<rparr>" p ?bs "max_backoff cfg"] by auto
    with step Cons.IH show ?thesis by blast
  qed
qed

lemma drain_input_set: "Some p \<in> set gets \<Longrightarrow> p \<in> set (drain_input gets)"
  by (induction gets rule: drain_input.induct) auto

lemma sender_run_settles:
  assumes "Some p \<in> set gets"
  shows "settled (sender_run post cfg gets s) p"
proof -
  obtain b rest s1 where 1: "sender_loop post cfg gets [] s = (b, rest, s1)"
    using prod_cases3 by blast
  have "settled s1 p \<or> p \<in> set b \<or> Some p \<in> set rest"
    using sender_loop_settles [OF 1, of p] assms by blast
  then have "settled s1 p \<or> p \<in> set (b @ drain_input rest)" using drain_input_set [of p rest] by auto
  then show ?thesis
    using flush_batch_settles [of s1 p] 1 by (auto simp: sender_run_def final_flush_def Let_def)
qed

end

end
