(* ===== verification/AgentConfig.thy ===== *)
theory AgentConfig
  imports AgentWatcher AgentSender PyFloat
begin

text \<open>
  \<open>sentinel-agent/config.py\<close>: the YAML document, already parsed (\<open>yaml\<close> is a library), becomes the
  configuration of the agent or a \<open>ValueError\<close> or \<open>TypeError\<close>. \<open>float_of\<close> is \<open>float\<close> on a text. A document
  with a \<open>.nan\<close> or \<open>.inf\<close> has no value here.
\<close>

section \<open>Data\<close>

definition DEFAULT_BATCH_SIZE :: int where "DEFAULT_BATCH_SIZE = 20"
definition DEFAULT_FLUSH_INTERVAL :: rat where "DEFAULT_FLUSH_INTERVAL = 1"
definition DEFAULT_POLL_INTERVAL :: rat where "DEFAULT_POLL_INTERVAL = 1 / 4"
definition DEFAULT_QUEUE_SIZE :: int where "DEFAULT_QUEUE_SIZE = 10000"
definition DEFAULT_REQUEST_TIMEOUT :: rat where "DEFAULT_REQUEST_TIMEOUT = 5"
definition DEFAULT_MAX_BACKOFF :: rat where "DEFAULT_MAX_BACKOFF = 30"

text \<open>\<open>SentinelConfig\<close> extends what the sender uses of it, \<open>sender_config\<close>.\<close>

record sentinel_config = sender_config +
  server :: string
  api_key :: string
  flush_interval :: rat
  request_timeout :: rat

record agent_config =
  sentinel :: sentinel_config
  log_targets :: "log_target list"
  poll_interval :: rat
  queue_size :: int

section \<open>Conversions\<close>

text \<open>\<open>int(x)\<close>: a text has white space around it, a sign, and underscores between digits at most.\<close>

definition int_of_text :: "string \<Rightarrow> exn + int" where
  "int_of_text s =
     (let body = str_strip s;
          negative = (body \<noteq> [] \<and> hd body = CHR ''-'');
          digits = (if body \<noteq> [] \<and> hd body \<in> set ''+-'' then tl body else body);
          parts = str_split (CHR ''_'') digits
      in if list_all (\<lambda>p. p \<noteq> [] \<and> list_all is_digit p) parts
         then Inr ((if negative then - 1 else 1) * digits_value 0 (concat parts))
         else Inl ValueError)"

fun py_int :: "json \<Rightarrow> exn + int" where
  "py_int (JInt n) = Inr n"
| "py_int (JBool b) = Inr (of_bool b)"
| "py_int (JFloat x) = Inr (if x < 0 then - \<lfloor>- x\<rfloor> else \<lfloor>x\<rfloor>)"
| "py_int (JStr s) = int_of_text s"
| "py_int _ = Inl TypeError"

fun py_float :: "(string \<Rightarrow> exn + rat) \<Rightarrow> json \<Rightarrow> exn + rat" where
  "py_float float_of (JInt n) = Inr (fl (of_int n))"
| "py_float float_of (JBool b) = Inr (of_bool b)"
| "py_float float_of (JFloat x) = Inr x"
| "py_float float_of (JStr s) = float_of s"
| "py_float float_of _ = Inl TypeError"

section \<open>Validation\<close>

definition require_mapping :: "json option \<Rightarrow> exn + json pydict" where
  "require_mapping data = (case data of Some (JObj d) \<Rightarrow> Inr d | _ \<Rightarrow> Inl ValueError)"

definition require_non_empty_string :: "json option \<Rightarrow> exn + string" where
  "require_non_empty_string value = (case value of
       Some (JStr s) \<Rightarrow> if str_strip s = [] then Inl ValueError else Inr (str_strip s)
     | _ \<Rightarrow> Inl ValueError)"

text \<open>Chaining of steps that may raise.\<close>

definition chain :: "exn + 'a \<Rightarrow> ('a \<Rightarrow> exn + 'b) \<Rightarrow> exn + 'b" where
  "chain x f = (case x of Inl e \<Rightarrow> Inl e | Inr v \<Rightarrow> f v)"

definition check :: "bool \<Rightarrow> exn + 'a \<Rightarrow> exn + 'a" where
  "check ok k = (if ok then k else Inl ValueError)"

definition load_sentinel :: "(string \<Rightarrow> exn + rat) \<Rightarrow> json pydict \<Rightarrow> exn + sentinel_config" where
  "load_sentinel float_of d =
     chain (require_non_empty_string (dict_get d ''server'')) (\<lambda>url.
     chain (require_non_empty_string (dict_get d ''api_key'')) (\<lambda>key.
     chain (py_int (dict_get_or d ''batch_size'' (JInt DEFAULT_BATCH_SIZE))) (\<lambda>batch.
     chain (py_float float_of (dict_get_or d ''flush_interval'' (JFloat DEFAULT_FLUSH_INTERVAL))) (\<lambda>flush.
     chain (py_float float_of (dict_get_or d ''request_timeout'' (JFloat DEFAULT_REQUEST_TIMEOUT))) (\<lambda>timeout.
     chain (py_float float_of (dict_get_or d ''max_backoff'' (JFloat DEFAULT_MAX_BACKOFF))) (\<lambda>backoff.
       check (\<not> (batch < 1 \<or> 5000 < batch))
         (check (\<not> flush \<le> 0)
           (check (\<not> timeout \<le> 0)
             (check (\<not> backoff < 1)
               (Inr \<lparr>batch_size = batch, max_backoff = backoff,
                     server = str_rstrip_by (\<lambda>c. c = CHR ''/'') url, api_key = key,
                     flush_interval = flush, request_timeout = timeout\<rparr>))))))))))"

fun load_targets :: "json list \<Rightarrow> exn + log_target list" where
  "load_targets [] = Inr []"
| "load_targets (item # items) =
     chain (require_mapping (Some item)) (\<lambda>d.
     chain (require_non_empty_string (dict_get d ''path'')) (\<lambda>p.
     chain (require_non_empty_string (dict_get d ''source'')) (\<lambda>s.
     chain (load_targets items) (\<lambda>ts. Inr (\<lparr>lt_path = p, lt_source = s\<rparr> # ts)))))"

text \<open>\<open>document\<close> is what \<open>yaml.safe_load\<close> returns, \<open>None\<close> when the file does not exist.\<close>

definition load_config :: "(string \<Rightarrow> exn + rat) \<Rightarrow> json option \<Rightarrow> exn + agent_config" where
  "load_config float_of document = (case document of
       None \<Rightarrow> Inl FileNotFoundError
     | Some parsed \<Rightarrow>
         chain (require_mapping (Some (if json_truthy parsed then parsed else JObj []))) (\<lambda>raw.
         chain (require_mapping (dict_get raw ''sentinel'')) (\<lambda>sentinel_raw.
         chain (load_sentinel float_of sentinel_raw) (\<lambda>s.
           case dict_get raw ''logs'' of
             Some (JArr items) \<Rightarrow>
               if items = [] then Inl ValueError
               else chain (load_targets items) (\<lambda>ts.
                 chain (py_float float_of (dict_get_or raw ''poll_interval'' (JFloat DEFAULT_POLL_INTERVAL))) (\<lambda>poll.
                 chain (py_int (dict_get_or raw ''queue_size'' (JInt DEFAULT_QUEUE_SIZE))) (\<lambda>queue.
                   check (\<not> poll \<le> 0)
                     (check (\<not> queue < 100)
                       (Inr \<lparr>sentinel = s, log_targets = ts, poll_interval = poll, queue_size = queue\<rparr>)))))
           | _ \<Rightarrow> Inl ValueError))))"

section \<open>What a loaded configuration satisfies\<close>

lemma chain_Inr: "chain x f = Inr y \<longleftrightarrow> (\<exists>v. x = Inr v \<and> f v = Inr y)"
  by (auto simp: chain_def split: sum.splits)

lemma check_Inr: "check ok k = Inr y \<longleftrightarrow> ok \<and> k = Inr y"
  by (simp add: check_def)

lemma require_non_empty_Inr: "require_non_empty_string v = Inr s \<Longrightarrow> s \<noteq> []"
  by (auto simp: require_non_empty_string_def split: option.splits json.splits if_splits)

definition target_ok :: "log_target \<Rightarrow> bool" where
  "target_ok t \<longleftrightarrow> lt_path t \<noteq> [] \<and> lt_source t \<noteq> []"

lemma load_targets_ok:
  "load_targets items = Inr ts \<Longrightarrow> length ts = length items \<and> list_all target_ok ts"
proof (induction items arbitrary: ts)
  case Nil
  then show ?case by simp
next
  case (Cons item items)
  then show ?case by (auto simp: chain_Inr target_ok_def dest: require_non_empty_Inr)
qed

lemma str_rstrip_by_last: "str_rstrip_by p s = [] \<or> \<not> p (last (str_rstrip_by p s))"
proof (cases "dropWhile p (rev s) = []")
  case False
  then have "\<not> p (hd (dropWhile p (rev s)))" by (rule hd_dropWhile)
  with False show ?thesis by (simp add: str_rstrip_by_def last_rev)
qed (simp add: str_rstrip_by_def)

lemma rstrip_slash: "last (str_rstrip_by (\<lambda>c. c = d) s) = d \<Longrightarrow> str_rstrip_by (\<lambda>c. c = d) s = []"
  using str_rstrip_by_last [of "\<lambda>c. c = d" s] by auto

lemma load_sentinel_ok:
  assumes "load_sentinel float_of d = Inr s"
  shows "sender_delays (max_backoff s) \<and> 1 \<le> batch_size s \<and> batch_size s \<le> 5000
    \<and> 0 < flush_interval s \<and> 0 < request_timeout s \<and> api_key s \<noteq> []
    \<and> (server s = [] \<or> last (server s) \<noteq> CHR ''/'')"
  using assms unfolding load_sentinel_def chain_Inr check_Inr
  by (elim exE conjE) (auto simp: sender_delays_def not_le not_less rstrip_slash dest: require_non_empty_Inr)

lemma load_config_parts:
  assumes "load_config float_of document = Inr c"
  shows "\<exists>d items. load_sentinel float_of d = Inr (sentinel c) \<and> load_targets items = Inr (log_targets c)
    \<and> items \<noteq> [] \<and> 0 < poll_interval c \<and> 100 \<le> queue_size c"
proof -
  from assms obtain parsed where "document = Some parsed" by (auto simp: load_config_def split: option.splits)
  with assms obtain raw sraw s where s: "load_sentinel float_of sraw = Inr s"
    and rest: "(case dict_get raw ''logs'' of
             Some (JArr items) \<Rightarrow>
               if items = [] then Inl ValueError
               else chain (load_targets items) (\<lambda>ts.
                 chain (py_float float_of (dict_get_or raw ''poll_interval'' (JFloat DEFAULT_POLL_INTERVAL))) (\<lambda>poll.
                 chain (py_int (dict_get_or raw ''queue_size'' (JInt DEFAULT_QUEUE_SIZE))) (\<lambda>queue.
                   check (\<not> poll \<le> 0)
                     (check (\<not> queue < 100)
                       (Inr \<lparr>sentinel = s, log_targets = ts, poll_interval = poll, queue_size = queue\<rparr>)))))
           | _ \<Rightarrow> Inl ValueError) = Inr c"
    unfolding load_config_def by (simp only: option.case chain_Inr) (elim exE conjE, rule that)
  from rest obtain items where "items \<noteq> []" and c: "chain (load_targets items) (\<lambda>ts.
                 chain (py_float float_of (dict_get_or raw ''poll_interval'' (JFloat DEFAULT_POLL_INTERVAL))) (\<lambda>poll.
                 chain (py_int (dict_get_or raw ''queue_size'' (JInt DEFAULT_QUEUE_SIZE))) (\<lambda>queue.
                   check (\<not> poll \<le> 0)
                     (check (\<not> queue < 100)
                       (Inr \<lparr>sentinel = s, log_targets = ts, poll_interval = poll, queue_size = queue\<rparr>))))) = Inr c"
    by (cases "dict_get raw ''logs''" rule: option.exhaust; cases "the (dict_get raw ''logs'')") (auto split: if_splits)
  from c s \<open>items \<noteq> []\<close> show ?thesis unfolding chain_Inr check_Inr by fastforce
qed

text \<open>
  Whatever the document, a configuration that loads is within the bounds the agent relies on: the
  delays of the sender satisfy its contract (the longest is at least one second), a batch holds 1
  to 5000 logs, all intervals are positive, the queue has room for 100 logs, there is a file to
  watch and each has a path and a source, and the address of the server does not end in a slash.
\<close>

theorem loaded_config_in_bounds:
  assumes "load_config float_of document = Inr c"
  shows "sender_delays (max_backoff (sentinel c)) \<and> 1 \<le> batch_size (sentinel c) \<and> batch_size (sentinel c) \<le> 5000
    \<and> 0 < flush_interval (sentinel c) \<and> 0 < request_timeout (sentinel c) \<and> api_key (sentinel c) \<noteq> []
    \<and> (server (sentinel c) = [] \<or> last (server (sentinel c)) \<noteq> CHR ''/'')
    \<and> 0 < poll_interval c \<and> 100 \<le> queue_size c \<and> log_targets c \<noteq> [] \<and> list_all target_ok (log_targets c)"
proof -
  obtain d items where s: "load_sentinel float_of d = Inr (sentinel c)" and t: "load_targets items = Inr (log_targets c)"
    and ne: "items \<noteq> []" and q: "0 < poll_interval c" "100 \<le> queue_size c"
    using load_config_parts [OF assms] by blast
  have "log_targets c \<noteq> []" "list_all target_ok (log_targets c)" using load_targets_ok [OF t] ne by auto
  with load_sentinel_ok [OF s] q show ?thesis by blast
qed

definition sample_document :: json where
  "sample_document = JObj [(''sentinel'', JObj [(''server'', JStr ''http://backend:8000/''), (''api_key'', JStr ''k''),
       (''batch_size'', JStr ''50''), (''flush_interval'', JInt 1)]),
     (''logs'', JArr [JObj [(''path'', JStr ''/var/log/auth.log''), (''source'', JStr ''linux-auth'')]])]"

theorem loaded_config_in_bounds_witness:
  "\<exists>c. load_config (\<lambda>_. Inl ValueError) (Some sample_document) = Inr c \<and> sender_delays (max_backoff (sentinel c))"
proof -
  have "\<not> isl (load_config (\<lambda>_. Inl ValueError) (Some sample_document))" by code_simp
  then obtain c where c: "load_config (\<lambda>_. Inl ValueError) (Some sample_document) = Inr c"
    by (cases "load_config (\<lambda>_. Inl ValueError) (Some sample_document)") auto
  with loaded_config_in_bounds [OF c] show ?thesis by blast
qed

text \<open>A server given as slashes only passes as the empty address.\<close>

lemma slashes_are_a_server:
  "load_sentinel float_of [(''server'', JStr ''//''), (''api_key'', JStr ''k'')]
   = Inr \<lparr>batch_size = 20, max_backoff = 30, server = [], api_key = ''k'', flush_interval = 1, request_timeout = 5\<rparr>"
  by code_simp

end
