(* ===== verification/AccessControl.thy ===== *)
theory AccessControl
  imports Settings PyUuid
begin

text \<open>
  What stands before every handler: the API key (\<open>app/middleware/auth.py\<close>), the production gate of the
  start (\<open>lifespan\<close> in \<open>app/main.py\<close>), and the request identifier
  (\<open>app/middleware/request_id.py\<close>). A header is text of the characters up to 255, as the server
  decodes it.
\<close>

section \<open>The API key\<close>

text \<open>\<open>hmac.compare_digest\<close> takes texts of ASCII characters only.\<close>

definition compare_digest :: "string \<Rightarrow> string \<Rightarrow> exn + bool" where
  "compare_digest a b = (if str_is_ascii a \<and> str_is_ascii b then Inr (a = b) else Inl TypeError)"

definition verify_api_key :: "settings \<Rightarrow> string option \<Rightarrow> exn + unit" where
  "verify_api_key cfg x_api_key =
     (if API_KEY cfg = [] then Inr ()
      else case x_api_key of
        None \<Rightarrow> Inl (HTTPException 401)
      | Some key \<Rightarrow> (case compare_digest key (API_KEY cfg) of
          Inl e \<Rightarrow> Inl e
        | Inr same \<Rightarrow> if same then Inr () else Inl (HTTPException 401)))"

text \<open>The key of a websocket: the header, or the query parameter when there is no header.\<close>

definition ws_key :: "string option \<Rightarrow> string option \<Rightarrow> string option" where
  "ws_key header query = (if truthy header then header else query)"

definition verify_api_key_ws :: "settings \<Rightarrow> string option \<Rightarrow> string option \<Rightarrow> exn + unit" where
  "verify_api_key_ws cfg header query =
     (if API_KEY cfg = [] then Inr ()
      else if \<not> truthy (ws_key header query) then Inl (WebSocketDisconnect 4401)
      else case compare_digest (the (ws_key header query)) (API_KEY cfg) of
        Inl e \<Rightarrow> Inl e
      | Inr same \<Rightarrow> if same then Inr () else Inl (WebSocketDisconnect 4401))"

text \<open>The start refuses to serve without a key, unless debugging.\<close>

definition production_gate :: "settings \<Rightarrow> exn + unit" where
  "production_gate cfg = (if API_KEY cfg = [] \<and> \<not> DEBUG cfg then Inl RuntimeError else Inr ())"

text \<open>A route with \<open>Depends(verify_api_key)\<close>: the handler runs only when the check returns.\<close>

definition guarded :: "settings \<Rightarrow> string option \<Rightarrow> ('s, 'a) eff \<Rightarrow> ('s, 'a) eff" where
  "guarded cfg x_api_key handler = (case verify_api_key cfg x_api_key of
       Inl e \<Rightarrow> raiseE e
     | Inr _ \<Rightarrow> handler)"

section \<open>Request identifiers\<close>

record response =
  rsp_status :: int
  rsp_headers :: "string pydict"

text \<open>
  \<open>dispatch\<close>: the context variable \<open>request_id_ctx\<close> is set while the rest of the application runs and
  reset to what it was whatever happens. \<open>fresh\<close> is the text of a new \<open>uuid4\<close>.
\<close>

record request_context =
  request_id_ctx :: "string option"

definition request_id_of :: "string option \<Rightarrow> string \<Rightarrow> string" where
  "request_id_of incoming_id fresh = (if truthy incoming_id then the incoming_id else fresh)"

definition dispatch ::
  "string option \<Rightarrow> string \<Rightarrow> ('z request_context_scheme, response) eff \<Rightarrow>
     ('z request_context_scheme, response) eff" where
  "dispatch incoming_id fresh call_next w =
     (let req_id = request_id_of incoming_id fresh in
      case call_next (w\<lparr>request_id_ctx := Some req_id\<rparr>) of
        (Inl e, w') \<Rightarrow> (Inl e, w'\<lparr>request_id_ctx := request_id_ctx w\<rparr>)
      | (Inr rsp, w') \<Rightarrow>
          (Inr (rsp\<lparr>rsp_headers := dict_set (rsp_headers rsp) ''X-Request-ID'' req_id\<rparr>),
           w'\<lparr>request_id_ctx := request_id_ctx w\<rparr>))"

text \<open>What a log record made inside the request carries as its identifier (\<open>JSONFormatter.format\<close>).\<close>

definition logged_request_id :: "'z request_context_scheme \<Rightarrow> string option" where
  "logged_request_id w = (if truthy (request_id_ctx w) then request_id_ctx w else None)"

section \<open>Who is admitted\<close>

lemma verify_api_key_Inr:
  assumes "API_KEY cfg \<noteq> []"
  shows "verify_api_key cfg k = Inr () \<longleftrightarrow> k = Some (API_KEY cfg) \<and> str_is_ascii (API_KEY cfg)"
  using assms by (auto simp: verify_api_key_def compare_digest_def split: option.splits)

lemma verify_api_key_ws_Inr:
  assumes "API_KEY cfg \<noteq> []"
  shows "verify_api_key_ws cfg h q = Inr () \<longleftrightarrow>
    (h = Some (API_KEY cfg) \<or> \<not> truthy h \<and> q = Some (API_KEY cfg)) \<and> str_is_ascii (API_KEY cfg)"
  using assms
  by (auto simp: verify_api_key_ws_def ws_key_def compare_digest_def truthy_def split: option.splits)

text \<open>
  C38. A server that started in production admits exactly the holders of its key: a guarded request
  without the configured key runs nothing of its handler and leaves the state alone, one with
  the key runs the handler, and the websocket takes the same key from the header or, failing a
  header, from the query.
\<close>

theorem production_admits_key_holders:
  assumes "production_gate cfg = Inr ()" and "\<not> DEBUG cfg"
  shows "((\<exists>e. guarded cfg k handler w = (Inl e, w)) \<or> k = Some (API_KEY cfg) \<and> API_KEY cfg \<noteq> []
      \<and> guarded cfg k handler w = handler w)
    \<and> (str_is_ascii (API_KEY cfg) \<longrightarrow> guarded cfg (Some (API_KEY cfg)) handler w = handler w)
    \<and> (verify_api_key_ws cfg h q = Inr () \<longleftrightarrow> str_is_ascii (API_KEY cfg)
      \<and> (h = Some (API_KEY cfg) \<or> \<not> truthy h \<and> q = Some (API_KEY cfg)))"
proof -
  have k: "API_KEY cfg \<noteq> []" using assms by (auto simp: production_gate_def split: if_splits)
  have g: "guarded cfg k handler w = (case verify_api_key cfg k of Inl e \<Rightarrow> (Inl e, w) | Inr _ \<Rightarrow> handler w)" for k
    by (simp add: guarded_def raiseE_apply split: sum.splits)
  have "(\<exists>e. guarded cfg k handler w = (Inl e, w)) \<or> k = Some (API_KEY cfg) \<and> guarded cfg k handler w = handler w"
    using verify_api_key_Inr [OF k, of k] unfolding g by (cases "verify_api_key cfg k") auto
  moreover have "str_is_ascii (API_KEY cfg) \<longrightarrow> guarded cfg (Some (API_KEY cfg)) handler w = handler w"
    using verify_api_key_Inr [OF k, of "Some (API_KEY cfg)"] unfolding g by auto
  ultimately show ?thesis using verify_api_key_ws_Inr [OF k] k by auto
qed

theorem production_admits_key_holders_witness:
  "let cfg = (default_settings [])\<lparr>API_KEY := ''secret'', DEBUG := False\<rparr>
   in (\<exists>e. guarded cfg (Some ''guess'') (modifyE Suc) (0::nat) = (Inl e, 0))
    \<and> guarded cfg (Some ''secret'') (modifyE Suc) (0::nat) = (Inr (), 1)"
proof -
  let ?cfg = "(default_settings [])\<lparr>API_KEY := ''secret'', DEBUG := False\<rparr>"
  have g: "production_gate ?cfg = Inr ()" and d: "\<not> DEBUG ?cfg" by (simp_all add: production_gate_def default_settings_def)
  have a: "str_is_ascii ''secret''" by code_simp
  from production_admits_key_holders [OF g d, of "Some ''guess''" "modifyE Suc" 0 None None] a
  show ?thesis by (simp add: Let_def modifyE_apply)
qed

text \<open>A key with a character outside ASCII is answered with an internal error, not with 401.\<close>

lemma non_ascii_key_raises:
  "API_KEY cfg \<noteq> [] \<Longrightarrow> \<not> str_is_ascii k \<Longrightarrow> verify_api_key cfg (Some k) = Inl TypeError"
  by (simp add: verify_api_key_def compare_digest_def)

text \<open>
  Request identifiers do not leak: whether the application answers or raises, the context
  variable is afterwards what it was before, and an answer carries the identifier the client
  sent or, without one, the fresh one.
\<close>

theorem request_id_restored:
  "request_id_ctx (snd (dispatch incoming fresh call_next w)) = request_id_ctx w
   \<and> (\<forall>rsp. fst (dispatch incoming fresh call_next w) = Inr rsp \<longrightarrow>
       dict_get (rsp_headers rsp) ''X-Request-ID''
         = Some (if truthy incoming then the incoming else fresh))"
  by (auto simp: dispatch_def Let_def request_id_of_def dict_simps split: prod.splits sum.splits)

end
