(* ===== verification/AgentToApi.thy ===== *)
theory AgentToApi
  imports AgentSender AgentParser AccessControl ApiEffects
begin

text \<open>
  The agent and the API together: what \<open>POST /logs\<close> answers to a payload of the agent, and what
  becomes of the logs that the sender of the agent takes from its queue. The network may lose a
  request or an answer.
\<close>

section \<open>The request\<close>

text \<open>The body that the API reads from the JSON of a payload; the text of the timestamp is aware.\<close>

definition posted :: "agent_payload \<Rightarrow> log_create" where
  "posted p = \<lparr>lc_source = ap_source p, lc_level = ap_level p, lc_message = ap_message p,
     lc_timestamp = Aware (ap_timestamp p), lc_ip = ap_ip p\<rparr>"

datatype network = Delivered | RequestLost | AnswerNotReceived

record request_readings =
  rq_network :: network
  rq_key :: string
  rq_utc :: instant
  rq_now :: rat

text \<open>The API as the agent sees it; \<open>requests\<close> numbers the requests, \<open>rq\<close> gives their readings.\<close>

record ('r, 'd) api_server = "('r, 'd) api" +
  requests :: nat

definition post_handler ::
  "'r redis_conn \<Rightarrow> 'd sql_conn \<Rightarrow> settings \<Rightarrow> (py_datetime \<Rightarrow> string) \<Rightarrow> request_readings \<Rightarrow> log_create \<Rightarrow>
     (('r, 'd, 'z) api_scheme, json) eff" where
  "post_handler R D cfg ts rq body = (case validate_log (rq_utc rq) body of
       Inl _ \<Rightarrow> raiseE (HTTPException 422)
     | Inr p \<Rightarrow> create_log True R D cfg ts (rq_key rq) (rq_utc rq) (rq_now rq) p)"

definition status_of :: "exn + 'a \<Rightarrow> int" where
  "status_of r = (case r of Inr _ \<Rightarrow> 201 | Inl (HTTPException c) \<Rightarrow> c | Inl _ \<Rightarrow> 500)"

definition post_log ::
  "'r redis_conn \<Rightarrow> 'd sql_conn \<Rightarrow> settings \<Rightarrow> (py_datetime \<Rightarrow> string) \<Rightarrow> (nat \<Rightarrow> request_readings) \<Rightarrow>
     string \<Rightarrow> (agent_payload, ('r, 'd) api_server) http" where
  "post_log R D cfg ts rq api_key p h =
     (let reading = rq (requests h); h = h\<lparr>requests := requests h + 1\<rparr> in
      case rq_network reading of
        RequestLost \<Rightarrow> (None, h)
      | Delivered \<Rightarrow> (case guarded cfg (Some api_key) (post_handler R D cfg ts reading (posted p)) h of
            (r, h') \<Rightarrow> (Some (status_of r), h'))
      | AnswerNotReceived \<Rightarrow>
          (None, snd (guarded cfg (Some api_key) (post_handler R D cfg ts reading (posted p)) h)))"

section \<open>Which lines the API accepts\<close>




section \<open>What a request leaves of the other rows\<close>

text \<open>A request whose identifier is taken already changes no row and is answered with an error.\<close>

lemma create_taken:
  assumes "sql_ok D dview (=)" and "rows_of key (dview (api_sql w)) \<noteq> []"
    and "create_log True R D cfg ts key utc now p w = (r, w')"
  shows "(r = Inl IntegrityError \<or> r = Inl DatabaseError) \<and> dview (api_sql w') = dview (api_sql w)"
proof -
  let ?d = "dview (api_sql w)"
  obtain r1 w1 where 1: "apiE D (Commit [InsertLog (new_log key utc p)]) w = (r1, w1)" by fastforce
  have "key \<in> log_key ` set (logs ?d)" using assms(2) by (auto simp: rows_of_def filter_empty_conv)
  then have "apply_changes [InsertLog (new_log key utc p)] ?d \<noteq> Inr d'" for d' by simp
  with apiE_commit_cases [OF assms(1) 1]
  have "(r1 = Inl IntegrityError \<or> r1 = Inl DatabaseError) \<and> dview (api_sql w1) = ?d" by metis
  with assms(3) 1 show ?thesis
    by (auto simp: create_log_def ingest_log_def bindE_apply thenE_apply)
qed

lemma create_keeps:
  assumes "sql_ok D dview (=)" and "create_log True R D cfg ts key utc now p w = (r, w')"
    and "l \<in> set (logs (dview (api_sql w)))"
  shows "l \<in> set (logs (dview (api_sql w')))"
proof (cases "log_key l = key")
  case True
  with assms(3) have "rows_of key (dview (api_sql w)) \<noteq> []" by (auto simp: rows_of_def filter_empty_conv)
  with create_taken [OF assms(1) _ assms(2)] assms(3) show ?thesis by simp
next
  case False
  have "rows_of (log_key l) (dview (api_sql w')) = rows_of (log_key l) (dview (api_sql w))"
    using keepsD [OF only_log_create [OF assms(1)] assms(2)] False by (simp add: only_log_def Let_def)
  moreover have "l \<in> set (rows_of (log_key l) (dview (api_sql w)))" using assms(3) by (simp add: rows_of_def)
  ultimately have "l \<in> set (rows_of (log_key l) (dview (api_sql w')))" by simp
  then show ?thesis by (simp add: rows_of_def)
qed

lemma create_stores:
  assumes "redis_ok R view" and "sql_ok D dview (=)"
    and "create_log True R D cfg ts key utc now p w = (Inr j, w')"
  shows "\<exists>b. new_log key utc p\<lparr>log_enqueued := b\<rparr> \<in> set (logs (dview (api_sql w')))"
proof -
  from create_taken [OF assms(2) _ assms(3)] have none: "rows_of key (dview (api_sql w)) = []" by blast
  from assms(3) obtain l w1 where 1: "ingest_log True R D cfg key utc now p w = (Inr l, w1)"
    and 2: "increment_async R ''logs_received'' 1 w1 = (Inr (), w')"
    by (auto simp: create_log_def bindE_Inr_iff thenE_Inr_iff returnE_apply)
  have "api_sql w' = api_sql w1" by (rule redis_only_api_sql [OF redis_only_increment 2])
  moreover have "rows_of key (dview (api_sql w1)) = [new_log key utc p]
      \<or> rows_of key (dview (api_sql w1)) = [new_log key utc p\<lparr>log_enqueued := True\<rparr>]"
    using ingest_cases [OF assms(1,2) leaves_log_eq none 1] unfolding Let_def by blast
  moreover have "new_log key utc p\<lparr>log_enqueued := False\<rparr> = new_log key utc p" by (simp add: new_log_def)
  ultimately have "\<exists>b. new_log key utc p\<lparr>log_enqueued := b\<rparr> \<in> set (rows_of key (dview (api_sql w')))"
    by (metis list.set_intros(1))
  then show ?thesis by (auto simp: rows_of_def)
qed

section \<open>What the request can raise\<close>

lemma raises_apiE:
  assumes "sql_ok D dview others" and "{IntegrityError, DatabaseError} \<subseteq> E"
  shows "raises_in E (apiE D st)"
  unfolding raises_in_def
proof (intro allI impI)
  fix w e w'
  assume "apiE D st w = (Inl e, w')"
  then have "D st (api_sql w) = (Inl e, api_sql w')" using apiE_cases by blast
  from sql_cases [OF assms(1) this] assms(2) show "e \<in> E" by (metis insert_subset)
qed

lemma raises_increment: "raises_in E (increment_async R n a)"
  unfolding increment_async_def by (intro raises_intros)

lemma raises_create:
  assumes "sql_ok D dview others"
  shows "raises_in {IntegrityError, DatabaseError, HTTPException 429} (create_log True R D cfg ts key utc now p)"
  unfolding create_log_def ingest_log_def refresh_def ingest_failed_def get_enqueue_def if_True option.case
  by (auto intro!: raises_intros raises_apiE [OF assms] raises_increment split: rows.splits list.splits)

section \<open>The API keeps the contract with the sender\<close>

text \<open>A row of the posted log, whatever its identifier and its mark.\<close>

definition row_for :: "agent_payload \<Rightarrow> log_row \<Rightarrow> bool" where
  "row_for p l \<longleftrightarrow> log_source l = ap_source p \<and> log_lvl l = str_upper (ap_level p)
     \<and> log_message l = ap_message p \<and> log_timestamp l = Aware (ap_timestamp p) \<and> log_ip l = ap_ip p"

definition in_database :: "('d \<Rightarrow> sql_db) \<Rightarrow> ('r, 'd, 'z) api_scheme \<Rightarrow> agent_payload \<Rightarrow> bool" where
  "in_database dview h p \<longleftrightarrow> (\<exists>l \<in> set (logs (dview (api_sql h))). row_for p l)"

text \<open>The log fails the validation at the time of some request, or the key is not the configured one.\<close>

definition turned_away :: "settings \<Rightarrow> (nat \<Rightarrow> request_readings) \<Rightarrow> string \<Rightarrow> agent_payload \<Rightarrow> bool" where
  "turned_away cfg rq api_key p \<longleftrightarrow> verify_api_key cfg (Some api_key) \<noteq> Inr ()
     \<or> (\<exists>n. isl (validate_log (rq_utc (rq n)) (posted p)))"

lemma row_for_new_log:
  assumes "validate_log t (posted p) = Inr q"
  shows "row_for p (new_log key utc q\<lparr>log_enqueued := b\<rparr>)"
  using validate_log_Inr [OF assms] by (simp add: row_for_def new_log_def posted_def)

lemma post_handler_cases:
  assumes "redis_ok R view" and "sql_ok D dview (=)"
    and "post_handler R D cfg ts reading (posted p) w = (r, w')"
  shows "(\<forall>l \<in> set (logs (dview (api_sql w))). l \<in> set (logs (dview (api_sql w'))))
    \<and> (\<forall>j. r = Inr j \<longrightarrow> in_database dview w' p)
    \<and> (\<forall>e. r = Inl e \<longrightarrow> e \<in> {IntegrityError, DatabaseError, HTTPException 429}
        \<or> e = HTTPException 422 \<and> isl (validate_log (rq_utc reading) (posted p)))"
proof (cases "validate_log (rq_utc reading) (posted p)")
  case (Inl e)
  with assms(3) show ?thesis by (auto simp: post_handler_def raiseE_apply)
next
  case (Inr q)
  with assms(3) have run: "create_log True R D cfg ts (rq_key reading) (rq_utc reading) (rq_now reading) q w = (r, w')"
    by (simp add: post_handler_def)
  have keep: "\<forall>l \<in> set (logs (dview (api_sql w))). l \<in> set (logs (dview (api_sql w')))"
    using create_keeps [OF assms(2) run] by blast
  show ?thesis
  proof (cases r)
    case (Inl e)
    with raises_inD [OF raises_create [OF assms(2)]] run keep show ?thesis by blast
  next
    case r: (Inr j)
    from create_stores [OF assms(1,2) run [unfolded r]] row_for_new_log [OF Inr]
    have "in_database dview w' p" unfolding in_database_def by blast
    with keep r show ?thesis by blast
  qed
qed

lemma post_log_cases:
  assumes "post_log R D cfg ts rq api_key p h = (a, h')"
  shows "h' = h\<lparr>requests := requests h + 1\<rparr>
      \<and> (a = None \<or> (\<exists>e. verify_api_key cfg (Some api_key) = Inl e \<and> a = Some (status_of (Inl e :: exn + json))))
    \<or> verify_api_key cfg (Some api_key) = Inr () \<and> (\<exists>r.
        post_handler R D cfg ts (rq (requests h)) (posted p) (h\<lparr>requests := requests h + 1\<rparr>) = (r, h')
        \<and> (a = None \<or> a = Some (status_of r)))"
proof -
  obtain r h1 where 1: "post_handler R D cfg ts (rq (requests h)) (posted p) (h\<lparr>requests := requests h + 1\<rparr>) = (r, h1)"
    by fastforce
  show ?thesis
    using assms 1
    by (cases "rq_network (rq (requests h))"; cases "verify_api_key cfg (Some api_key)")
      (auto simp: post_log_def Let_def guarded_def raiseE_apply)
qed

lemma verify_api_key_Inl: "verify_api_key cfg k = Inl e \<Longrightarrow> e = HTTPException 401 \<or> e = TypeError"
  by (auto simp: verify_api_key_def compare_digest_def split: if_splits option.splits)

text \<open>An API process with the failures of its Redis and its database, and no other writer of the tables.\<close>

locale api_service =
  fixes R :: "'r redis_conn" and view :: "'r \<Rightarrow> redis_db" and D :: "'d sql_conn" and dview :: "'d \<Rightarrow> sql_db"
  assumes redis: "redis_ok R view" and database: "sql_ok D dview (=)"
begin

lemma handler_result:
  assumes "post_handler R D cfg ts reading (posted p) w = (r, w')"
  shows "(in_database dview w q \<longrightarrow> in_database dview w' q)
    \<and> (accepted_status (status_of r) \<longrightarrow> in_database dview w' p)
    \<and> (status_of r \<in> set permanent_errors \<longrightarrow> isl (validate_log (rq_utc reading) (posted p)))"
proof -
  note c = post_handler_cases [OF redis database assms]
  have "in_database dview w q \<longrightarrow> in_database dview w' q" using c unfolding in_database_def by blast
  then show ?thesis
    using c by (cases r) (auto simp: status_of_def accepted_status_def permanent_errors_def)
qed

end

sublocale api_service \<subseteq> log_server "post_log R D cfg ts rq api_key" "in_database dview"
  "turned_away cfg rq api_key" for cfg ts rq api_key
proof
  fix p q :: agent_payload and h h' :: "('r, 'd) api_server" and c :: int and a :: "int option"
  have same: "in_database dview (h\<lparr>requests := n\<rparr>) q = in_database dview h q" for h :: "('r, 'd) api_server" and n q
    by (simp add: in_database_def)
  show "in_database dview h' p" if run: "post_log R D cfg ts rq api_key q h = (a, h')" and "in_database dview h p"
    using post_log_cases [OF run] handler_result that(2) same by metis
  show "in_database dview h' p" if run: "post_log R D cfg ts rq api_key p h = (Some c, h')" and "accepted_status c"
  proof -
    have "e = HTTPException 401 \<or> e = TypeError \<Longrightarrow> \<not> accepted_status (status_of (Inl e :: exn + json))" for e
      by (auto simp: status_of_def accepted_status_def)
    with post_log_cases [OF run] handler_result that(2) verify_api_key_Inl show ?thesis by fastforce
  qed
  show "turned_away cfg rq api_key p" if run: "post_log R D cfg ts rq api_key p h = (Some c, h')"
    and "c \<in> set permanent_errors"
    using post_log_cases [OF run] handler_result that(2) unfolding turned_away_def by fastforce
qed

context api_service
begin

lemma sender_delivers:
  assumes "Some p \<in> set gets"
  shows "in_database dview (http (sender_run (post_log R D cfg ts rq api_key) scfg gets s)) p
    \<or> turned_away cfg rq api_key p
    \<or> p \<in> set (abandoned (sender_run (post_log R D cfg ts rq api_key) scfg gets s))"
  using sender_run_settles [OF assms, of cfg rq api_key ts scfg s] by (simp add: settled_def)

end

interpretation mem_api: api_service mem_redis "\<lambda>d. d" mem_sql "\<lambda>d. d"
  by unfold_locales (rule redis_ok_mem, rule sql_ok_mem)

interpretation sim_api: api_service sim_redis snd sim_sql snd
  by unfold_locales (rule redis_ok_sim, rule sql_ok_sim)

text \<open>
  From the queue of the agent to the database: whatever the network, Redis and the database do,
  every log that the sender of the agent read from its queue, or that was still in it at the
  shutdown, has its row in the database when the thread ends, or it failed the validation of the
  API (or the agent has the wrong key), or the thread gave it up with its warning because it was
  stopped.
\<close>

theorem agent_logs_reach_database:
  assumes "redis_ok R view" and "sql_ok D dview (=)" and "Some p \<in> set gets"
  shows "let s' = sender_run (post_log R D cfg ts rq api_key) scfg gets s in
    (\<exists>l \<in> set (logs (dview (api_sql (http s')))). row_for p l)
    \<or> verify_api_key cfg (Some api_key) \<noteq> Inr () \<or> (\<exists>n. isl (validate_log (rq_utc (rq n)) (posted p)))
    \<or> p \<in> set (abandoned s')"
  using api_service.sender_delivers [OF api_service.intro [OF assms(1,2)] assms(3)]
  by (simp add: Let_def in_database_def turned_away_def disj_assoc)

definition some_payload :: agent_payload where
  "some_payload = \<lparr>ap_source = ''sshd'', ap_level = ''ERROR'', ap_message = ''failed'', ap_timestamp = 0,
     ap_ip = Some ''10.0.0.1''\<rparr>"

definition some_requests :: "nat \<Rightarrow> request_readings" where
  "some_requests n = \<lparr>rq_network = (if n = 0 then AnswerNotReceived else Delivered),
     rq_key = replicate 32 (if n = 0 then CHR ''a'' else CHR ''b''), rq_utc = 0, rq_now = 5\<rparr>"

definition some_server :: "(redis_db, sql_db) api_server" where
  "some_server = \<lparr>conn = empty_db, counters = initial_counters, api_sql = \<lparr>logs = [], alerts = []\<rparr>, requests = 0\<rparr>"

text \<open>The answer to the first request is lost: the log is sent again and stored twice.\<close>

theorem agent_logs_reach_database_witness:
  "let s' = sender_run (post_log mem_redis mem_sql (default_settings []) (\<lambda>_. []) some_requests [])
       \<lparr>batch_size = 1, max_backoff = 30\<rparr> [Some some_payload]
       \<lparr>http = some_server, checks = 9, slept = [], abandoned = []\<rparr>
   in \<exists>l \<in> set (logs (api_sql (http s'))). row_for some_payload l"
proof -
  let ?run = "sender_run (post_log mem_redis mem_sql (default_settings []) (\<lambda>_. []) some_requests [])
       \<lparr>batch_size = 1, max_backoff = 30\<rparr> [Some some_payload]
       \<lparr>http = some_server, checks = 9, slept = [], abandoned = []\<rparr>"
  have "abandoned ?run = []" by code_simp
  moreover have "verify_api_key (default_settings []) (Some []) = Inr ()" by (simp add: verify_api_key_def default_settings_def)
  moreover have "\<not> isl (validate_log (rq_utc (some_requests n)) (posted some_payload))" for n
  proof -
    have "\<not> isl (validate_log 0 (posted some_payload))" by code_simp
    then show ?thesis by (simp add: some_requests_def)
  qed
  ultimately show ?thesis
    using agent_logs_reach_database [OF redis_ok_mem sql_ok_mem, where p = some_payload
        and gets = "[Some some_payload]" and ts = "\<lambda>_. []" and cfg = "default_settings []"
        and rq = some_requests and api_key = "[]" and scfg = "\<lparr>batch_size = 1, max_backoff = 30\<rparr>"
        and s = "\<lparr>http = some_server, checks = 9, slept = [], abandoned = []\<rparr>"]
    by (auto simp: Let_def)
qed

end
