(* ===== verification/AgentPipeline.thy ===== *)
theory AgentPipeline
  imports AgentToApi AgentWatcher
begin

text \<open>
  The whole agent: the watcher puts the payloads of the lines it reads into \<open>queue.Queue\<close>, which hands
  them to the sender in order, and the sender posts them to the API. The watcher blocks while the queue is full,
  so nothing is dropped between the two.
\<close>

section \<open>The watcher over time\<close>

text \<open>The rounds of the watcher on one file, until the parser raises.\<close>

fun watch :: "poll_readings list \<Rightarrow> file_state \<Rightarrow> exn option \<times> agent_payload list" where
  "watch [] st = (None, [])"
| "watch (rd # rds) st = (case watcher_round [(st, rd)] of
       (Some e, ps, _) \<Rightarrow> (Some e, ps)
     | (None, ps, sts) \<Rightarrow> (case watch rds (hd sts) of (e, qs) \<Rightarrow> (e, ps @ qs)))"

definition moments_of :: "poll_readings list \<Rightarrow> (file_system \<times> file_system) list" where
  "moments_of rds = map (\<lambda>rd. (pr_fs rd, pr_fs' rd)) rds"

lemma target_poll: "poll fs fs' fails st = (ls, st') \<Longrightarrow> target st' = target st"
  unfolding poll_def poll_body_def poll_reopen_def Let_def
  by (auto simp: open_file_def read_available_lines_def close_file_def needs_reopen_def
      split: sum.splits option.splits if_splits prod.splits bool.splits)

lemma emit_lines_all:
  "\<forall>l \<in> set ls. \<exists>p. parse_log_line now source l = Inr p \<Longrightarrow>
    \<exists>ps. emit_lines now source ls = (None, ps) \<and> list_all2 (\<lambda>l p. parse_log_line now source l = Inr p) ls ps"
proof (induction ls)
  case Nil
  then show ?case by simp
next
  case (Cons l ls)
  then obtain p ps where "parse_log_line now source l = Inr p" "emit_lines now source ls = (None, ps)"
    "list_all2 (\<lambda>l p. parse_log_line now source l = Inr p) ls ps" by auto
  then show ?case by simp
qed

text \<open>While no line stops the parser, every line the polls deliver becomes one payload, in order.\<close>

definition parsed_by :: "poll_readings list \<Rightarrow> string \<Rightarrow> string \<Rightarrow> agent_payload \<Rightarrow> bool" where
  "parsed_by rds source l p \<longleftrightarrow> (\<exists>rd \<in> set rds. parse_log_line (pr_now rd) source l = Inr p)"

lemma watch_all:
  assumes "\<forall>rd \<in> set rds. pr_fails rd = no_failure"
    and "\<forall>rd \<in> set rds. \<forall>l \<in> set (fst (polls (moments_of rds) st)).
      \<exists>p. parse_log_line (pr_now rd) (lt_source (target st)) l = Inr p"
  shows "\<exists>ps. watch rds st = (None, ps)
    \<and> list_all2 (parsed_by rds (lt_source (target st))) (fst (polls (moments_of rds) st)) ps"
  using assms
proof (induction rds arbitrary: st)
  case Nil
  then show ?case by (simp add: moments_of_def)
next
  case (Cons rd rds)
  obtain ls st1 where 1: "poll (pr_fs rd) (pr_fs' rd) no_failure st = (ls, st1)" by fastforce
  note t = target_poll [OF 1]
  have lines: "fst (polls (moments_of (rd # rds)) st) = ls @ fst (polls (moments_of rds) st1)"
    by (simp add: moments_of_def 1 split: prod.split)
  have "\<forall>l \<in> set ls. \<exists>p. parse_log_line (pr_now rd) (lt_source (target st)) l = Inr p"
    using Cons.prems(2) unfolding lines by simp
  from emit_lines_all [OF this] obtain ps where e: "emit_lines (pr_now rd) (lt_source (target st)) ls = (None, ps)"
    and ps: "list_all2 (\<lambda>l p. parse_log_line (pr_now rd) (lt_source (target st)) l = Inr p) ls ps" by blast
  obtain qs where q: "watch rds st1 = (None, qs)"
    and qs: "list_all2 (parsed_by rds (lt_source (target st1))) (fst (polls (moments_of rds) st1)) qs"
    using Cons.IH [of st1] Cons.prems unfolding lines t by auto
  have "watch (rd # rds) st = (None, ps @ qs)"
    using Cons.prems(1) by (simp add: 1 e q)
  moreover have "list_all2 (parsed_by (rd # rds) (lt_source (target st))) ls ps"
    using ps by (rule list_all2_mono) (simp add: parsed_by_def)
  moreover have "list_all2 (parsed_by (rd # rds) (lt_source (target st))) (fst (polls (moments_of rds) st1)) qs"
    using qs by (rule list_all2_mono) (auto simp: parsed_by_def t)
  ultimately show ?case unfolding lines by (auto intro: list_all2_appendI)
qed

section \<open>From the file to the database\<close>


definition line_payload :: "string \<Rightarrow> agent_payload" where
  "line_payload l = \<lparr>ap_source = ''app'', ap_level = ''INFO'', ap_message = l, ap_timestamp = 0, ap_ip = None\<rparr>"

definition some_reading :: "string \<Rightarrow> poll_readings" where
  "some_reading text = \<lparr>pr_fs = one_file 7 text, pr_fs' = one_file 7 text, pr_fails = no_failure, pr_now = 0\<rparr>"


end
