(* ===== verification/Metrics.thy ===== *)
theory Metrics
  imports LogService
begin

text \<open>
  \<open>compute_metrics_response\<close> of \<open>app/metrics.py\<close>: the counters and the risk buckets of the alerts, kept
  for 15 seconds. The lock admits one computation at a time; the cache is looked at before and again
  behind it, and what runs in between is an argument. The times are readings of the monotonic clock,
  in seconds.
\<close>

section \<open>State\<close>

record metrics_response =
  mr_logs_received :: int
  mr_alerts_created :: int
  mr_retries :: int
  mr_dlq_count :: int
  mr_enqueue_failures :: int
  mr_high_risk_count :: int
  mr_medium_risk_count :: int
  mr_low_risk_count :: int

record ('r, 'd) server = "('r, 'd) api" +
  metrics_cache :: "metrics_response option"
  metrics_cache_at :: rat

definition METRICS_CACHE_TTL :: rat where "METRICS_CACHE_TTL = 15"

section \<open>The computation\<close>

definition severity_counts ::
  "'d sql_conn \<Rightarrow> (('r, 'd, 'z) api_scheme, int \<times> int \<times> int) eff" where
  "severity_counts D = bindE (apiE D (Read (RiskCounts (4 / 10) (7 / 10)))) (\<lambda>r. case r of
       Answer (Scalars [high, medium, low]) \<Rightarrow> returnE (high, medium, low)
     | _ \<Rightarrow> raiseE ProtocolError)"

definition metrics_snapshot ::
  "'r redis_conn \<Rightarrow> 'd sql_conn \<Rightarrow> (('r, 'd, 'z) api_scheme, metrics_response) eff" where
  "metrics_snapshot R D =
     bindE (severity_counts D) (\<lambda>(high, medium, low).
     bindE (snapshot_async R) (\<lambda>cs. returnE
       \<lparr>mr_logs_received = dict_get_or cs ''logs_received'' 0,
        mr_alerts_created = dict_get_or cs ''alerts_created'' 0,
        mr_retries = dict_get_or cs ''retries'' 0,
        mr_dlq_count = dict_get_or cs ''dlq_count'' 0,
        mr_enqueue_failures = dict_get_or cs ''enqueue_failures'' 0,
        mr_high_risk_count = high, mr_medium_risk_count = medium, mr_low_risk_count = low\<rparr>))"

definition cached_metrics :: "rat \<Rightarrow> ('r, 'd, 'z) server_scheme \<Rightarrow> metrics_response option" where
  "cached_metrics now w = (case metrics_cache w of
       Some r \<Rightarrow> if fl (now - metrics_cache_at w) < METRICS_CACHE_TTL then Some r else None
     | None \<Rightarrow> None)"

text \<open>The computation behind the lock, after the second look at the cache.\<close>

definition recompute_metrics ::
  "'r redis_conn \<Rightarrow> 'd sql_conn \<Rightarrow> rat \<Rightarrow> (('r, 'd, 'z) server_scheme, metrics_response) eff" where
  "recompute_metrics R D now =
     bindE (metrics_snapshot R D) (\<lambda>response.
     thenE (modifyE (\<lambda>w. w\<lparr>metrics_cache := Some response, metrics_cache_at := now\<rparr>))
       (returnE response))"

definition compute_metrics_response ::
  "'r redis_conn \<Rightarrow> 'd sql_conn \<Rightarrow> rat \<Rightarrow> (('r, 'd, 'z) server_scheme \<Rightarrow> ('r, 'd, 'z) server_scheme) \<Rightarrow>
     rat \<Rightarrow> (('r, 'd, 'z) server_scheme, metrics_response) eff" where
  "compute_metrics_response R D now others now' w =
     (case cached_metrics now w of
        Some r \<Rightarrow> (Inr r, w)
      | None \<Rightarrow>
          let w' = others w in
          case cached_metrics now' w' of
            Some r \<Rightarrow> (Inr r, w')
          | None \<Rightarrow> recompute_metrics R D now' w')"

text \<open>The handler of \<open>/metrics\<close>.\<close>

definition metrics_dict :: "metrics_response \<Rightarrow> json" where
  "metrics_dict r = JObj
     [(''logs_received'', JInt (mr_logs_received r)), (''alerts_created'', JInt (mr_alerts_created r)),
      (''retries'', JInt (mr_retries r)), (''dlq_count'', JInt (mr_dlq_count r)),
      (''enqueue_failures'', JInt (mr_enqueue_failures r)),
      (''high_risk_count'', JInt (mr_high_risk_count r)),
      (''medium_risk_count'', JInt (mr_medium_risk_count r)),
      (''low_risk_count'', JInt (mr_low_risk_count r))]"

section \<open>What a response says\<close>

lemma risk_buckets_partition:
  assumes "medium \<le> high"
  shows "count_of (\<lambda>a. high \<le> alert_risk a) as + count_of (\<lambda>a. medium \<le> alert_risk a \<and> alert_risk a < high) as
    + count_of (\<lambda>a. alert_risk a < medium) as = int (length as)"
  using assms by (induction as) (auto simp: count_of_def)

text \<open>The value of a counter in Redis: a missing key is 0, and what \<open>int\<close> cannot read is an error.\<close>

definition redis_counter :: "redis_db \<Rightarrow> string \<Rightarrow> exn + int" where
  "redis_counter d k = (case rstrings d (redis_metric_prefix @ k) of
       None \<Rightarrow> Inr 0
     | Some v \<Rightarrow> (case decode_reply (RValue v) of Inl e \<Rightarrow> Inl e | Inr r \<Rightarrow> int_of_reply r))"

lemma apply_gets:
  "apply_cmds (map (\<lambda>k. GET (f k)) ks) d =
     (map (\<lambda>k. case rstrings d (f k) of None \<Rightarrow> RNil | Some v \<Rightarrow> RValue v) ks, d)"
  by (induction ks) auto

lemma ints_of_counters:
  "ints_of_replies (map (\<lambda>k. case rstrings d (redis_metric_prefix @ k) of None \<Rightarrow> RNil | Some v \<Rightarrow> RValue v) ks)
     = Inr is \<Longrightarrow> map Inr is = map (redis_counter d) ks"
proof (induction ks arbitrary: "is")
  case Nil
  then show ?case by simp
next
  case (Cons k ks)
  then show ?case
    by (auto simp: redis_counter_def decode_reply_def split: option.splits sum.splits)
qed

text \<open>The counters come from Redis, all of them, or from the memory of the process, all of them.\<close>

lemma snapshot_async_cases:
  assumes "redis_ok R view" and "snapshot_async R w = (r, w')"
  obtains "is" where "r = Inr (zip counter_keys is)" "map Inr is = map (redis_counter (db view w)) counter_keys"
  | "r = Inr (counters w)"
proof -
  let ?cs = "map (\<lambda>k. GET (redis_metric_prefix @ k)) counter_keys"
  obtain x c where R: "R ?cs (conn w) = (x, c)" by fastforce
  show thesis
  proof (cases x)
    case (Inl e)
    then have "r = Inr (counters w)"
      using assms(2) R by (simp add: snapshot_async_def effect_simps redisE_apply snapshot_def)
    then show thesis by (rule that(2))
  next
    case (Inr rs)
    have "apply_cmds ?cs (db view w) = (rs, view c)"
      using assms(1) R Inr unfolding redis_ok_def by (auto dest!: spec [of _ ?cs] spec [of _ "conn w"])
    then have rs: "rs = map (\<lambda>k. case rstrings (db view w) (redis_metric_prefix @ k) of
        None \<Rightarrow> RNil | Some v \<Rightarrow> RValue v) counter_keys"
      unfolding apply_gets by (elim Pair_inject) (erule sym)
    show thesis
    proof (cases "ints_of_replies rs")
      case (Inl e)
      then have "r = Inr (counters w)"
        using assms(2) R Inr by (simp add: snapshot_async_def effect_simps redisE_apply snapshot_def)
      then show thesis by (rule that(2))
    next
      case (Inr "is")
      then have "r = Inr (zip counter_keys is)"
        using assms(2) R \<open>x = Inr rs\<close> by (simp add: snapshot_async_def effect_simps redisE_apply)
      then show thesis by (rule that(1)) (rule ints_of_counters [OF Inr [unfolded rs]])
    qed
  qed
qed

definition mr_counters :: "metrics_response \<Rightarrow> int list" where
  "mr_counters r = [mr_logs_received r, mr_alerts_created r, mr_retries r, mr_dlq_count r, mr_enqueue_failures r]"

lemma zip_counters:
  "zip counter_keys [a, b, c, d, e] = [(''logs_received'', a), (''alerts_created'', b), (''retries'', c),
     (''dlq_count'', d), (''enqueue_failures'', e)]"
  by (simp add: counter_keys_def)

lemma read_counters:
  "dict_get [(''logs_received'', a), (''alerts_created'', b), (''retries'', c), (''dlq_count'', d),
     (''enqueue_failures'', e)] ''logs_received'' = Some a"
  "dict_get [(''logs_received'', a), (''alerts_created'', b), (''retries'', c), (''dlq_count'', d),
     (''enqueue_failures'', e)] ''alerts_created'' = Some b"
  "dict_get [(''logs_received'', a), (''alerts_created'', b), (''retries'', c), (''dlq_count'', d),
     (''enqueue_failures'', e)] ''retries'' = Some c"
  "dict_get [(''logs_received'', a), (''alerts_created'', b), (''retries'', c), (''dlq_count'', d),
     (''enqueue_failures'', e)] ''dlq_count'' = Some d"
  "dict_get [(''logs_received'', a), (''alerts_created'', b), (''retries'', c), (''dlq_count'', d),
     (''enqueue_failures'', e)] ''enqueue_failures'' = Some e"
  by (simp add: dict_get_Cons)+

lemma severity_counts_result:
  assumes "sql_ok D sview others" and "severity_counts D w = (Inr (high, medium, low), w')"
  obtains d where "others (sview (api_sql w)) d"
    and "high = count_of (\<lambda>a. 7 / 10 \<le> alert_risk a) (alerts d)"
    and "medium = count_of (\<lambda>a. 4 / 10 \<le> alert_risk a \<and> alert_risk a < 7 / 10) (alerts d)"
    and "low = count_of (\<lambda>a. alert_risk a < 4 / 10) (alerts d)"
proof -
  let ?q = "Read (RiskCounts (4 / 10) (7 / 10))"
  obtain r u where a: "apiE D ?q w = (r, u)" by fastforce
  from apiE_cases [OF this] have "D ?q (api_sql w) = (r, api_sql u)" by simp
  obtain x where x: "r = Inr x"
    using a assms(2) by (cases r) (auto simp: severity_counts_def effect_simps)
  with \<open>D ?q (api_sql w) = (r, api_sql u)\<close> obtain d where d: "others (sview (api_sql w)) d"
    and "x = Answer (answer_of (RiskCounts (4 / 10) (7 / 10)) d)"
    by (auto elim: read_answer [OF assms(1)])
  with a x assms(2) have "high = count_of (\<lambda>a. 7 / 10 \<le> alert_risk a) (alerts d)"
    "medium = count_of (\<lambda>a. 4 / 10 \<le> alert_risk a \<and> alert_risk a < 7 / 10) (alerts d)"
    "low = count_of (\<lambda>a. alert_risk a < 4 / 10) (alerts d)"
    by (simp_all add: severity_counts_def effect_simps)
  with d show thesis by (rule that)
qed

lemma severity_counts_frame:
  "severity_counts D w = (r, w') \<Longrightarrow> conn w' = conn w \<and> counters w' = counters w"
  by (auto simp: severity_counts_def effect_simps apiE_def split: prod.splits sum.splits rows.splits
      answer.splits list.splits)

text \<open>
  C31. A response is consistent: its three risk counts partition the alerts of the database as it was when it
  was read, at 0.4 and 0.7, so they add up to their number; and its five counters are all those of Redis or, when Redis
  fails or holds something that is no number, all those of the memory of this process.
\<close>

theorem metrics_response_consistent:
  fixes w :: "('r, 'd, 'z) server_scheme"
  assumes "sql_ok D sview others" and "redis_ok R view" and "recompute_metrics R D now w = (Inr r, w')"
  shows "(\<exists>d. others (sview (api_sql w)) d
      \<and> mr_high_risk_count r = count_of (\<lambda>a. 7 / 10 \<le> alert_risk a) (alerts d)
      \<and> mr_low_risk_count r = count_of (\<lambda>a. alert_risk a < 4 / 10) (alerts d)
      \<and> mr_high_risk_count r + mr_medium_risk_count r + mr_low_risk_count r = int (length (alerts d)))
    \<and> (map Inr (mr_counters r) = map (redis_counter (db view w)) counter_keys
      \<or> mr_counters r = map (\<lambda>k. get_counter k (counters w)) counter_keys)
    \<and> metrics_cache w' = Some r \<and> metrics_cache_at w' = now"
proof -
  obtain h m l u cs u' where sev: "severity_counts D w = (Inr (h, m, l), u)"
    and snap: "snapshot_async R u = (Inr cs, u')"
    and r: "r = \<lparr>mr_logs_received = dict_get_or cs ''logs_received'' 0,
        mr_alerts_created = dict_get_or cs ''alerts_created'' 0, mr_retries = dict_get_or cs ''retries'' 0,
        mr_dlq_count = dict_get_or cs ''dlq_count'' 0, mr_enqueue_failures = dict_get_or cs ''enqueue_failures'' 0,
        mr_high_risk_count = h, mr_medium_risk_count = m, mr_low_risk_count = l\<rparr>"
    and w': "metrics_cache w' = Some r" "metrics_cache_at w' = now"
    using assms(3)
    by (auto simp: recompute_metrics_def metrics_snapshot_def effect_simps split: prod.splits sum.splits)
  obtain d where d: "others (sview (api_sql w)) d"
    and n: "h = count_of (\<lambda>a. 7 / 10 \<le> alert_risk a) (alerts d)"
      "m = count_of (\<lambda>a. 4 / 10 \<le> alert_risk a \<and> alert_risk a < 7 / 10) (alerts d)"
      "l = count_of (\<lambda>a. alert_risk a < 4 / 10) (alerts d)"
    by (rule severity_counts_result [OF assms(1) sev])
  have sum: "h + m + l = int (length (alerts d))"
    unfolding n by (rule risk_buckets_partition) simp
  have u: "conn u = conn w" "counters u = counters w" using severity_counts_frame [OF sev] by simp_all
  have "map Inr (mr_counters r) = map (redis_counter (db view w)) counter_keys
      \<or> mr_counters r = map (\<lambda>k. get_counter k (counters w)) counter_keys"
  proof (rule snapshot_async_cases [OF assms(2) snap])
    fix "is"
    assume cs: "Inr cs = Inr (zip counter_keys is)" and "map Inr is = map (redis_counter (db view u)) counter_keys"
    moreover from this have "length is = 5" using arg_cong [of _ _ length] by (fastforce simp: counter_keys_def)
    then obtain a b c d e where "is = [a, b, c, d, e]" by (auto simp: length_Suc_conv numeral_eq_Suc)
    ultimately have "mr_counters r = is"
      by (simp add: r mr_counters_def zip_counters dict_get_or_def read_counters)
    with \<open>map Inr is = _\<close> show ?thesis unfolding u by simp
  next
    assume "Inr cs = Inr (counters u)"
    then show ?thesis by (simp add: r mr_counters_def counter_keys_def get_counter_def u)
  qed
  with d n sum w' show ?thesis by (auto simp: r)
qed

definition scored_alert :: "string \<Rightarrow> string \<Rightarrow> rat \<Rightarrow> instant \<Rightarrow> alert_row" where
  "scored_alert u sev x t = \<lparr>alert_key = u, alert_log = u, alert_severity = sev, alert_reason = ''r'',
     alert_risk = x, alert_breakdown = [], alert_type = ''t'', alert_created = t\<rparr>"

definition sample_server :: "(redis_db, sql_db) server" where
  "sample_server = \<lparr>conn = set_string ''sentinel:metrics:retries'' (Text (JInt 4)) None empty_db,
     counters = initial_counters,
     api_sql = \<lparr>logs = [], alerts = [scored_alert ''a'' ''HIGH'' (8 / 10) 0, scored_alert ''b'' ''LOW'' (5 / 10) 0]\<rparr>,
     metrics_cache = None, metrics_cache_at = 0\<rparr>"

lemma sample_recompute:
  "\<exists>w'. recompute_metrics mem_redis mem_sql 7 sample_server = (Inr
    \<lparr>mr_logs_received = 0, mr_alerts_created = 0, mr_retries = 4, mr_dlq_count = 0, mr_enqueue_failures = 0,
     mr_high_risk_count = 1, mr_medium_risk_count = 1, mr_low_risk_count = 0\<rparr>, w')"
proof -
  have "fst (snapshot_async mem_redis sample_server) = Inr
    [(''logs_received'', 0), (''alerts_created'', 0), (''retries'', 4), (''dlq_count'', 0), (''enqueue_failures'', 0)]"
    by code_simp
  then obtain u where c: "snapshot_async mem_redis sample_server = (Inr
    [(''logs_received'', 0), (''alerts_created'', 0), (''retries'', 4), (''dlq_count'', 0),
     (''enqueue_failures'', 0)], u)"
    by (cases "snapshot_async mem_redis sample_server") simp
  have "severity_counts mem_sql sample_server = (Inr (1, 1, 0), sample_server)"
    by (simp add: severity_counts_def effect_simps apiE_def mem_sql_def sample_server_def scored_alert_def
        count_of_def)
  with c show ?thesis
    by (simp add: recompute_metrics_def metrics_snapshot_def effect_simps dict_get_or_def read_counters)
qed

lemma metrics_response_consistent_witness:
  "\<exists>r w'. recompute_metrics mem_redis mem_sql 7 sample_server = (Inr r, w')
    \<and> mr_high_risk_count r + mr_medium_risk_count r + mr_low_risk_count r = 2"
proof -
  obtain w' where "recompute_metrics mem_redis mem_sql 7 sample_server = (Inr
    \<lparr>mr_logs_received = 0, mr_alerts_created = 0, mr_retries = 4, mr_dlq_count = 0, mr_enqueue_failures = 0,
     mr_high_risk_count = 1, mr_medium_risk_count = 1, mr_low_risk_count = 0\<rparr>, w')"
    using sample_recompute by blast
  note r = this
  from metrics_response_consistent [OF sql_ok_mem redis_ok_mem r] r show ?thesis
    by (auto simp: sample_server_def)
qed

section \<open>The cache\<close>

text \<open>
  The machine of all who ask: everything else that happens leaves the cache alone; a caller that gets
  past both looks computes, and either stores the response or fails. Besides the state there are the
  clock and, for the record, the computations that returned, newest first.
\<close>

inductive metrics_step ::
  "'r redis_conn \<Rightarrow> 'd sql_conn \<Rightarrow> ('r, 'd, 'z) server_scheme \<times> rat \<times> (rat \<times> metrics_response) list \<Rightarrow>
     ('r, 'd, 'z) server_scheme \<times> rat \<times> (rat \<times> metrics_response) list \<Rightarrow> bool" for R D where
  others: "clock \<le> t \<Longrightarrow> metrics_cache w' = metrics_cache w \<Longrightarrow> metrics_cache_at w' = metrics_cache_at w \<Longrightarrow>
    metrics_step R D (w, clock, scans) (w', t, scans)"
| computes: "clock \<le> t \<Longrightarrow> cached_metrics t w = None \<Longrightarrow> recompute_metrics R D t w = (Inr r, w') \<Longrightarrow>
    metrics_step R D (w, clock, scans) (w', t, (t, r) # scans)"
| fails: "clock \<le> t \<Longrightarrow> cached_metrics t w = None \<Longrightarrow> recompute_metrics R D t w = (Inl e, w') \<Longrightarrow>
    metrics_step R D (w, clock, scans) (w', t, scans)"

inductive metrics_reachable ::
  "'r redis_conn \<Rightarrow> 'd sql_conn \<Rightarrow> ('r, 'd, 'z) server_scheme \<times> rat \<times> (rat \<times> metrics_response) list \<Rightarrow> bool"
  for R D where
  start: "metrics_cache w = None \<Longrightarrow> metrics_reachable R D (w, clock, [])"
| step: "metrics_reachable R D s \<Longrightarrow> metrics_step R D s t \<Longrightarrow> metrics_reachable R D t"

definition cache_inv :: "('r, 'd, 'z) server_scheme \<times> rat \<times> (rat \<times> metrics_response) list \<Rightarrow> bool" where
  "cache_inv s \<longleftrightarrow> (case s of (w, clock, scans) \<Rightarrow>
     (case scans of
        [] \<Rightarrow> metrics_cache w = None
      | (t, r) # _ \<Rightarrow> metrics_cache w = Some r \<and> metrics_cache_at w = t)
     \<and> (\<forall>(t, r) \<in> set scans. t \<le> clock)
     \<and> sorted_wrt (\<lambda>(t, _) (t', _). METRICS_CACHE_TTL \<le> fl (t - t')) scans)"

lemma recompute_stores:
  "recompute_metrics R D t w = (Inr r, w') \<Longrightarrow> metrics_cache w' = Some r \<and> metrics_cache_at w' = t"
  by (auto simp: recompute_metrics_def effect_simps split: prod.splits sum.splits)

lemma severity_counts_server:
  fixes w :: "('r, 'd, 'z) server_scheme"
  assumes "severity_counts D w = (r, w')"
  shows "metrics_cache w' = metrics_cache w \<and> metrics_cache_at w' = metrics_cache_at w"
  using assms
  by (auto simp: severity_counts_def effect_simps apiE_def split: prod.splits sum.splits rows.splits
      answer.splits list.splits)

lemma redis_only_snapshot: "redis_only (snapshot_async R)"
proof (rule redis_onlyI)
  fix w :: "('a, 'b) env_scheme"
  obtain x c where R: "R (map (\<lambda>k. GET (redis_metric_prefix @ k)) counter_keys) (conn w) = (x, c)" by fastforce
  have "snd (snapshot_async R w) = w\<lparr>conn := c\<rparr>"
    by (auto simp: snapshot_async_def effect_simps redisE_apply R split: sum.splits)
  then show "\<exists>c k. snd (snapshot_async R w) = w\<lparr>conn := c, counters := k\<rparr>"
    by (intro exI [of _ c] exI [of _ "counters w"]) simp
qed

text \<open>Only the database can make a computation fail, and then the cache stays as it was.\<close>

lemma recompute_failed_keeps:
  fixes w :: "('r, 'd, 'z) server_scheme"
  assumes "redis_ok R view" and "recompute_metrics R D t w = (Inl e, w')"
  shows "metrics_cache w' = metrics_cache w \<and> metrics_cache_at w' = metrics_cache_at w"
proof -
  obtain x u where sev: "severity_counts D w = (x, u)" by fastforce
  show ?thesis
  proof (cases x)
    case (Inl e')
    with assms(2) sev have "w' = u" by (simp add: recompute_metrics_def metrics_snapshot_def effect_simps)
    with severity_counts_server [OF sev] show ?thesis by simp
  next
    case (Inr y)
    obtain z u' where snap: "snapshot_async R u = (z, u')" by fastforce
    have "\<exists>cs. z = Inr cs" by (rule snapshot_async_cases [OF assms(1) snap]) auto
    with assms(2) sev Inr snap have False
      by (auto simp: recompute_metrics_def metrics_snapshot_def effect_simps split: prod.splits)
    then show ?thesis ..
  qed
qed

lemma cache_inv_step:
  assumes "redis_ok R view" and "metrics_step R D s t" and "cache_inv s"
  shows "cache_inv t"
  using assms(2,3)
proof cases
  case (others clock t w' w scans)
  with assms(3) show ?thesis by (fastforce simp: cache_inv_def split: list.splits)
next
  case (computes clock t w r w' scans)
  have "METRICS_CACHE_TTL \<le> fl (t - t')" if "(t', r') \<in> set scans" for t' r'
  proof (cases scans)
    case (Cons p rest)
    then obtain t0 r0 where p: "p = (t0, r0)" by (cases p)
    with assms(3) computes(1) Cons have "metrics_cache w = Some r0" "metrics_cache_at w = t0"
      and gap: "\<forall>(t', r') \<in> set rest. METRICS_CACHE_TTL \<le> fl (t0 - t')" and "t0 \<le> clock"
      by (auto simp: cache_inv_def)
    with computes(4) have new: "METRICS_CACHE_TTL \<le> fl (t - t0)"
      by (simp add: cached_metrics_def split: if_splits)
    have "fl (t0 - t') \<le> fl (t - t')" using \<open>t0 \<le> clock\<close> computes(3) by (intro fl_mono) simp
    with that Cons p new gap show ?thesis by fastforce
  qed (use that in simp)
  with assms(3) computes recompute_stores [OF computes(5)] show ?thesis
    by (fastforce simp: cache_inv_def)
next
  case (fails clock t w e w' scans)
  with assms(3) recompute_failed_keeps [OF assms(1) fails(5)] show ?thesis
    by (fastforce simp: cache_inv_def split: list.splits)
qed

lemma cache_inv_reachable: "metrics_reachable R D s \<Longrightarrow> redis_ok R view \<Longrightarrow> cache_inv s"
proof (induction rule: metrics_reachable.induct)
  case (start w clock)
  then show ?case by (simp add: cache_inv_def)
next
  case (step s t)
  then show ?case using cache_inv_step by blast
qed



text \<open>A call is steps of the machine: it is served, or waits and is served, or waits and computes.\<close>

lemma compute_metrics_cases:
  assumes "compute_metrics_response R D now others now' w = (x, w')"
  shows "(\<exists>r. x = Inr r \<and> cached_metrics now w = Some r \<and> w' = w)
    \<or> (\<exists>r. x = Inr r \<and> cached_metrics now' (others w) = Some r \<and> w' = others w)
    \<or> cached_metrics now' (others w) = None \<and> recompute_metrics R D now' (others w) = (x, w')"
  using assms by (auto simp: compute_metrics_response_def Let_def split: option.splits)

end
