(* ===== verification/Realtime.thy ===== *)
theory Realtime
  imports QueueFifo AccessControl
begin

text \<open>
  \<open>app/realtime/connection_manager.py\<close>: the queues and sender tasks of the dashboard's websockets. A
  websocket is a number; every connection makes a queue of its own, also a number, and a task that
  sends from it. The code between two \<open>await\<close>s is a step; a broadcast is the step that offers the
  message to every queue, followed by a disconnect for each websocket whose queue was full, and other
  steps may come in between.
\<close>

section \<open>Queues\<close>

text \<open>\<open>asyncio.Queue(maxsize)\<close>: the contents, oldest first; a \<open>maxsize\<close> of 0 is no limit.\<close>

definition is_full :: "nat \<Rightarrow> 'a list \<Rightarrow> bool" where
  "is_full maxsize q \<longleftrightarrow> 0 < maxsize \<and> maxsize \<le> length q"

definition put_nowait :: "nat \<Rightarrow> 'a \<Rightarrow> 'a list \<Rightarrow> 'a list" where
  "put_nowait maxsize x q = (if is_full maxsize q then q else q @ [x])"

definition get_queue :: "'a list \<Rightarrow> 'a option \<times> 'a list" where
  "get_queue q = (case q of [] \<Rightarrow> (None, []) | x # xs \<Rightarrow> (Some x, xs))"

definition QUEUE_SIZE :: nat where "QUEUE_SIZE = 128"

interpretation dashboard_queue: bounded_fifo "put_nowait QUEUE_SIZE" get_queue "\<lambda>q. q" "\<lambda>_. True" QUEUE_SIZE
  by unfold_locales (auto simp: put_nowait_def get_queue_def is_full_def QUEUE_SIZE_def split: list.splits)

text \<open>So what is offered to the queue of a dashboard while it has room is taken out in order.\<close>

lemma dashboard_queue_order:
  "length xs \<le> QUEUE_SIZE \<Longrightarrow> drain get_queue (length xs) (fold (put_nowait QUEUE_SIZE) xs []) = map Some xs"
  by (rule dashboard_queue.first_in_first_out) simp_all

section \<open>State\<close>

text \<open>A task waits for a message, is sending one, or has ended.\<close>

datatype sender_task = Waiting | Sending json | Ended

record manager =
  connections :: "(nat \<times> nat) list"
  queues :: "nat \<Rightarrow> json list"
  sender_tasks :: "nat \<Rightarrow> sender_task"
  socket_of :: "nat \<Rightarrow> nat"
  delivered :: "nat \<Rightarrow> json list"
  next_queue :: nat
  maxsize :: nat

definition new_manager :: "nat \<Rightarrow> manager" where
  "new_manager limit = \<lparr>connections = [], queues = (\<lambda>_. []), sender_tasks = (\<lambda>_. Ended), socket_of = (\<lambda>_. 0),
     delivered = (\<lambda>_. []), next_queue = 0, maxsize = limit\<rparr>"

section \<open>Operations\<close>

text \<open>\<open>connect\<close>, when the websocket accepted; \<open>dashboard_ws\<close> calls it once for each websocket.\<close>

definition connect :: "nat \<Rightarrow> manager \<Rightarrow> manager" where
  "connect ws m = (let q = next_queue m in
     m\<lparr>connections := AList.update ws q (connections m), queues := (queues m)(q := []),
       sender_tasks := (sender_tasks m)(q := Waiting), socket_of := (socket_of m)(q := ws),
       delivered := (delivered m)(q := []), next_queue := q + 1\<rparr>)"

text \<open>\<open>disconnect\<close>: the entry is removed and its task cancelled.\<close>

definition disconnect :: "nat \<Rightarrow> manager \<Rightarrow> manager" where
  "disconnect ws m = (case map_of (connections m) ws of
       None \<Rightarrow> m
     | Some q \<Rightarrow> m\<lparr>connections := AList.delete ws (connections m), sender_tasks := (sender_tasks m)(q := Ended)\<rparr>)"

text \<open>The first loop of \<open>broadcast\<close>: the websockets whose queues are full, and the rest served.\<close>

fun offer_all :: "json \<Rightarrow> (nat \<times> nat) list \<Rightarrow> manager \<Rightarrow> nat list \<times> manager" where
  "offer_all message [] m = ([], m)"
| "offer_all message ((ws, q) # items) m =
     (if is_full (maxsize m) (queues m q)
      then (case offer_all message items m of (slow, m') \<Rightarrow> (ws # slow, m'))
      else offer_all message items (m\<lparr>queues := (queues m)(q := queues m q @ [message])\<rparr>))"

text \<open>A whole broadcast, when nothing comes in between.\<close>

definition broadcast :: "json \<Rightarrow> manager \<Rightarrow> manager" where
  "broadcast message m = (case offer_all message (connections m) m of (slow, m') \<Rightarrow> fold disconnect slow m')"

text \<open>
  The steps of \<open>_sender\<close>: it takes a message, the message is sent, or sending raises (the client is
  gone, or too slow); then the entry is removed if it is still the one of this queue.
\<close>

definition sender_takes :: "nat \<Rightarrow> manager \<Rightarrow> manager" where
  "sender_takes q m = (case (sender_tasks m q, queues m q) of
       (Waiting, payload # rest) \<Rightarrow>
         m\<lparr>queues := (queues m)(q := rest), sender_tasks := (sender_tasks m)(q := Sending payload)\<rparr>
     | _ \<Rightarrow> m)"

definition sender_sent :: "nat \<Rightarrow> manager \<Rightarrow> manager" where
  "sender_sent q m = (case sender_tasks m q of
       Sending payload \<Rightarrow> m\<lparr>sender_tasks := (sender_tasks m)(q := Waiting),
         delivered := (delivered m)(q := delivered m q @ [payload])\<rparr>
     | _ \<Rightarrow> m)"

definition sender_fails :: "nat \<Rightarrow> manager \<Rightarrow> manager" where
  "sender_fails q m = (case sender_tasks m q of
       Sending _ \<Rightarrow> m\<lparr>sender_tasks := (sender_tasks m)(q := Ended),
         connections := (if map_of (connections m) (socket_of m q) = Some q
           then AList.delete (socket_of m q) (connections m) else connections m)\<rparr>
     | _ \<Rightarrow> m)"

text \<open>
  \<open>dashboard_ws\<close>: the key is checked before the websocket is connected; the handler then waits for
  texts until the client is gone. Only \<open>WebSocketDisconnect\<close> is caught, so after any other exception
  the entry stays until a send to it fails.
\<close>

definition dashboard_ws_opens ::
  "settings \<Rightarrow> string option \<Rightarrow> string option \<Rightarrow> nat \<Rightarrow> manager \<Rightarrow> (exn + unit) \<times> manager" where
  "dashboard_ws_opens cfg header query ws m = (case verify_api_key_ws cfg header query of
       Inl e \<Rightarrow> (Inl e, m)
     | Inr _ \<Rightarrow> (Inr (), connect ws m))"

definition dashboard_ws_ends :: "exn \<Rightarrow> nat \<Rightarrow> manager \<Rightarrow> (exn + unit) \<times> manager" where
  "dashboard_ws_ends e ws m = (case e of
       WebSocketDisconnect _ \<Rightarrow> (Inr (), disconnect ws m)
     | _ \<Rightarrow> (Inl e, m))"

section \<open>The machine\<close>

text \<open>
  The state of the machine: the manager, the websockets that a broadcast has found full and not yet
  disconnected, and, for the record, what was broadcast to each queue while it was registered.
\<close>

type_synonym dashboard = "manager \<times> nat set \<times> (nat \<Rightarrow> json list)"

definition offered_to :: "manager \<Rightarrow> json \<Rightarrow> (nat \<Rightarrow> json list) \<Rightarrow> nat \<Rightarrow> json list" where
  "offered_to m message h q = (if q \<in> snd ` set (connections m) then h q @ [message] else h q)"

inductive dashboard_step :: "dashboard \<Rightarrow> dashboard \<Rightarrow> bool" where
  connects: "\<forall>q < next_queue m. socket_of m q \<noteq> ws \<Longrightarrow>
    dashboard_step (m, slow, h) (connect ws m, slow, h(next_queue m := []))"
| offers: "offer_all message (connections m) m = (full, m') \<Longrightarrow>
    dashboard_step (m, slow, h) (m', slow \<union> set full, offered_to m message h)"
| disconnects: "dashboard_step (m, slow, h) (disconnect ws m, slow - {ws}, h)"
| takes: "dashboard_step (m, slow, h) (sender_takes q m, slow, h)"
| sends: "dashboard_step (m, slow, h) (sender_sent q m, slow, h)"
| fails: "dashboard_step (m, slow, h) (sender_fails q m, slow, h)"

inductive dashboard_reachable :: "nat \<Rightarrow> dashboard \<Rightarrow> bool" for limit where
  start: "dashboard_reachable limit (new_manager limit, {}, \<lambda>_. [])"
| step: "dashboard_reachable limit s \<Longrightarrow> dashboard_step s t \<Longrightarrow> dashboard_reachable limit t"

inductive_cases dashboard_stepE: "dashboard_step (m, slow, h) t"

section \<open>What every dashboard receives\<close>

lemma offer_all_effect:
  assumes "offer_all message items m = (full, m')" and "distinct (map snd items)"
  shows "connections m' = connections m \<and> maxsize m' = maxsize m \<and> sender_tasks m' = sender_tasks m
    \<and> socket_of m' = socket_of m \<and> delivered m' = delivered m \<and> next_queue m' = next_queue m
    \<and> (\<forall>q. queues m' q = (if q \<in> snd ` set items \<and> \<not> is_full (maxsize m) (queues m q)
          then queues m q @ [message] else queues m q))
    \<and> set full = {ws. \<exists>q. (ws, q) \<in> set items \<and> is_full (maxsize m) (queues m q)}"
  using assms
proof (induction items arbitrary: m full)
  case Nil
  then show ?case by auto
next
  case (Cons it items)
  obtain ws q where it: "it = (ws, q)" by fastforce
  have q: "q \<notin> snd ` set items" "distinct (map snd items)" using Cons.prems(2) it by auto
  show ?case
  proof (cases "is_full (maxsize m) (queues m q)")
    case True
    with Cons.prems(1) it obtain f where 1: "offer_all message items m = (f, m')" and f: "full = ws # f"
      by (auto split: prod.splits)
    from Cons.IH [OF 1 q(2)] show ?thesis using True q(1) by (auto simp: it f)
  next
    case False
    let ?m = "m\<lparr>queues := (queues m)(q := queues m q @ [message])\<rparr>"
    have 1: "offer_all message items ?m = (full, m')" using Cons.prems(1) False by (simp add: it)
    have other: "\<And>w p. (w, p) \<in> set items \<Longrightarrow> p \<noteq> q" using q(1) by force
    from Cons.IH [OF 1 q(2)] show ?thesis using False q(1) other by (auto simp: it)
  qed
qed

text \<open>What was sent from a queue, is being sent, or waits.\<close>

definition flow :: "manager \<Rightarrow> nat \<Rightarrow> json list" where
  "flow m q = delivered m q @ (case sender_tasks m q of Sending p \<Rightarrow> [p] | _ \<Rightarrow> []) @ queues m q"

definition dashboard_inv :: "nat \<Rightarrow> dashboard \<Rightarrow> bool" where
  "dashboard_inv limit s \<longleftrightarrow> (case s of (m, slow, h) \<Rightarrow>
     maxsize m = limit \<and> distinct (map fst (connections m))
     \<and> (\<forall>(ws, q) \<in> set (connections m). q < next_queue m \<and> socket_of m q = ws \<and> sender_tasks m q \<noteq> Ended
          \<and> (ws \<notin> slow \<longrightarrow> flow m q = h q))
     \<and> (\<forall>q. (0 < limit \<longrightarrow> length (queues m q) \<le> limit) \<and> subseq (flow m q) (h q)))"

lemma socket_of_entry:
  "dashboard_inv limit (m, slow, h) \<Longrightarrow> (ws, q) \<in> set (connections m) \<Longrightarrow> socket_of m q = ws"
  by (auto simp: dashboard_inv_def)

lemma connections_queues_distinct:
  assumes "dashboard_inv limit (m, slow, h)"
  shows "distinct (map snd (connections m))"
proof -
  have "inj_on snd (set (connections m))"
  proof (rule inj_onI)
    fix x y
    assume "x \<in> set (connections m)" "y \<in> set (connections m)" "snd x = snd y"
    moreover have "socket_of m (snd z) = fst z" if "z \<in> set (connections m)" for z
      using socket_of_entry [OF assms, of "fst z" "snd z"] that by simp
    ultimately show "x = y" by (metis prod_eq_iff)
  qed
  moreover have "distinct (connections m)"
    using assms by (simp add: dashboard_inv_def distinct_map)
  ultimately show ?thesis by (simp add: distinct_map)
qed

lemma flow_update:
  "flow (m\<lparr>connections := c\<rparr>) q = flow m q"
  "q \<noteq> p \<Longrightarrow> flow (m\<lparr>sender_tasks := (sender_tasks m)(p := t)\<rparr>) q = flow m q"
  by (simp_all add: flow_def)

lemma inv_offer:
  assumes "dashboard_inv limit (m, slow, h)" and "offer_all message (connections m) m = (full, m')"
  shows "dashboard_inv limit (m', slow \<union> set full, offered_to m message h)"
proof -
  note d = connections_queues_distinct [OF assms(1)]
  note e = offer_all_effect [OF assms(2) d]
  have fl: "flow m' q = (if q \<in> snd ` set (connections m) \<and> \<not> is_full limit (queues m q)
      then flow m q @ [message] else flow m q)" for q
    using e assms(1) by (simp add: flow_def dashboard_inv_def)
  have "(0 < limit \<longrightarrow> length (queues m' q) \<le> limit) \<and> subseq (flow m' q) (offered_to m message h q)" for q
  proof -
    have "0 < limit \<longrightarrow> length (queues m q) \<le> limit" "subseq (flow m q) (h q)" "maxsize m = limit"
      using assms(1) by (auto simp: dashboard_inv_def)
    then show ?thesis
      using e unfolding fl
      by (auto simp: offered_to_def is_full_def intro: list_emb_append2 subseq_order.trans)
  qed
  moreover have "flow m' q = offered_to m message h q"
    if "(ws, q) \<in> set (connections m)" "ws \<notin> slow \<union> set full" for ws q
  proof -
    have "flow m q = h q" "maxsize m = limit" using that assms(1) by (auto simp: dashboard_inv_def)
    moreover have "\<not> is_full (maxsize m) (queues m q)" using that e by auto
    ultimately show ?thesis using that(1) unfolding fl by (force simp: offered_to_def)
  qed
  ultimately show ?thesis using e assms(1) by (auto simp: dashboard_inv_def)
qed

text \<open>A step that touches one queue only, and gives up its entry or keeps what flows through it.\<close>

lemma inv_entry_removed:
  assumes "dashboard_inv limit (m, slow, h)" and "map_of (connections m) ws = Some q"
    and "connections m' = AList.delete ws (connections m)" and "maxsize m' = maxsize m"
    and "socket_of m' = socket_of m" and "next_queue m' = next_queue m" and "queues m' = queues m"
    and "\<And>p. p \<noteq> q \<Longrightarrow> sender_tasks m' p = sender_tasks m p" and "delivered m' = delivered m"
    and "subseq (flow m' q) (flow m q)" and "slow - {ws} \<subseteq> slow'"
  shows "dashboard_inv limit (m', slow', h)"
proof -
  have conns: "set (connections m') = {(w, p) \<in> set (connections m). w \<noteq> ws}"
    by (auto simp: assms(3) AList.delete_eq)
  have dist: "distinct (map fst (connections m'))"
    using assms(1) by (simp add: assms(3) dashboard_inv_def distinct_delete)
  have other: "p \<noteq> q" if "(w, p) \<in> set (connections m')" for w p
  proof
    assume "p = q"
    with that conns have "(w, q) \<in> set (connections m)" "w \<noteq> ws" by auto
    moreover have "(ws, q) \<in> set (connections m)" using assms(2) by (rule map_of_SomeD)
    ultimately show False using socket_of_entry [OF assms(1)] by blast
  qed
  have same: "flow m' p = flow m p" if "p \<noteq> q" for p
    using that assms(7-9) by (simp add: flow_def)
  have "subseq (flow m' p) (h p)" for p
    using same [of p] assms(1,10) by (cases "p = q") (auto simp: dashboard_inv_def intro: subseq_order.trans)
  then show ?thesis
    using assms(1,4-8,11) conns dist other same by (fastforce simp: dashboard_inv_def)
qed

lemma inv_disconnect:
  assumes "dashboard_inv limit (m, slow, h)"
  shows "dashboard_inv limit (disconnect ws m, slow - {ws}, h)"
proof (cases "map_of (connections m) ws")
  case None
  then have "ws \<notin> fst ` set (connections m)" by (simp add: map_of_eq_None_iff)
  with assms None show ?thesis by (force simp: dashboard_inv_def disconnect_def)
next
  case (Some q)
  show ?thesis
    by (rule inv_entry_removed [OF assms Some])
      (auto simp: disconnect_def Some flow_def split: sender_task.splits intro: list_emb_append_mono)
qed

lemma inv_fails:
  assumes "dashboard_inv limit (m, slow, h)"
  shows "dashboard_inv limit (sender_fails q m, slow, h)"
proof (cases "sender_tasks m q")
  case (Sending p)
  show ?thesis
  proof (cases "map_of (connections m) (socket_of m q) = Some q")
    case True
    show ?thesis
      by (rule inv_entry_removed [OF assms True])
        (auto simp: sender_fails_def Sending True flow_def intro: list_emb_append_mono)
  next
    case False
    let ?m = "m\<lparr>sender_tasks := (sender_tasks m)(q := Ended)\<rparr>"
    have eq: "sender_fails q m = ?m" using False by (simp add: sender_fails_def Sending)
    have "(ws, q) \<notin> set (connections m)" for ws
      using assms False by (auto simp: dashboard_inv_def)
    moreover have "subseq (flow ?m p) (h p)" for p
    proof -
      have "subseq (flow ?m p) (flow m p)"
        by (cases "p = q") (auto simp: flow_def Sending intro: list_emb_append_mono)
      moreover have "subseq (flow m p) (h p)" using assms by (simp add: dashboard_inv_def)
      ultimately show ?thesis by (rule subseq_order.trans)
    qed
    ultimately show ?thesis
      using assms unfolding eq dashboard_inv_def by (auto simp: flow_update(2))
  qed
qed (simp_all add: sender_fails_def assms)

lemma update_new_key: "k \<notin> fst ` set al \<Longrightarrow> AList.update k v al = al @ [(k, v)]"
  by (induction al) auto

lemma inv_connect:
  assumes "dashboard_inv limit (m, slow, h)" and "\<forall>q < next_queue m. socket_of m q \<noteq> ws"
  shows "dashboard_inv limit (connect ws m, slow, h(next_queue m := []))"
proof -
  have new: "ws \<notin> fst ` set (connections m)" using assms by (force simp: dashboard_inv_def)
  note up = update_new_key [OF new]
  have "q \<noteq> next_queue m" if "(w, q) \<in> set (connections m)" for w q
    using assms(1) that by (auto simp: dashboard_inv_def)
  then show ?thesis
    using assms(1) new unfolding dashboard_inv_def connect_def Let_def up
    by (fastforce simp: flow_def)
qed

lemma inv_takes:
  assumes "dashboard_inv limit (m, slow, h)"
  shows "dashboard_inv limit (sender_takes q m, slow, h)"
proof (cases "sender_tasks m q = Waiting \<and> queues m q \<noteq> []")
  case True
  then obtain x xs where q: "sender_tasks m q = Waiting" "queues m q = x # xs" by (cases "queues m q") auto
  let ?m = "m\<lparr>queues := (queues m)(q := xs), sender_tasks := (sender_tasks m)(q := Sending x)\<rparr>"
  have eq: "sender_takes q m = ?m" by (simp add: sender_takes_def q)
  have fl: "flow ?m p = flow m p" for p by (simp add: flow_def q)
  have "0 < limit \<longrightarrow> length (queues m p) \<le> limit" for p
    using assms by (simp add: dashboard_inv_def)
  from this [of q] this have "0 < limit \<longrightarrow> length (queues ?m p) \<le> limit" for p
    by (cases "p = q") (auto simp: q)
  then show ?thesis using assms unfolding eq dashboard_inv_def by (auto simp: fl)
next
  case False
  then have "sender_takes q m = m"
    by (auto simp: sender_takes_def split: sender_task.splits list.splits)
  with assms show ?thesis by simp
qed

lemma inv_sends:
  assumes "dashboard_inv limit (m, slow, h)"
  shows "dashboard_inv limit (sender_sent q m, slow, h)"
proof (cases "sender_tasks m q")
  case (Sending x)
  let ?m = "m\<lparr>sender_tasks := (sender_tasks m)(q := Waiting), delivered := (delivered m)(q := delivered m q @ [x])\<rparr>"
  have eq: "sender_sent q m = ?m" by (simp add: sender_sent_def Sending)
  have "flow ?m p = flow m p" for p by (simp add: flow_def Sending)
  then show ?thesis using assms unfolding eq dashboard_inv_def by auto
qed (simp_all add: sender_sent_def assms)

lemma inv_step: "dashboard_step s t \<Longrightarrow> dashboard_inv limit s \<Longrightarrow> dashboard_inv limit t"
  by (induction rule: dashboard_step.induct)
    (simp_all add: inv_connect inv_offer inv_disconnect inv_takes inv_sends inv_fails)

lemma inv_reachable: "dashboard_reachable limit s \<Longrightarrow> dashboard_inv limit s"
proof (induction rule: dashboard_reachable.induct)
  case start
  show ?case by (simp add: dashboard_inv_def new_manager_def flow_def)
next
  case (step s t)
  then show ?case using inv_step by blast
qed

text \<open>
  C13. What a dashboard receives: in every reachable state, over every interleaving of connections,
  broadcasts, disconnections and senders, no queue is longer than its limit, what was sent from a
  queue is a selection of what was broadcast to it, in order and each message at most once; and as
  long as the websocket is registered and no broadcast found its queue full, nothing is left out:
  what was sent, what is being sent and what waits are together exactly what was broadcast to it.
\<close>

theorem dashboard_receives_in_order:
  assumes "dashboard_reachable limit (m, slow, h)"
  shows "(0 < limit \<longrightarrow> length (queues m q) \<le> limit) \<and> subseq (delivered m q) (h q)
    \<and> ((ws, q) \<in> set (connections m) \<and> ws \<notin> slow \<longrightarrow> sender_tasks m q \<noteq> Ended \<and> h q =
        delivered m q @ (case sender_tasks m q of Sending p \<Rightarrow> [p] | _ \<Rightarrow> []) @ queues m q)"
proof -
  have i: "dashboard_inv limit (m, slow, h)" by (rule inv_reachable [OF assms])
  have "subseq (delivered m q) (flow m q)"
    unfolding flow_def by (rule prefix_imp_subseq) simp
  moreover have "subseq (flow m q) (h q)" using i by (simp add: dashboard_inv_def)
  ultimately have "subseq (delivered m q) (h q)" by (rule subseq_order.trans)
  then show ?thesis using i by (auto simp: dashboard_inv_def flow_def)
qed

text \<open>A dashboard connects, two messages are broadcast to it, and its task takes the first.\<close>

definition sample_dashboard :: manager where
  "sample_dashboard = sender_takes 0 (snd (offer_all (JInt 2) [(7, 0)]
     (snd (offer_all (JInt 1) [(7, 0)] (connect 7 (new_manager 2))))))"

lemma dashboard_receives_in_order_witness:
  "dashboard_reachable 2 (sample_dashboard, {}, (\<lambda>_. [])(0 := [JInt 1, JInt 2]))
    \<and> connections sample_dashboard = [(7, 0)] \<and> sender_tasks sample_dashboard 0 = Sending (JInt 1)
    \<and> [JInt 1, JInt 2] = delivered sample_dashboard 0 @ [JInt 1] @ queues sample_dashboard 0"
proof -
  let ?m = sample_dashboard
  let ?m1 = "connect 7 (new_manager 2)"
  let ?m2 = "snd (offer_all (JInt 1) [(7, 0)] ?m1)"
  let ?m3 = "snd (offer_all (JInt 2) [(7, 0)] ?m2)"
  have 1: "dashboard_reachable 2 (?m1, {}, \<lambda>_. [])"
  proof (rule dashboard_reachable.step [OF dashboard_reachable.start])
    have "dashboard_step (new_manager 2, {}, \<lambda>_. []) (?m1, {}, (\<lambda>_. [])(next_queue (new_manager 2) := []))"
      by (rule dashboard_step.connects) (simp add: new_manager_def)
    moreover have "(\<lambda>_. [])(next_queue (new_manager 2) := []) = (\<lambda>_. [] :: json list)" by auto
    ultimately show "dashboard_step (new_manager 2, {}, \<lambda>_. []) (?m1, {}, \<lambda>_. [])" by simp
  qed
  have c1: "connections ?m1 = [(7, 0)]" "maxsize ?m1 = 2" "queues ?m1 0 = []"
    "delivered ?m1 0 = []" "sender_tasks ?m1 0 = Waiting"
    by (simp_all add: connect_def new_manager_def Let_def)
  have o1: "offer_all (JInt 1) (connections ?m1) ?m1 = ([], ?m2)"
    by (simp add: c1 is_full_def)
  have c2: "connections ?m2 = [(7, 0)]" "maxsize ?m2 = 2" "queues ?m2 0 = [JInt 1]"
    "delivered ?m2 0 = []" "sender_tasks ?m2 0 = Waiting"
    by (simp_all add: c1 is_full_def)
  have o2: "offer_all (JInt 2) (connections ?m2) ?m2 = ([], ?m3)"
    unfolding c2(1) by (simp add: c1 is_full_def)
  have c3: "connections ?m3 = [(7, 0)]" "queues ?m3 0 = [JInt 1, JInt 2]"
    "delivered ?m3 0 = []" "sender_tasks ?m3 0 = Waiting"
    by (simp_all add: c1 is_full_def)
  have 2: "dashboard_reachable 2 (?m2, {}, offered_to ?m1 (JInt 1) (\<lambda>_. []))"
    using dashboard_reachable.step [OF 1 dashboard_step.offers [OF o1]] by simp
  have 3: "dashboard_reachable 2 (?m3, {}, offered_to ?m2 (JInt 2) (offered_to ?m1 (JInt 1) (\<lambda>_. [])))"
    using dashboard_reachable.step [OF 2 dashboard_step.offers [OF o2]] by simp
  have h: "offered_to ?m2 (JInt 2) (offered_to ?m1 (JInt 1) (\<lambda>_. [])) = (\<lambda>_. [])(0 := [JInt 1, JInt 2])"
    by (rule ext) (auto simp: offered_to_def c1 c2)
  have m: "?m = sender_takes 0 ?m3" by (simp add: sample_dashboard_def)
  have r: "dashboard_reachable 2 (?m, {}, (\<lambda>_. [])(0 := [JInt 1, JInt 2]))"
    using dashboard_reachable.step [OF 3 dashboard_step.takes] unfolding m h .
  have c: "connections ?m = [(7, 0)]" "sender_tasks ?m 0 = Sending (JInt 1)" "queues ?m 0 = [JInt 2]"
    unfolding m sender_takes_def c3(2,4) by (simp_all add: c1 is_full_def)
  show ?thesis
    using dashboard_receives_in_order [OF r, of 0 7] r c by simp
qed

text \<open>
  Who gets a queue: with a key configured, a websocket is registered exactly when it presented the
  key, in the header or else in the query, and nothing changes otherwise; a registered websocket whose
  client disconnects is registered no more.
\<close>

theorem dashboard_admits_key_holders:
  assumes "API_KEY cfg \<noteq> []"
  shows "(if ws_key header query = Some (API_KEY cfg) \<and> str_is_ascii (API_KEY cfg)
      then dashboard_ws_opens cfg header query ws m = (Inr (), connect ws m)
        \<and> map_of (connections (connect ws m)) ws = Some (next_queue m)
      else (\<exists>e. dashboard_ws_opens cfg header query ws m = (Inl e, m)))
    \<and> map_of (connections (snd (dashboard_ws_ends (WebSocketDisconnect c) ws m))) ws = None"
proof (intro conjI)
  have "verify_api_key_ws cfg header query = Inr () \<longleftrightarrow>
      str_is_ascii (API_KEY cfg) \<and> ws_key header query = Some (API_KEY cfg)"
    using verify_api_key_ws_Inr [OF assms, of header query] assms by (auto simp: ws_key_def truthy_def)
  then show "if ws_key header query = Some (API_KEY cfg) \<and> str_is_ascii (API_KEY cfg)
      then dashboard_ws_opens cfg header query ws m = (Inr (), connect ws m)
        \<and> map_of (connections (connect ws m)) ws = Some (next_queue m)
      else (\<exists>e. dashboard_ws_opens cfg header query ws m = (Inl e, m))"
    by (cases "verify_api_key_ws cfg header query")
      (auto simp: dashboard_ws_opens_def connect_def Let_def update_conv)
  show "map_of (connections (snd (dashboard_ws_ends (WebSocketDisconnect c) ws m))) ws = None"
    by (auto simp: dashboard_ws_ends_def disconnect_def delete_conv split: option.splits)
qed

lemma dashboard_admits_key_holders_witness:
  "dashboard_ws_opens ((default_settings [])\<lparr>API_KEY := ''k''\<rparr>) None (Some ''k'') 3 (new_manager 128)
     = (Inr (), connect 3 (new_manager 128))"
  using dashboard_admits_key_holders [of "(default_settings [])\<lparr>API_KEY := ''k''\<rparr>" None "Some ''k''" 3 "new_manager 128"]
  by (simp add: ws_key_def truthy_def str_is_ascii_def)

end
