(* ===== verification/DashboardEvents.thy ===== *)
theory DashboardEvents
  imports Realtime Backoff QueueService
begin

text \<open>
  The way of an event from the worker to the dashboards: \<open>publish_dashboard_event\<close> posts it on a channel
  of Redis, \<open>listen_dashboard_events\<close> (\<open>app/services/queue_service.py\<close>) takes it from the subscription
  of the API and hands it to \<open>broadcast\<close>. A listener is given the attempts it makes until its task is
  cancelled: Redis refuses the subscription, or grants it and delivers messages until the iterator ends
  or raises. Its result is the seconds it slept and the state its handler left.
\<close>

section \<open>The listener\<close>

datatype pubsub_message = Pubsub (mtype: string) (mdata: "stored option")

datatype attempt = Refused | Subscribed "pubsub_message list" bool

fun is_text :: "stored \<Rightarrow> bool" where
  "is_text (Blob _) = False"
| "is_text _ = True"

definition on_message :: "(json \<Rightarrow> ('s, unit) eff) \<Rightarrow> pubsub_message \<Rightarrow> ('s, unit) eff" where
  "on_message handler msg =
     (if mtype msg = ''message'' then
        case mdata msg of
          Some raw_data \<Rightarrow>
            if is_text raw_data
            then (case json_loads raw_data of Inl e \<Rightarrow> raiseE e | Inr event \<Rightarrow> handler event)
            else returnE ()
        | None \<Rightarrow> returnE ()
      else returnE ())"

fun consume :: "(json \<Rightarrow> ('s, unit) eff) \<Rightarrow> pubsub_message list \<Rightarrow> ('s, unit) eff" where
  "consume handler [] = returnE ()"
| "consume handler (msg # msgs) = thenE (on_message handler msg) (consume handler msgs)"

definition listener_delay :: "nat \<Rightarrow> rat" where
  "listener_delay retry_attempt = min (2 ^ retry_attempt) 60"

text \<open>A granted subscription resets the attempts; any exception counts one and sleeps.\<close>

fun listen_dashboard_events ::
  "(json \<Rightarrow> ('s, unit) eff) \<Rightarrow> nat \<Rightarrow> attempt list \<Rightarrow> 's \<Rightarrow> rat list \<times> 's" where
  "listen_dashboard_events handler retry_attempt [] s = ([], s)"
| "listen_dashboard_events handler retry_attempt (Refused # as) s =
     (case listen_dashboard_events handler (Suc retry_attempt) as s of
        (slept, s') \<Rightarrow> (listener_delay (Suc retry_attempt) # slept, s'))"
| "listen_dashboard_events handler retry_attempt (Subscribed msgs lost # as) s =
     (case consume handler msgs s of (r, s') \<Rightarrow>
        if lost \<or> r \<noteq> Inr ()
        then (case listen_dashboard_events handler (Suc 0) as s' of
                (slept, s'') \<Rightarrow> (listener_delay (Suc 0) # slept, s''))
        else listen_dashboard_events handler 0 as s')"

interpretation listener: retry_backoff listener_delay 60
proof unfold_locales
  fix m n :: nat
  assume "m \<le> n"
  then have "(2::rat) ^ m \<le> 2 ^ n" by (rule power_increasing) simp
  then show "listener_delay m \<le> listener_delay n" 
    unfolding listener_delay_def by (rule min.mono) simp
qed (simp_all add: listener_delay_def)

section \<open>What is forwarded\<close>

text \<open>The events of a subscription, and whether each of its messages can be read.\<close>

definition event_of :: "pubsub_message \<Rightarrow> json option" where
  "event_of msg = (case mdata msg of
       Some raw \<Rightarrow> if mtype msg = ''message'' \<and> is_text raw
         then (case json_loads raw of Inl _ \<Rightarrow> None | Inr e \<Rightarrow> Some e) else None
     | None \<Rightarrow> None)"

definition parsable :: "pubsub_message \<Rightarrow> bool" where
  "parsable msg \<longleftrightarrow> mtype msg = ''message'' \<longrightarrow>
     (case mdata msg of Some raw \<Rightarrow> is_text raw \<longrightarrow> json_loads raw \<noteq> Inl JSONDecodeError | None \<Rightarrow> True)"

fun attempt_messages :: "attempt \<Rightarrow> pubsub_message list" where
  "attempt_messages Refused = []"
| "attempt_messages (Subscribed msgs _) = msgs"

fun attempt_fails :: "attempt \<Rightarrow> bool" where
  "attempt_fails Refused = True"
| "attempt_fails (Subscribed _ lost) = lost"

abbreviation always :: "(json \<Rightarrow> 's \<Rightarrow> 's) \<Rightarrow> json \<Rightarrow> ('s, unit) eff" where
  "always f \<equiv> \<lambda>e s. (Inr (), f e s)"

lemma json_loads_error: "json_loads raw = Inl e \<Longrightarrow> e = JSONDecodeError"
  by (cases raw) auto

lemma on_message_cases:
  "on_message (always f) msg s =
     (if parsable msg then (Inr (), case event_of msg of None \<Rightarrow> s | Some e \<Rightarrow> f e s)
      else (Inl JSONDecodeError, s))"
  by (auto simp: on_message_def parsable_def event_of_def returnE_def raiseE_def
      dest: json_loads_error split: option.splits sum.splits)

lemma consume_parsable:
  "\<forall>msg \<in> set msgs. parsable msg \<Longrightarrow>
    consume (always f) msgs s = (Inr (), fold f (List.map_filter event_of msgs) s)"
  by (induction msgs arbitrary: s)
    (auto simp: returnE_def thenE_def bindE_def on_message_cases map_filter_simps split: option.splits)

text \<open>At the first message that cannot be read the subscription is given up, with what follows it.\<close>

lemma consume_unparsable:
  assumes "\<forall>msg \<in> set msgs. parsable msg" and "\<not> parsable bad"
  shows "consume (always f) (msgs @ bad # later) s =
    (Inl JSONDecodeError, fold f (List.map_filter event_of msgs) s)"
  using assms(1)
proof (induction msgs arbitrary: s)
  case Nil
  show ?case using assms(2) by (simp add: thenE_def bindE_def on_message_cases map_filter_simps)
next
  case (Cons m msgs)
  then show ?case
    by (auto simp: thenE_def bindE_def on_message_cases map_filter_simps split: option.splits)
qed

lemma listen_parsable:
  assumes "\<forall>a \<in> set as. \<forall>msg \<in> set (attempt_messages a). parsable msg"
  shows "snd (listen_dashboard_events (always f) k as s) =
      fold f (List.map_filter event_of (concat (map attempt_messages as))) s
    \<and> length (fst (listen_dashboard_events (always f) k as s)) = length (filter attempt_fails as)"
  using assms
proof (induction as arbitrary: k s)
  case Nil
  show ?case by (simp add: map_filter_simps)
next
  case (Cons a as)
  show ?case
  proof (cases a)
    case Refused
    with Cons show ?thesis by (simp add: case_prod_beta)
  next
    case (Subscribed msgs lost)
    with Cons.prems have c: "consume (always f) msgs s = (Inr (), fold f (List.map_filter event_of msgs) s)"
      by (intro consume_parsable) simp
    from Cons.prems have "\<forall>a \<in> set as. \<forall>msg \<in> set (attempt_messages a). parsable msg" by simp
    note IH = Cons.IH [OF this]
    show ?thesis using IH [of "Suc 0"] IH [of 0]
      by (simp add: Subscribed c map_filter_def case_prod_beta)
  qed
qed

lemma listen_slept:
  "w \<in> set (fst (listen_dashboard_events h k as s)) \<Longrightarrow> 2 \<le> w \<and> w \<le> 60"
proof (induction h k as s rule: listen_dashboard_events.induct)
  case (2 h k as s)
  have "2 \<le> listener_delay (Suc k) \<and> listener_delay (Suc k) \<le> 60"
    by (auto simp: listener_delay_def)
  with 2 show ?case by (auto split: prod.splits)
next
  case (3 h k msgs lost as s)
  then show ?case by (auto simp: listener_delay_def split: prod.splits if_splits)
qed simp

lemma listen_refused:
  "listen_dashboard_events h k (replicate n Refused @ as) s =
     (case listen_dashboard_events h (k + n) as s of (slept, s') \<Rightarrow> (listener.waits k n @ slept, s'))"
  by (induction n arbitrary: k) (auto simp: listener.waits_Suc split: prod.splits)

section \<open>From the worker to the dashboards\<close>

fun publish_all :: "'r redis_conn \<Rightarrow> json list \<Rightarrow> (('r, 'z) env_scheme, unit) eff" where
  "publish_all R [] = returnE ()"
| "publish_all R (e # es) = thenE (publish_dashboard_event R e) (publish_all R es)"

text \<open>What a subscriber to the channel is sent of what was published, oldest first.\<close>

definition sent_to_subscribers :: "(string \<times> stored) list \<Rightarrow> pubsub_message list" where
  "sent_to_subscribers posted =
     map (\<lambda>(ch, v). Pubsub ''message'' (Some v)) (filter (\<lambda>(ch, v). ch = DASHBOARD_EVENTS_CHANNEL) (rev posted))"

lemma publish_up:
  fixes w :: "('r, 'z) env_scheme"
  assumes "redis_ok R view" and "redis_up R"
  shows "\<exists>w'. publish_dashboard_event R e w = (Inr (), w')
    \<and> published (db view w') = (DASHBOARD_EVENTS_CHANNEL, json_dumps e) # published (db view w)"
proof -
  obtain r' where r: "redis_call R (PUBLISH DASHBOARD_EVENTS_CHANNEL (json_dumps e)) (conn w) = (Inr (RInt 0), r')"
    and v: "published (view r') = (DASHBOARD_EVENTS_CHANNEL, json_dumps e) # published (view (conn w))"
    using redis_call_up [OF assms, of "PUBLISH DASHBOARD_EVENTS_CHANNEL (json_dumps e)" "conn w"]
    by (auto simp: decode_reply_def)
  then show ?thesis
    by (auto simp: publish_dashboard_event_def tryE_def redisE_apply redis_publish_def
        bindE_def returnE_def)
qed

lemma publish_all_up:
  fixes w :: "('r, 'z) env_scheme"
  assumes "redis_ok R view" and "redis_up R"
  shows "\<exists>w'. publish_all R es w = (Inr (), w')
    \<and> published (db view w') = map (\<lambda>e. (DASHBOARD_EVENTS_CHANNEL, json_dumps e)) (rev es) @ published (db view w)"
proof (induction es arbitrary: w)
  case Nil
  show ?case by (simp add: returnE_def)
next
  case (Cons e es)
  obtain u where u: "publish_dashboard_event R e w = (Inr (), u)"
    "published (db view u) = (DASHBOARD_EVENTS_CHANNEL, json_dumps e) # published (db view w)"
    using publish_up [OF assms] by blast
  show ?case using Cons [of u] u by (auto simp: thenE_def bindE_def)
qed

lemma sent_events:
  "sent_to_subscribers (map (\<lambda>e. (DASHBOARD_EVENTS_CHANNEL, json_dumps e)) (rev es)) =
     map (\<lambda>e. Pubsub ''message'' (Some (json_dumps e))) es"
  by (induction es) (simp_all add: sent_to_subscribers_def)

lemma published_event_parsable:
  "parsable (Pubsub ''message'' (Some (json_dumps e)))" "event_of (Pubsub ''message'' (Some (json_dumps e))) = Some e"
  by (simp_all add: parsable_def event_of_def json_dumps_def)

lemma events_of_published:
  "List.map_filter event_of (map (\<lambda>e. Pubsub ''message'' (Some (json_dumps e))) es) = es"
  by (induction es) (simp_all add: map_filter_simps published_event_parsable)

text \<open>While every queue has room, broadcasts append to all of them and disconnect nobody.\<close>

definition room_for :: "nat \<Rightarrow> manager \<Rightarrow> bool" where
  "room_for n m \<longleftrightarrow> distinct (map snd (connections m))
     \<and> (\<forall>(ws, q) \<in> set (connections m). maxsize m = 0 \<or> length (queues m q) + n \<le> maxsize m)"

lemma broadcast_room:
  assumes "room_for (Suc n) m"
  shows "connections (broadcast e m) = connections m \<and> room_for n (broadcast e m)
    \<and> (\<forall>(ws, q) \<in> set (connections m). queues (broadcast e m) q = queues m q @ [e])"
proof -
  obtain full m' where o: "offer_all e (connections m) m = (full, m')" by fastforce
  have d: "distinct (map snd (connections m))" using assms by (simp add: room_for_def)
  note f = offer_all_effect [OF o d]
  have notfull: "\<not> is_full (maxsize m) (queues m q)" if "(ws, q) \<in> set (connections m)" for ws q
    using assms that by (fastforce simp: room_for_def is_full_def)
  then have "{ws. \<exists>q. (ws, q) \<in> set (connections m) \<and> is_full (maxsize m) (queues m q)} = {}" by blast
  with f have "set full = {}" by simp
  then have "full = []" by simp
  then have b: "broadcast e m = m'" by (simp add: broadcast_def o)
  have q: "queues m' q = queues m q @ [e]" if "(ws, q) \<in> set (connections m)" for ws q
    using f notfull [OF that] that by force
  show ?thesis using assms f q unfolding b room_for_def by fastforce
qed

lemma broadcasts_room:
  "room_for (length es) m \<Longrightarrow> connections (fold broadcast es m) = connections m
    \<and> (\<forall>(ws, q) \<in> set (connections m). queues (fold broadcast es m) q = queues m q @ es)"
proof (induction es arbitrary: m)
  case Nil
  show ?case by simp
next
  case (Cons e es)
  have b: "room_for (Suc (length es)) m" using Cons.prems by simp
  note r = broadcast_room [OF b, of e]
  then show ?case using Cons.IH [of "broadcast e m"] by fastforce
qed



text \<open>
  Outages are survived: whatever the attempts were, as long as the messages can be read the handler has
  seen all the events of all the subscriptions in order, and the listener has slept once for each
  failed attempt, between two seconds and a minute.
\<close>

theorem listener_forwards_events:
  assumes "\<forall>a \<in> set as. \<forall>msg \<in> set (attempt_messages a). parsable msg"
    and "listen_dashboard_events (always f) k as s = (slept, s')"
  shows "s' = fold f (List.map_filter event_of (concat (map attempt_messages as))) s
    \<and> length slept = length (filter attempt_fails as) \<and> (\<forall>w \<in> set slept. 2 \<le> w \<and> w \<le> 60)"
  using listen_parsable [OF assms(1), of f k s] listen_slept [of _ "always f" k as s] assms(2) by simp

lemma listener_forwards_events_witness:
  "snd (listen_dashboard_events (always (#)) 0
     [Refused, Subscribed [Pubsub ''subscribe'' None, Pubsub ''message'' (Some (Text (JInt 1)))] True,
      Subscribed [Pubsub ''message'' (Some (Text (JInt 2)))] False] []) = [JInt 2, JInt 1]"
proof -
  let ?as = "[Refused, Subscribed [Pubsub ''subscribe'' None, Pubsub ''message'' (Some (Text (JInt 1)))] True,
      Subscribed [Pubsub ''message'' (Some (Text (JInt 2)))] False]"
  obtain slept s' where l: "listen_dashboard_events (always (#)) 0 ?as [] = (slept, s')" by fastforce
  have "\<forall>a \<in> set ?as. \<forall>msg \<in> set (attempt_messages a). parsable msg" by (simp add: parsable_def)
  from listener_forwards_events [OF this l]
  have "s' = [JInt 2, JInt 1]" by (simp add: map_filter_def event_of_def)
  with l show ?thesis by simp
qed

end
