(* ===== verification/Application.thy ===== *)
theory Application
  imports Metrics DashboardEvents QueueDelivery
begin

text \<open>
  \<open>app/main.py\<close> and \<open>app/redis_pool.py\<close>: the loop that broadcasts the metrics, the two routes that show
  the queues, the order of start and shutdown, and the shared Redis client.
\<close>

section \<open>The metrics loop\<close>

record ('r, 'd) app = "('r, 'd) server" +
  dashboards :: manager

definition metrics_event :: "metrics_response \<Rightarrow> json" where
  "metrics_event r = JObj [(''type'', JStr ''metrics''), (''payload'', metrics_dict r)]"

text \<open>One turn: the readings of the clock at the two looks at the cache, and what runs between them.\<close>

definition metrics_turn ::
  "'r redis_conn \<Rightarrow> 'd sql_conn \<Rightarrow> rat \<Rightarrow> (('r, 'd, 'z) app_scheme \<Rightarrow> ('r, 'd, 'z) app_scheme) \<Rightarrow> rat \<Rightarrow>
     (('r, 'd, 'z) app_scheme, unit) eff" where
  "metrics_turn R D now others now' =
     tryE
       (bindE (compute_metrics_response R D now others now') (\<lambda>r.
          modifyE (\<lambda>w. w\<lparr>dashboards := broadcast (metrics_event r) (dashboards w)\<rparr>)))
       (\<lambda>_. returnE ())"

text \<open>The loop until it is cancelled; it sleeps five seconds after every turn.\<close>

fun metrics_broadcast_loop ::
  "'r redis_conn \<Rightarrow> 'd sql_conn \<Rightarrow> (rat \<times> (('r, 'd, 'z) app_scheme \<Rightarrow> ('r, 'd, 'z) app_scheme) \<times> rat) list \<Rightarrow>
     (('r, 'd, 'z) app_scheme, unit) eff" where
  "metrics_broadcast_loop R D [] = returnE ()"
| "metrics_broadcast_loop R D ((now, others, now') # turns) =
     thenE (metrics_turn R D now others now') (metrics_broadcast_loop R D turns)"

section \<open>Routes\<close>

definition inspect_dlq ::
  "settings \<Rightarrow> 'r redis_conn \<Rightarrow> string option \<Rightarrow> (('r, 'z) env_scheme, json list) eff" where
  "inspect_dlq cfg R x_api_key = guarded cfg x_api_key (dlq_list R)"

definition queue_stats ::
  "settings \<Rightarrow> 'r redis_conn \<Rightarrow> string option \<Rightarrow> (('r, 'z) env_scheme, int pydict) eff" where
  "queue_stats cfg R x_api_key = guarded cfg x_api_key (queue_lengths R)"

section \<open>The shared client\<close>

text \<open>\<open>_pool\<close> is a client, here a number, or none; clients are made from the URL when first needed.\<close>

record redis_pool =
  pool :: "nat option"
  opened :: nat
  closed :: "nat set"

definition get_redis :: "redis_pool \<Rightarrow> nat \<times> redis_pool" where
  "get_redis p = (case pool p of
       Some c \<Rightarrow> (c, p)
     | None \<Rightarrow> (opened p, p\<lparr>pool := Some (opened p), opened := opened p + 1\<rparr>))"

definition close_redis :: "redis_pool \<Rightarrow> redis_pool" where
  "close_redis p = (case pool p of
       None \<Rightarrow> p
     | Some c \<Rightarrow> p\<lparr>closed := insert c (closed p), pool := None\<rparr>)"

definition pool_ok :: "redis_pool \<Rightarrow> bool" where
  "pool_ok p \<longleftrightarrow> (\<forall>c. c < opened p \<longleftrightarrow> c \<in> closed p \<or> pool p = Some c) \<and> (\<forall>c \<in> closed p. pool p \<noteq> Some c)"

lemma pool_ok_start: "pool_ok \<lparr>pool = None, opened = 0, closed = {}\<rparr>"
  by (simp add: pool_ok_def)

text \<open>At most one client is open at any time, what is handed out is it, and none is left open after closing.\<close>

lemma pool_ok_get:
  assumes "pool_ok p" and "get_redis p = (c, p')"
  shows "pool_ok p' \<and> pool p' = Some c \<and> c \<notin> closed p' \<and> get_redis p' = (c, p')"
proof (cases "pool p")
  case None
  with assms(1) have closed: "x \<in> closed p \<longleftrightarrow> x < opened p" for x by (simp add: pool_ok_def)
  have "c = opened p" "p' = p\<lparr>pool := Some (opened p), opened := opened p + 1\<rparr>"
    using assms(2) None by (auto simp: get_redis_def)
  then show ?thesis by (auto simp: pool_ok_def get_redis_def closed)
next
  case (Some d)
  with assms show ?thesis by (auto simp: pool_ok_def get_redis_def)
qed

lemma pool_ok_close:
  assumes "pool_ok p"
  shows "pool_ok (close_redis p) \<and> (\<forall>c < opened p. c \<in> closed (close_redis p))"
proof (cases "pool p")
  case None
  with assms show ?thesis by (simp add: pool_ok_def close_redis_def)
next
  case (Some d)
  with assms show ?thesis by (simp add: pool_ok_def close_redis_def) blast
qed

section \<open>Start and shutdown\<close>

datatype lifespan_action = SetupLogging | CreateTables | StartTask nat | Serve | CancelTask nat | AwaitTask nat
  | CloseRedis | DisposeEngine

text \<open>The two tasks are the metrics loop and the bridge from Redis.\<close>

definition lifespan_start :: "settings \<Rightarrow> exn + lifespan_action list" where
  "lifespan_start cfg = (case production_gate cfg of
       Inl e \<Rightarrow> Inl e
     | Inr _ \<Rightarrow> Inr [SetupLogging, CreateTables, StartTask 0, StartTask 1])"

definition lifespan_end :: "lifespan_action list" where
  "lifespan_end = map CancelTask [0, 1] @ map AwaitTask [0, 1] @ [CloseRedis, DisposeEngine]"

definition lifespan :: "settings \<Rightarrow> exn + lifespan_action list" where
  "lifespan cfg = map_sum id (\<lambda>start. start @ [Serve] @ lifespan_end) (lifespan_start cfg)"

lemma lifespan_gated: "lifespan cfg = Inl RuntimeError \<longleftrightarrow> API_KEY cfg = [] \<and> \<not> DEBUG cfg"
  by (simp add: lifespan_def lifespan_start_def production_gate_def)

section \<open>What the dashboards see of the metrics\<close>

lemma compute_metrics_up:
  fixes w :: "('r, 'd, 'z) server_scheme"
  assumes "sql_up D sview" and "redis_ok R view"
  shows "\<exists>r w'. compute_metrics_response R D now (\<lambda>w. w) now' w = (Inr r, w')"
proof -
  have run: "\<exists>r w'. recompute_metrics R D now' w = (Inr r, w')"
  proof -
    let ?q = "Read (RiskCounts (4 / 10) (7 / 10))"
    obtain s' where "D ?q (api_sql w) = (Inr (Answer (answer_of (RiskCounts (4 / 10) (7 / 10)) (sview (api_sql w)))), s')"
      using assms(1) unfolding sql_up_def by (metis fst_conv run_stmt.simps(5))
    then obtain h m l u where sev: "severity_counts D w = (Inr (h, m, l), u)"
      by (simp add: severity_counts_def effect_simps apiE_def)
    obtain x u' where snap: "snapshot_async R u = (x, u')" by fastforce
    have "\<exists>cs. x = Inr cs" by (rule snapshot_async_cases [OF assms(2) snap]) auto
    with sev snap show ?thesis by (auto simp: recompute_metrics_def metrics_snapshot_def effect_simps)
  qed
  then show ?thesis by (auto simp: compute_metrics_response_def Let_def split: option.split)
qed

text \<open>A computation does not touch the dashboards.\<close>

lemma compute_metrics_dashboards:
  fixes w :: "('r, 'd, 'z) app_scheme"
  assumes "compute_metrics_response R D now (\<lambda>w. w) now' w = (x, w')"
  shows "dashboards w' = dashboards w"
proof -
  have sev: "dashboards u' = dashboards u" if "severity_counts D u = (y, u')" for u u' :: "('r, 'd, 'z) app_scheme" and y
    using that
    by (auto simp: severity_counts_def effect_simps apiE_def split: prod.splits sum.splits rows.splits
        answer.splits list.splits)
  have snap: "dashboards u' = dashboards u" if "snapshot_async R u = (y, u')" for u u' :: "('r, 'd, 'z) app_scheme" and y
    using redis_onlyD [OF redis_only_snapshot that] by auto
  show ?thesis
    using assms
    by (auto simp: compute_metrics_response_def Let_def recompute_metrics_def metrics_snapshot_def effect_simps
        dest!: sev snap split: option.splits prod.splits sum.splits)
qed

text \<open>
  While the database answers, every turn of the loop feeds every registered dashboard: after \<open>n\<close> turns each queue
  with room for them has \<open>n\<close> metrics events more, in order, nobody is disconnected and no turn raises,
  whatever Redis does.
\<close>

theorem metrics_loop_feeds_dashboards:
  fixes w :: "('r, 'd, 'z) app_scheme"
  assumes "sql_up D sview" and "redis_ok R view" and "\<forall>(now, others, now') \<in> set turns. others = (\<lambda>w. w)"
    and "room_for (length turns) (dashboards w)"
  shows "\<exists>rs w'. metrics_broadcast_loop R D turns w = (Inr (), w') \<and> length rs = length turns
    \<and> connections (dashboards w') = connections (dashboards w)
    \<and> (\<forall>(ws, q) \<in> set (connections (dashboards w)).
        queues (dashboards w') q = queues (dashboards w) q @ map metrics_event rs)"
  using assms(3,4)
proof (induction turns arbitrary: w)
  case Nil
  then show ?case by (simp add: effect_simps)
next
  case (Cons tick turns)
  obtain now others now' where tick: "tick = (now, others, now')" by (cases tick)
  with Cons.prems(1) have id: "others = (\<lambda>w. w)" by simp
  obtain r w1 where c: "compute_metrics_response R D now (\<lambda>w. w) now' w = (Inr r, w1)"
    using compute_metrics_up [OF assms(1,2)] by blast
  note d = compute_metrics_dashboards [OF c]
  let ?w2 = "w1\<lparr>dashboards := broadcast (metrics_event r) (dashboards w1)\<rparr>"
  have t: "metrics_turn R D now others now' w = (Inr (), ?w2)"
    by (simp add: metrics_turn_def effect_simps id c)
  from Cons.prems(2) have room: "room_for (Suc (length turns)) (dashboards w)" by simp
  note b = broadcast_room [OF room, of "metrics_event r"]
  obtain rs w' where l: "metrics_broadcast_loop R D turns ?w2 = (Inr (), w')" "length rs = length turns"
    "connections (dashboards w') = connections (dashboards w)"
    "\<forall>(ws, q) \<in> set (connections (dashboards w)).
        queues (dashboards w') q = queues (broadcast (metrics_event r) (dashboards w)) q @ map metrics_event rs"
    using Cons.IH [of ?w2] Cons.prems(1) b d by auto
  have "metrics_broadcast_loop R D (tick # turns) w = (Inr (), w')"
    by (simp add: tick effect_simps t l(1))
  moreover have "\<forall>(ws, q) \<in> set (connections (dashboards w)).
      queues (dashboards w') q = queues (dashboards w) q @ map metrics_event (r # rs)"
    using l(4) b by fastforce
  ultimately show ?case using l(2,3) by (intro exI [of _ "r # rs"] exI [of _ w']) simp
qed

definition sample_app :: "(redis_db, sql_db) app" where
  "sample_app = \<lparr>conn = empty_db, counters = initial_counters, api_sql = \<lparr>logs = [], alerts = []\<rparr>,
     metrics_cache = None, metrics_cache_at = 0, dashboards = connect 7 (new_manager 128)\<rparr>"

lemma metrics_loop_feeds_dashboards_witness:
  "\<exists>rs w'. metrics_broadcast_loop mem_redis mem_sql [(0, \<lambda>w. w, 0), (5, \<lambda>w. w, 5)] sample_app = (Inr (), w')
    \<and> length rs = 2 \<and> queues (dashboards w') 0 = map metrics_event rs"
proof -
  have c: "connections (dashboards sample_app) = [(7, 0)]" "queues (dashboards sample_app) 0 = []"
    "maxsize (dashboards sample_app) = 128"
    by (simp_all add: sample_app_def connect_def new_manager_def Let_def)
  let ?turns = "[(0, \<lambda>w. w, 0), (5, \<lambda>w. w, 5)]"
  have "room_for (length ?turns) (dashboards sample_app)" by (simp add: room_for_def c)
  from metrics_loop_feeds_dashboards [OF sql_up_mem redis_ok_mem _ this] obtain rs w' where
    "metrics_broadcast_loop mem_redis mem_sql ?turns sample_app = (Inr (), w')" "length rs = length ?turns"
    "\<forall>(ws, q) \<in> set (connections (dashboards sample_app)).
        queues (dashboards w') q = queues (dashboards sample_app) q @ map metrics_event rs"
    by auto
  then show ?thesis by (intro exI [of _ rs] exI [of _ w']) (simp add: c)
qed

text \<open>
  A message that has failed for good is on show: what \<open>retry_or_dlq\<close> gives up appears at the head of what
  \<open>GET /dlq\<close> returns, with its payload, its count and the time of the move, for the holder of the key, and
  for nobody else.
\<close>

lemma loads_all_texts: "loads_all (map Text vs) = Inr vs"
  by (induction vs) simp_all

lemma decodable_texts: "list_all decodable (map Text vs)"
  by (induction vs) simp_all

theorem dead_letter_is_shown:
  fixes w :: "('r, 'z) env_scheme" and a :: "('r, 'y) env_scheme"
  assumes "redis_ok R view" and "redis_up R" and "API_KEY cfg \<noteq> []" and "str_is_ascii (API_KEY cfg)"
    and "json_int (dict_get_or (public (msg_fields m)) ''retry_count'' (JInt 0)) = Some n0"
    and "retry_or_dlq R now m w = (Inr False, w')"
    and "rlists (db view w) DLQ = map Text vs" and "db view a = db view w'"
  shows "(\<exists>d a'. inspect_dlq cfg R (Some (API_KEY cfg)) a = (Inr (JObj d # vs), a')
      \<and> dict_get d ''payload'' = dict_get (msg_fields m) ''payload''
      \<and> dict_get d ''retry_count'' = Some (JInt (n0 + 1)) \<and> dict_get d ''moved_to_dlq_at'' = Some (JFloat now))
    \<and> (key \<noteq> Some (API_KEY cfg) \<longrightarrow> (\<exists>e. inspect_dlq cfg R key a = (Inl e, a)))"
proof -
  obtain d where l: "rlists (db view w') DLQ = Text (JObj d) # rlists (db view w) DLQ"
    and p: "dict_get d ''payload'' = dict_get (msg_fields m) ''payload''"
      "dict_get d ''retry_count'' = Some (JInt (n0 + 1))" "dict_get d ''moved_to_dlq_at'' = Some (JFloat now)"
    using retry_moved_to_dlq [OF assms(1,5,6)] by blast
  have dlq: "rlists (view (conn a)) DLQ = map Text (JObj d # vs)" using l assms(7,8) by simp
  obtain c where r: "redis_lrange R DLQ (conn a) = (Inr (map Text (JObj d # vs)), c)"
    using redis_lrange_up [OF assms(1,2), of "conn a" DLQ] decodable_texts [of "JObj d # vs"] unfolding dlq by blast
  have "\<exists>a'. dlq_list R a = (Inr (JObj d # vs), a')"
    unfolding dlq_list_def by (simp add: effect_simps redisE_apply r loads_all_texts [of "JObj d # vs", simplified])
  moreover have "verify_api_key cfg (Some (API_KEY cfg)) = Inr ()"
    using verify_api_key_Inr [OF assms(3)] assms(4) by blast
  moreover have "\<exists>e. verify_api_key cfg key = Inl e" if "key \<noteq> Some (API_KEY cfg)"
    using verify_api_key_Inr [OF assms(3), of key] that by (cases "verify_api_key cfg key") auto
  ultimately show ?thesis using p by (auto simp: inspect_dlq_def guarded_def raiseE_apply)
qed

lemma dead_letter_is_shown_witness:
  "let m = \<lparr>msg_fields = [(''payload'', JNull), (''retry_count'', JInt 2)], msg_raw = None\<rparr>;
       cfg = (default_settings [])\<lparr>API_KEY := ''k''\<rparr>;
       a = snd (retry_or_dlq mem_redis 100 m \<lparr>conn = empty_db, counters = initial_counters\<rparr>)
   in (\<exists>d a'. inspect_dlq cfg mem_redis (Some ''k'') a = (Inr [JObj d], a')
        \<and> dict_get d ''retry_count'' = Some (JInt 3))
      \<and> (\<exists>e. inspect_dlq cfg mem_redis None a = (Inl e, a))"
proof -
  let ?m = "\<lparr>msg_fields = [(''payload'', JNull), (''retry_count'', JInt 2)], msg_raw = None\<rparr>"
  let ?w = "\<lparr>conn = empty_db, counters = initial_counters\<rparr>"
  let ?cfg = "(default_settings [])\<lparr>API_KEY := ''k''\<rparr>"
  have int: "json_int (dict_get_or (public (msg_fields ?m)) ''retry_count'' (JInt 0)) = Some 2" by code_simp
  obtain x a where run: "retry_or_dlq mem_redis 100 ?m ?w = (x, a)" by fastforce
  have "fst (retry_or_dlq mem_redis 100 ?m ?w) = Inr False" by code_simp
  with run have run': "retry_or_dlq mem_redis 100 ?m ?w = (Inr False, a)" by simp
  have key: "API_KEY ?cfg \<noteq> []" "str_is_ascii (API_KEY ?cfg)" by (simp_all add: str_is_ascii_def)
  have empty: "rlists (conn ?w) DLQ = map Text []" by (simp add: empty_db_def)
  have "(\<exists>d a'. inspect_dlq ?cfg mem_redis (Some ''k'') a = (Inr [JObj d], a')
        \<and> dict_get d ''retry_count'' = Some (JInt 3))
      \<and> (\<exists>e. inspect_dlq ?cfg mem_redis None a = (Inl e, a))"
    using dead_letter_is_shown [OF redis_ok_mem redis_up_mem key int run' empty refl, of None] by auto
  then show ?thesis unfolding Let_def run snd_conv .
qed

end
