(* ===== verification/Timeseries.thy ===== *)
theory Timeseries
  imports Metrics PyIso
begin

text \<open>
  \<open>metrics_timeseries\<close> of \<open>app/metrics.py\<close>: logs and alerts per minute over a window that ends now. The
  database groups by the minute, as a text under SQLite and as a timestamp elsewhere; the code reads the
  groups into dictionaries and looks every minute of the window up.
\<close>

section \<open>Buckets\<close>

text \<open>\<open>_minute_bucket_expr\<close>: what the expression of a dialect yields for a minute.\<close>

datatype bucket_value = Moment py_datetime | Label string | Odd

definition minute_bucket :: "string \<Rightarrow> instant \<Rightarrow> bucket_value" where
  "minute_bucket dialect_name t =
     (if dialect_name = ''sqlite''
      then Label (map (\<lambda>c. if c = CHR ''T'' then CHR '' '' else c) (iso_body (floor_minute t)))
      else Moment (Aware (floor_minute t)))"

definition normalise_bucket :: "bucket_value \<Rightarrow> exn + instant" where
  "normalise_bucket value = (case value of
       Moment dt \<Rightarrow> Inr (as_utc dt)
     | Label s \<Rightarrow> map_sum id as_utc (fromisoformat s)
     | Odd \<Rightarrow> Inl ValueError)"

fun bucket_map :: "(bucket_value \<times> int) list \<Rightarrow> (instant \<rightharpoonup> int) \<Rightarrow> exn + (instant \<rightharpoonup> int)" where
  "bucket_map [] f = Inr f"
| "bucket_map ((b, n) # rest) f = (case normalise_bucket b of
       Inl e \<Rightarrow> Inl e
     | Inr t \<Rightarrow> bucket_map rest (f(t \<mapsto> n)))"

section \<open>The endpoint\<close>

record timeseries =
  ts_timestamps :: "string list"
  ts_logs :: "int list"
  ts_alerts :: "int list"

definition clamp_window :: "int \<Rightarrow> int" where
  "clamp_window window = max 1 (min window 180)"

definition window_start :: "int \<Rightarrow> instant \<Rightarrow> instant" where
  "window_start window now = floor_minute now - minutes (clamp_window window - 1)"

definition minute_counts ::
  "'d sql_conn \<Rightarrow> string \<Rightarrow> query \<Rightarrow> (('r, 'd, 'z) api_scheme, (bucket_value \<times> int) list) eff" where
  "minute_counts D dialect_name q = bindE (apiE D (Read q)) (\<lambda>r. case r of
       Answer (Buckets bs) \<Rightarrow> returnE (map (\<lambda>(t, n). (minute_bucket dialect_name t, n)) bs)
     | _ \<Rightarrow> raiseE ProtocolError)"

definition look_up :: "(instant \<rightharpoonup> int) \<Rightarrow> instant \<Rightarrow> int" where
  "look_up f key = (case f key of None \<Rightarrow> 0 | Some n \<Rightarrow> n)"

definition window_minutes :: "int \<Rightarrow> instant \<Rightarrow> instant list" where
  "window_minutes window now =
     map (\<lambda>i. floor_minute (window_start window now + minutes i)) [0..clamp_window window - 1]"

definition metrics_timeseries ::
  "'d sql_conn \<Rightarrow> string \<Rightarrow> int \<Rightarrow> instant \<Rightarrow> (('r, 'd, 'z) api_scheme, timeseries) eff" where
  "metrics_timeseries D dialect_name window now =
     (let start = window_start window now; keys = window_minutes window now in
      bindE (minute_counts D dialect_name (LogsPerMinute start)) (\<lambda>log_rows.
      bindE (minute_counts D dialect_name (AlertsPerMinute start)) (\<lambda>alert_rows.
      case bucket_map log_rows Map.empty of
        Inl e \<Rightarrow> raiseE e
      | Inr log_map \<Rightarrow> (case bucket_map alert_rows Map.empty of
            Inl e \<Rightarrow> raiseE e
          | Inr alert_map \<Rightarrow> returnE
              \<lparr>ts_timestamps = map isoformat_utc keys, ts_logs = map (look_up log_map) keys,
               ts_alerts = map (look_up alert_map) keys\<rparr>))))"

section \<open>What the series counts\<close>

lemma window_minutes_floor: "k \<in> set (window_minutes window now) \<Longrightarrow> floor_minute k = k"
  by (auto simp: window_minutes_def floor_minute_def)

lemma window_minutes_alt:
  "window_minutes window now = map (\<lambda>i. window_start window now + minutes i) [0..clamp_window window - 1]"
proof -
  have "window_start window now + minutes i = floor_minute now + minutes (1 - clamp_window window + i)" for i
    by (simp add: window_start_def minutes_def algebra_simps)
  then have "floor_minute (window_start window now + minutes i) = window_start window now + minutes i" for i
    by (simp del: add.assoc)
  then show ?thesis by (simp add: window_minutes_def)
qed

lemma floor_minute_in_calendar: "in_calendar t \<Longrightarrow> in_calendar (floor_minute t)"
proof -
  assume t: "in_calendar t"
  have "floor_minute first_instant = first_instant" by code_simp
  moreover have "floor_minute first_instant \<le> floor_minute t"
    using t unfolding in_calendar_def floor_minute_def minus_mod_eq_mult_div
    by (simp add: us_per_minute_def zdiv_mono1)
  ultimately show ?thesis using t floor_minute_bounds [of t] by (simp add: in_calendar_def)
qed

text \<open>Every dialect's bucket is read back as the minute it stands for.\<close>

lemma normalise_minute:
  assumes "dialect = ''sqlite'' \<longrightarrow> in_calendar t"
  shows "normalise_bucket (minute_bucket dialect (floor_minute t)) = Inr (floor_minute t)"
proof -
  have idem: "floor_minute (floor_minute t) = floor_minute t"
    using floor_minute_minutes [of t 0] by (simp add: minutes_def)
  show ?thesis
  proof (cases "dialect = ''sqlite''")
    case True
    with floor_minute_in_calendar [of t] assms have "in_calendar (floor_minute t)" by simp
    with fromisoformat_minute [of "floor_minute t"] idem True show ?thesis
      by (simp add: normalise_bucket_def minute_bucket_def in_calendar_def)
  next
    case False
    then show ?thesis by (simp add: normalise_bucket_def minute_bucket_def idem)
  qed
qed

lemma bucket_map_minutes:
  assumes "\<forall>(m, n) \<in> set bs. normalise_bucket (minute_bucket dialect m) = Inr m"
  shows "bucket_map (map (\<lambda>(m, n). (minute_bucket dialect m, n)) bs) f = Inr (f ++ map_of (rev bs))"
  using assms
  by (induction bs arbitrary: f) (auto simp: map_add_def fun_eq_iff split: option.splits)

lemma per_minute_lookup:
  assumes "floor_minute k = k" and "floor_minute start = start" and "start \<le> k"
  shows "look_up (map_of (rev (per_minute start ts))) k = count_of (\<lambda>t. floor_minute t = k) ts"
proof -
  define ms where "ms = map floor_minute (filter (\<lambda>t. start \<le> t) ts)"
  have bs: "rev (per_minute start ts) = map (\<lambda>m. (m, count_of ((=) m) ms)) (rev (sort (remdups ms)))"
    by (simp add: per_minute_def ms_def Let_def rev_map)
  have "start \<le> t" if "floor_minute t = k" for t using floor_minute_bounds [of t] that assms(3) by simp
  then have "filter (\<lambda>t. start \<le> t \<and> k = floor_minute t) ts = filter (\<lambda>t. floor_minute t = k) ts"
    by (intro filter_cong) auto
  then have n: "count_of ((=) k) ms = count_of (\<lambda>t. floor_minute t = k) ts"
    by (simp add: count_of_def ms_def filter_map comp_def)
  have "count_of ((=) k) ms = 0" if "k \<notin> set ms"
    using that by (auto simp: count_of_def filter_empty_conv)
  then show ?thesis
    using n by (auto simp: look_up_def bs map_of_map_restrict restrict_map_def)
qed

lemma minute_counts_up:
  fixes w :: "('r, 'd, 'z) api_scheme"
  assumes "sql_up D view" and "answer_of q (view (api_sql w)) = Buckets bs"
  shows "\<exists>w'. minute_counts D dialect q w = (Inr (map (\<lambda>(t, n). (minute_bucket dialect t, n)) bs), w')
    \<and> view (api_sql w') = view (api_sql w)"
proof -
  obtain s' where "D (Read q) (api_sql w) = (Inr (Answer (Buckets bs)), s')" "view s' = view (api_sql w)"
    using assms unfolding sql_up_def by (metis fst_conv run_stmt.simps(5) snd_conv)
  then show ?thesis by (simp add: minute_counts_def effect_simps apiE_def)
qed

lemma per_minute_normal:
  assumes "\<forall>t \<in> set ts. dialect = ''sqlite'' \<longrightarrow> in_calendar t"
  shows "\<forall>(m, n) \<in> set (per_minute start ts). normalise_bucket (minute_bucket dialect m) = Inr m"
  using assms by (auto simp: per_minute_def Let_def intro!: normalise_minute)

text \<open>The lists of the answer, entry by entry.\<close>

lemma timeseries_entries:
  fixes w :: "('r, 'd, 'z) api_scheme"
  assumes "sql_up D view" and "in_calendar (window_start window now)" and "in_calendar now"
    and "\<forall>t \<in> log_created ` set (logs (view (api_sql w))) \<union> alert_created ` set (alerts (view (api_sql w))).
      dialect = ''sqlite'' \<longrightarrow> in_calendar t"
  shows "\<exists>ts w'. metrics_timeseries D dialect window now w = (Inr ts, w')
    \<and> length (ts_timestamps ts) = nat (clamp_window window) \<and> length (ts_logs ts) = nat (clamp_window window)
    \<and> length (ts_alerts ts) = nat (clamp_window window)
    \<and> (\<forall>i < nat (clamp_window window). let k = window_start window now + minutes (int i) in
        fromisoformat (ts_timestamps ts ! i) = Inr (Aware k)
        \<and> ts_logs ts ! i = count_of (\<lambda>l. floor_minute (log_created l) = k) (logs (view (api_sql w)))
        \<and> ts_alerts ts ! i = count_of (\<lambda>a. floor_minute (alert_created a) = k) (alerts (view (api_sql w))))"
proof -
  let ?start = "window_start window now" and ?keys = "window_minutes window now" and ?d = "view (api_sql w)"
  let ?lt = "map log_created (logs ?d)" and ?at = "map alert_created (alerts ?d)"
  obtain w1 where 1: "minute_counts D dialect (LogsPerMinute ?start) w
      = (Inr (map (\<lambda>(t, n). (minute_bucket dialect t, n)) (per_minute ?start ?lt)), w1)"
    and v1: "view (api_sql w1) = ?d"
    using minute_counts_up [OF assms(1), of "LogsPerMinute ?start" w _ dialect] by auto
  obtain w2 where 2: "minute_counts D dialect (AlertsPerMinute ?start) w1
      = (Inr (map (\<lambda>(t, n). (minute_bucket dialect t, n)) (per_minute ?start ?at)), w2)"
    using minute_counts_up [OF assms(1), of "AlertsPerMinute ?start" w1 _ dialect] v1 by auto
  let ?ts = "\<lparr>ts_timestamps = map isoformat_utc ?keys, ts_logs = map (look_up (map_of (rev (per_minute ?start ?lt)))) ?keys,
     ts_alerts = map (look_up (map_of (rev (per_minute ?start ?at)))) ?keys\<rparr>"
  have run: "metrics_timeseries D dialect window now w = (Inr ?ts, w2)"
    using assms(4)
    by (simp add: metrics_timeseries_def Let_def effect_simps 1 2 bucket_map_minutes [OF per_minute_normal])
  have len: "length ?keys = nat (clamp_window window)" by (simp add: window_minutes_alt)
  have entry: "fromisoformat (ts_timestamps ?ts ! i) = Inr (Aware k)
        \<and> ts_logs ?ts ! i = count_of (\<lambda>l. floor_minute (log_created l) = k) (logs ?d)
        \<and> ts_alerts ?ts ! i = count_of (\<lambda>a. floor_minute (alert_created a) = k) (alerts ?d)"
    if i: "i < nat (clamp_window window)" and k: "k = ?start + minutes (int i)" for i k
  proof -
    have key: "?keys ! i = k" using i by (simp add: window_minutes_alt k)
    have "k \<in> set ?keys" using i len key nth_mem by metis
    then have fk: "floor_minute k = k" by (rule window_minutes_floor)
    have start: "floor_minute ?start = ?start"
      using floor_minute_minutes [of now "1 - clamp_window window"] by (simp add: window_start_def minutes_def algebra_simps)
    have le: "?start \<le> k" by (simp add: k minutes_def us_per_minute_def)
    have "k \<le> floor_minute now" using i by (simp add: k window_start_def minutes_def us_per_minute_def)
    then have cal: "first_instant \<le> k" "k \<le> last_instant"
      using assms(2,3) le floor_minute_bounds [of now] by (auto simp: in_calendar_def)
    show ?thesis
      using fromisoformat_isoformat [OF cal] i len key per_minute_lookup [OF fk start le]
      by (simp add: count_of_def filter_map comp_def)
  qed
  show ?thesis
    by (intro exI [of _ ?ts] exI [of _ w2] conjI run allI impI)
      (use entry in \<open>auto simp: len Let_def\<close>)
qed

text \<open>
  The reference: the minutes of a window that ends with the minute of \<open>now\<close>, and the direct count of the times in each.
\<close>

definition chart_minutes :: "int \<Rightarrow> instant \<Rightarrow> instant list" where
  "chart_minutes window now = (let n = nat (max 1 (min window 180)) in
     map (\<lambda>i. floor_minute now - minutes (int (n - 1 - i))) [0..<n])"

definition chart :: "int \<Rightarrow> instant \<Rightarrow> instant list \<Rightarrow> int list" where
  "chart window now ts = map (\<lambda>k. count_of (\<lambda>t. floor_minute t = k) ts) (chart_minutes window now)"

lemma chart_minutes_nth:
  assumes "i < nat (clamp_window window)"
  shows "chart_minutes window now ! i = window_start window now + minutes (int i)"
  using assms
  by (simp add: chart_minutes_def Let_def clamp_window_def window_start_def minutes_def of_nat_diff le_max_iff_disj
      algebra_simps)

lemma length_chart_minutes: "length (chart_minutes window now) = nat (clamp_window window)"
  by (simp add: chart_minutes_def Let_def clamp_window_def)

lemma chart_minutes_in_calendar:
  assumes "\<forall>k \<in> set (chart_minutes window now). in_calendar k"
  shows "in_calendar (window_start window now)"
proof -
  have "0 < nat (clamp_window window)" by (simp add: clamp_window_def)
  with assms nth_mem [of 0 "chart_minutes window now"] have "in_calendar (chart_minutes window now ! 0)"
    by (simp add: length_chart_minutes)
  with chart_minutes_nth [OF \<open>0 < nat (clamp_window window)\<close>, of now] show ?thesis
    by (simp add: minutes_def)
qed

text \<open>
  C19. The chart: grouping by the minute in the database, as texts under SQLite or as timestamps elsewhere, reading
  the groups back and looking the minutes up is the same as counting, for each of the 1 to 180 minutes
  of the window that ends now, the logs and the alerts created in it; and the labels are read back as
  those minutes.
\<close>

theorem timeseries_counts_minutes:
  fixes w :: "('r, 'd, 'z) api_scheme"
  assumes "sql_up D view" and "\<forall>k \<in> set (chart_minutes window now). in_calendar k" and "in_calendar now"
    and "\<forall>t \<in> log_created ` set (logs (view (api_sql w))) \<union> alert_created ` set (alerts (view (api_sql w))).
      dialect = ''sqlite'' \<longrightarrow> in_calendar t"
  shows "\<exists>ts w'. metrics_timeseries D dialect window now w = (Inr ts, w')
    \<and> map fromisoformat (ts_timestamps ts) = map (\<lambda>k. Inr (Aware k)) (chart_minutes window now)
    \<and> ts_logs ts = chart window now (map log_created (logs (view (api_sql w))))
    \<and> ts_alerts ts = chart window now (map alert_created (alerts (view (api_sql w))))"
proof -
  let ?n = "nat (clamp_window window)" and ?k = "\<lambda>i. window_start window now + minutes (int i)"
  obtain ts w' where run: "metrics_timeseries D dialect window now w = (Inr ts, w')"
    and len: "length (ts_timestamps ts) = ?n" "length (ts_logs ts) = ?n" "length (ts_alerts ts) = ?n"
    and entry: "\<forall>i < ?n. fromisoformat (ts_timestamps ts ! i) = Inr (Aware (?k i))
        \<and> ts_logs ts ! i = count_of (\<lambda>l. floor_minute (log_created l) = ?k i) (logs (view (api_sql w)))
        \<and> ts_alerts ts ! i = count_of (\<lambda>a. floor_minute (alert_created a) = ?k i) (alerts (view (api_sql w)))"
    using timeseries_entries [OF assms(1) chart_minutes_in_calendar [OF assms(2)] assms(3,4)]
    unfolding Let_def by blast
  have "map fromisoformat (ts_timestamps ts) = map (\<lambda>k. Inr (Aware k)) (chart_minutes window now)"
    by (rule nth_equalityI) (use entry in \<open>simp_all add: len length_chart_minutes chart_minutes_nth\<close>)
  moreover have "ts_logs ts = chart window now (map log_created (logs (view (api_sql w))))"
    by (rule nth_equalityI)
      (use entry in \<open>simp_all add: len length_chart_minutes chart_minutes_nth chart_def count_of_def filter_map comp_def\<close>)
  moreover have "ts_alerts ts = chart window now (map alert_created (alerts (view (api_sql w))))"
    by (rule nth_equalityI)
      (use entry in \<open>simp_all add: len length_chart_minutes chart_minutes_nth chart_def count_of_def filter_map comp_def\<close>)
  ultimately show ?thesis using run by blast
qed

text \<open>Two alerts of the first minute of 1970, seen from the second: a window of two minutes.\<close>

lemma timeseries_counts_minutes_witness:
  "\<exists>ts w'. metrics_timeseries mem_sql ''sqlite'' 2 90000000 sample_server = (Inr ts, w')
    \<and> ts_logs ts = [0, 0] \<and> ts_alerts ts = [2, 0]"
proof -
  have cal: "\<forall>k \<in> set (chart_minutes 2 90000000). in_calendar k" "in_calendar 0" "in_calendar 90000000" by code_simp+
  have counts: "chart 2 90000000 [] = [0, 0]" "chart 2 90000000 [0, 0] = [2, 0]" by code_simp+
  have rows: "map log_created (logs (api_sql sample_server)) = []" "map alert_created (alerts (api_sql sample_server)) = [0, 0]"
    "log_created ` set (logs (api_sql sample_server)) \<union> alert_created ` set (alerts (api_sql sample_server)) = {0}"
    by (simp_all add: sample_server_def scored_alert_def)
  from timeseries_counts_minutes [OF sql_up_mem cal(1,3), of sample_server "''sqlite''"] cal(2)
  show ?thesis unfolding rows counts by blast
qed

end
