(* ===== verification/AlertsApi.thy ===== *)
theory AlertsApi
  imports LogService "HOL-Library.Multiset"
begin

text \<open>
  \<open>app/api/alerts.py\<close> and \<open>app/schemas/alert.py\<close>: the list of alerts, filtered by severity, sorted and paged.
\<close>

section \<open>Responses\<close>

record alert_response =
  ar_id :: string
  ar_log_id :: string
  ar_severity :: string
  ar_reason :: string
  ar_risk_score :: rat
  ar_score_breakdown :: "json pydict"
  ar_anomaly_type :: "string option"
  ar_created_at :: instant

text \<open>Rows older than the columns have \<open>NULL\<close> in them.\<close>

definition coerce_risk_score :: "rat option \<Rightarrow> rat" where
  "coerce_risk_score v = (case v of None \<Rightarrow> 0 | Some x \<Rightarrow> fl x)"

definition coerce_score_breakdown :: "json \<Rightarrow> json pydict" where
  "coerce_score_breakdown v = (case v of JObj d \<Rightarrow> d | _ \<Rightarrow> [])"

text \<open>\<open>AlertResponse.model_validate\<close> of a row.\<close>

definition alert_response_of :: "alert_row \<Rightarrow> exn + alert_response" where
  "alert_response_of a =
     (if alert_severity a \<notin> set alert_severities then Inl ValueError
      else Inr \<lparr>ar_id = uuid_str (alert_key a), ar_log_id = uuid_str (alert_log a), ar_severity = alert_severity a,
        ar_reason = alert_reason a, ar_risk_score = coerce_risk_score (Some (alert_risk a)),
        ar_score_breakdown = coerce_score_breakdown (JObj (map (\<lambda>(k, x). (k, JFloat x)) (alert_breakdown a))),
        ar_anomaly_type = Some (alert_type a), ar_created_at = alert_created a\<rparr>)"

fun validate_all :: "alert_row list \<Rightarrow> exn + alert_response list" where
  "validate_all [] = Inr []"
| "validate_all (a # as) = (case alert_response_of a of
       Inl e \<Rightarrow> Inl e
     | Inr r \<Rightarrow> (case validate_all as of Inl e \<Rightarrow> Inl e | Inr rs \<Rightarrow> Inr (r # rs)))"

record alert_list =
  al_total :: int
  al_limit :: int
  al_offset :: int
  al_items :: "alert_response list"

section \<open>The endpoint\<close>

definition sort_mapping :: "(string \<times> alert_sort) list" where
  "sort_mapping = [(''timestamp_desc'', TimestampDesc), (''timestamp_asc'', TimestampAsc),
     (''risk_score_desc'', RiskScoreDesc), (''risk_score_asc'', RiskScoreAsc)]"

text \<open>The declared bounds of the query parameters; a request outside them is answered 422.\<close>

definition list_params_ok :: "string option \<Rightarrow> int \<Rightarrow> int \<Rightarrow> string \<Rightarrow> bool" where
  "list_params_ok severity limit offset srt \<longleftrightarrow>
     (case severity of None \<Rightarrow> True | Some s \<Rightarrow> s \<in> set alert_severities)
     \<and> 1 \<le> limit \<and> limit \<le> 200 \<and> 0 \<le> offset \<and> srt \<in> fst ` set sort_mapping"

definition list_alerts ::
  "'d sql_conn \<Rightarrow> string option \<Rightarrow> int \<Rightarrow> int \<Rightarrow> string \<Rightarrow> (('r, 'd, 'z) api_scheme, alert_list) eff" where
  "list_alerts D severity limit offset srt =
     (if \<not> list_params_ok severity limit offset srt then raiseE (HTTPException 422)
      else
        bindE (apiE D (Read (CountAlerts severity))) (\<lambda>c. case c of
          Answer (Scalars [n]) \<Rightarrow>
            bindE (apiE D (Read (PageOfAlerts severity (the (map_of sort_mapping srt)) (nat limit) (nat offset))))
              (\<lambda>r. case r of
                 Answer (Page as) \<Rightarrow> (case validate_all as of
                     Inl e \<Rightarrow> raiseE e
                   | Inr items \<Rightarrow>
                       returnE \<lparr>al_total = n, al_limit = limit, al_offset = offset, al_items = items\<rparr>)
               | _ \<Rightarrow> raiseE ProtocolError)
        | _ \<Rightarrow> raiseE ProtocolError))"

section \<open>Pages\<close>

lemma validate_all_map:
  "\<forall>a \<in> set as. alert_severity a \<in> set alert_severities \<Longrightarrow>
    validate_all as = Inr (map (\<lambda>a. projr (alert_response_of a)) as)"
  by (induction as) (auto simp: alert_response_of_def)

lemma mset_order_alerts [simp]: "mset (order_alerts srt as) = mset as"
  by (cases srt) simp_all

lemma set_order_alerts [simp]: "set (order_alerts srt as) = set as"
  by (cases srt) simp_all

lemma length_order_alerts [simp]: "length (order_alerts srt as) = length as"
  by (cases srt) simp_all

text \<open>Pages of \<open>limit\<close> rows, one after the other, are the list.\<close>

lemma pages_concat:
  "concat (map (\<lambda>k. take n (drop (k * n) xs)) [0..<m]) = take (m * n) xs"
proof (induction m)
  case 0
  show ?case by simp
next
  case (Suc m)
  have "take (n + m * n) xs = take (m * n) xs @ take n (drop (m * n) xs)"
    by (subst add.commute) (rule take_add)
  with Suc show ?case by simp
qed

lemma read_up:
  fixes w :: "('r, 'd, 'z) api_scheme"
  assumes "sql_up D view"
  shows "\<exists>w'. apiE D (Read q) w = (Inr (Answer (answer_of q (view (api_sql w)))), w')
    \<and> view (api_sql w') = view (api_sql w)"
proof -
  obtain s' where "D (Read q) (api_sql w) = (Inr (Answer (answer_of q (view (api_sql w)))), s')"
    "view s' = view (api_sql w)"
    using assms unfolding sql_up_def by (metis fst_conv run_stmt.simps(5) snd_conv)
  then show ?thesis by (simp add: effect_simps apiE_def)
qed

text \<open>The rows of the result set in the requested order.\<close>

definition result_rows :: "string option \<Rightarrow> string \<Rightarrow> sql_db \<Rightarrow> alert_row list" where
  "result_rows severity srt d = order_alerts (the (map_of sort_mapping srt)) (alerts_where severity d)"

definition comes_before :: "string \<Rightarrow> alert_row \<Rightarrow> alert_row \<Rightarrow> bool" where
  "comes_before srt a b \<longleftrightarrow>
     (if srt = ''timestamp_desc'' then alert_created b \<le> alert_created a
      else if srt = ''timestamp_asc'' then alert_created a \<le> alert_created b
      else if srt = ''risk_score_desc'' then alert_risk b \<le> alert_risk a
      else alert_risk a \<le> alert_risk b)"

lemma sorted_wrt_sort_key: "sorted_wrt (\<lambda>a b. f a \<le> f b) (sort_key f xs)"
  using sorted_sort_key [of f xs] by (simp add: sorted_map)

lemma result_rows_sorted:
  assumes "srt \<in> fst ` set sort_mapping"
  shows "sorted_wrt (comes_before srt) (result_rows severity srt d)"
proof -
  have neg: "sorted_wrt (\<lambda>a b. f b \<le> f a) (sort_key (\<lambda>a. - f a) xs)" for f :: "alert_row \<Rightarrow> 'k :: linordered_idom" and xs
    using sorted_wrt_sort_key [of "\<lambda>a. - f a" xs] by simp
  from assms consider "srt = ''timestamp_desc''" | "srt = ''timestamp_asc''" | "srt = ''risk_score_desc''"
    | "srt = ''risk_score_asc''" by (auto simp: sort_mapping_def)
  then show ?thesis
  proof cases
    case 1
    then show ?thesis using neg [of alert_created] by (simp add: result_rows_def sort_mapping_def comes_before_def [abs_def])
  next
    case 2
    then show ?thesis
      using sorted_wrt_sort_key [of alert_created] by (simp add: result_rows_def sort_mapping_def comes_before_def [abs_def])
  next
    case 3
    then show ?thesis using neg [of alert_risk] by (simp add: result_rows_def sort_mapping_def comes_before_def [abs_def])
  next
    case 4
    then show ?thesis
      using sorted_wrt_sort_key [of alert_risk] by (simp add: result_rows_def sort_mapping_def comes_before_def [abs_def])
  qed
qed

lemma list_alerts_up:
  fixes w :: "('r, 'd, 'z) api_scheme"
  assumes "sql_up D view" and "db_ok (view (api_sql w))" and "list_params_ok severity limit offset srt"
  defines "d \<equiv> view (api_sql w)"
  shows "\<exists>w'. list_alerts D severity limit offset srt w = (Inr
      \<lparr>al_total = int (length (alerts_where severity d)), al_limit = limit, al_offset = offset,
       al_items = map (\<lambda>a. projr (alert_response_of a))
         (take (nat limit) (drop (nat offset) (result_rows severity srt d)))\<rparr>, w')"
proof -
  obtain w1 where 1: "apiE D (Read (CountAlerts severity)) w
      = (Inr (Answer (Scalars [int (length (alerts_where severity d))])), w1)" "view (api_sql w1) = d"
    using read_up [OF assms(1), of "CountAlerts severity" w] by (auto simp: d_def)
  let ?page = "take (nat limit) (drop (nat offset) (result_rows severity srt d))"
  obtain w2 where 2: "apiE D (Read (PageOfAlerts severity (the (map_of sort_mapping srt)) (nat limit) (nat offset))) w1
      = (Inr (Answer (Page ?page)), w2)"
    using read_up [OF assms(1), of "PageOfAlerts severity (the (map_of sort_mapping srt)) (nat limit) (nat offset)" w1]
    by (auto simp: 1(2) result_rows_def)
  have "set ?page \<subseteq> set (alerts d)"
    using set_take_subset [of "nat limit"] set_drop_subset [of "nat offset" "result_rows severity srt d"]
    by (fastforce simp: result_rows_def alerts_where_def split: option.splits)
  then have "\<forall>a \<in> set ?page. alert_severity a \<in> set alert_severities"
    using assms(2) unfolding db_ok_def d_def by blast
  with validate_all_map show ?thesis
    using assms(3) by (simp add: list_alerts_def effect_simps 1 2)
qed


definition paged_server :: "(redis_db, sql_db) api" where
  "paged_server = \<lparr>conn = empty_db, counters = [],
     api_sql = \<lparr>logs = map (\<lambda>u. \<lparr>log_key = u, log_source = ''s'', log_lvl = ''INFO'', log_message = ''m'',
         log_timestamp = Naive 0, log_ip = None, log_enqueued = True, log_created = 0\<rparr>) [''a'', ''b'', ''c''],
       alerts = map (\<lambda>(u, x). \<lparr>alert_key = u, alert_log = u, alert_severity = ''LOW'', alert_reason = ''r'',
         alert_risk = x, alert_breakdown = [], alert_type = ''t'', alert_created = 0\<rparr>)
           [(''a'', 1 / 4), (''b'', 3 / 4), (''c'', 1 / 2)]\<rparr>\<rparr>"


end
