(* ===== verification/HealthApi.thy ===== *)
theory HealthApi
  imports AlertsApi PyIso AlertWorker
begin

text \<open>
  \<open>app/api/health.py\<close>: the database is asked first and its failure is an error; whatever Redis does only
  shows in the answer. The clocks are arguments: two readings of \<open>perf_counter\<close>, and the time of day as a
  float.
\<close>

record health_response =
  hr_status :: string
  hr_db_latency_ms :: rat
  hr_worker_alive :: bool
  hr_queue_depth :: int
  hr_last_model_retrain :: "py_datetime option"

definition is_alive :: "rat \<Rightarrow> rat option \<Rightarrow> bool" where
  "is_alive now hb = (case hb of None \<Rightarrow> False | Some t \<Rightarrow> fl (now - t) \<le> 30)"

text \<open>\<open>if retrain_iso: last_model_retrain = datetime.fromisoformat(retrain_iso)\<close>\<close>

definition retrain_time :: "stored option \<Rightarrow> exn + py_datetime option" where
  "retrain_time v = (case v of
       None \<Rightarrow> Inr None
     | Some (RawText s) \<Rightarrow> if s = [] then Inr None else map_sum id Some (fromisoformat s)
     | Some _ \<Rightarrow> Inl ValueError)"

text \<open>The \<open>try\<close> block. Its last assignment is the retrain time, so a failure anywhere leaves that unset.\<close>

definition redis_health ::
  "'r redis_conn \<Rightarrow> rat \<Rightarrow> (('r, 'z) env_scheme, bool \<times> int \<times> py_datetime option) eff" where
  "redis_health R now =
     tryE
       (bindE (get_worker_heartbeat R) (\<lambda>hb.
        bindE (queue_depth_total R) (\<lambda>depth.
        bindE (get_last_model_retrain R) (\<lambda>iso.
          case retrain_time iso of
            Inl e \<Rightarrow> raiseE e
          | Inr retrain \<Rightarrow> returnE (is_alive now hb, depth, retrain)))))
       (\<lambda>_. returnE (False, 0, None))"

definition health_check ::
  "'r redis_conn \<Rightarrow> 'd sql_conn \<Rightarrow> rat \<Rightarrow> rat \<Rightarrow> rat \<Rightarrow> (('r, 'd, 'z) api_scheme, health_response) eff" where
  "health_check R D db_start db_end now =
     thenE (apiE D (Read SelectOne))
       (bindE (redis_health R now) (\<lambda>(alive, depth, retrain). returnE
          \<lparr>hr_status = ''ok'', hr_db_latency_ms = py_round (fl (fl (db_end - db_start) * 1000)) 2,
           hr_worker_alive = alive, hr_queue_depth = depth, hr_last_model_retrain = retrain\<rparr>))"

section \<open>What the answer says\<close>

text \<open>What the worker leaves in Redis when it beats and has trained.\<close>

definition queue_sizes :: "redis_db \<Rightarrow> int" where
  "queue_sizes d = int (length (rlists d MAIN_QUEUE)) + int (length (rlists d PROCESSING_QUEUE))
     + int (length (rlists d DLQ))"

lemma redis_health_up:
  fixes w :: "('r, 'z) env_scheme"
  assumes "redis_ok R view" and "redis_up R"
    and "rstrings (db view w) WORKER_HEARTBEAT_KEY = Some (Text (JFloat t))"
    and "rstrings (db view w) MODEL_RETRAIN_KEY = Some (RawText (isoformat_utc u))" and "isoformat_utc u \<noteq> []"
    and "fromisoformat (isoformat_utc u) = Inr (Aware u)"
  shows "\<exists>w'. redis_health R now w = (Inr (fl (now - t) \<le> 30, queue_sizes (db view w), Some (Aware u)), w')"
proof -
  obtain c1 where 1: "redis_get R WORKER_HEARTBEAT_KEY (conn w) = (Inr (Some (Text (JFloat t))), c1)"
    "view c1 = db view w"
    using redis_get_up [OF assms(1,2), of "conn w" WORKER_HEARTBEAT_KEY] assms(3) by auto
  let ?cs = "[LLEN MAIN_QUEUE, LLEN PROCESSING_QUEUE, LLEN DLQ]"
  obtain rs c2 where 2: "R ?cs c1 = (Inr rs, c2)" using assms(2) unfolding redis_up_def by blast
  with assms(1) have "apply_cmds ?cs (view c1) = (rs, view c2)"
    unfolding redis_ok_def by (auto dest!: spec [of _ ?cs] spec [of _ c1])
  then have rs: "rs = [RInt (int (length (rlists (db view w) MAIN_QUEUE))),
      RInt (int (length (rlists (db view w) PROCESSING_QUEUE))), RInt (int (length (rlists (db view w) DLQ)))]"
    and c2: "view c2 = db view w" using 1(2) by auto
  obtain c3 where 3: "redis_get R MODEL_RETRAIN_KEY c2 = (Inr (Some (RawText (isoformat_utc u))), c3)"
    using redis_get_up [OF assms(1,2), of c2 MODEL_RETRAIN_KEY] assms(4) c2 by auto
  show ?thesis
    using assms(5,6)
    by (simp add: redis_health_def get_worker_heartbeat_def queue_depth_total_def get_last_model_retrain_def
        effect_simps redisE_apply 1 2 3 rs retrain_time_def is_alive_def queue_sizes_def)
qed

text \<open>
  C22. The health page sees the worker: after a heartbeat at \<open>t\<close> and a training at \<open>u\<close>, over a Redis that works,
  the endpoint reports a live worker exactly when the heartbeat is at most 30 seconds old, the sum
  of the three queues, and the very instant of the training, for every instant of Python's calendar.
\<close>

theorem health_sees_worker:
  fixes w :: "('r, 'z) env_scheme" and a :: "('r, 'd, 'y) api_scheme"
  assumes "redis_ok R view" and "redis_up R" and "sql_up D sview" and "in_calendar u"
    and "heartbeat R t w = (x, w1)" and "set_last_model_retrain R (isoformat_utc u) w1 = (y, w2)"
    and "db view a = db view w2"
  shows "\<exists>r a'. health_check R D db_start db_end now a = (Inr r, a')
    \<and> (hr_worker_alive r \<longleftrightarrow> fl (now - t) \<le> 30) \<and> hr_queue_depth r = queue_sizes (db view w2)
    \<and> hr_last_model_retrain r = Some (Aware u)"
proof -
  have iso: "fromisoformat (isoformat_utc u) = Inr (Aware u)"
    using assms(4) by (intro fromisoformat_isoformat) (simp_all add: in_calendar_def)
  then have ne: "isoformat_utc u \<noteq> []" by (auto simp: fromisoformat_def iso_shape_def)
  have w1: "db view w1 = set_string WORKER_HEARTBEAT_KEY (Text (JFloat t)) (Some 120) (db view w)"
    using redis_set_up [OF assms(1,2), of WORKER_HEARTBEAT_KEY "Text (JFloat t)" "Some 120" "conn w"] assms(5)
    by (auto simp: heartbeat_def set_worker_heartbeat_def effect_simps redisE_apply)
  have w2: "db view w2 = set_string MODEL_RETRAIN_KEY (RawText (isoformat_utc u)) None (db view w1)"
    using redis_set_up [OF assms(1,2), of MODEL_RETRAIN_KEY "RawText (isoformat_utc u)" None "conn w1"] assms(6)
    by (auto simp: set_last_model_retrain_def effect_simps redisE_apply)
  obtain a1 where 1: "apiE D (Read SelectOne) a = (Inr (Answer (Scalars [1])), a1)" and a1: "conn a1 = conn a"
  proof -
    obtain a1 where 1: "apiE D (Read SelectOne) a = (Inr (Answer (Scalars [1])), a1)"
      using read_up [OF assms(3), of SelectOne a] by auto
    with apiE_cases [OF 1] show thesis using that by blast
  qed
  have keys: "rstrings (db view a1) WORKER_HEARTBEAT_KEY = Some (Text (JFloat t))"
    "rstrings (db view a1) MODEL_RETRAIN_KEY = Some (RawText (isoformat_utc u))"
    using assms(7) by (simp_all add: a1 w1 w2 WORKER_HEARTBEAT_KEY_def MODEL_RETRAIN_KEY_def)
  obtain a2 where "redis_health R now a1 = (Inr (fl (now - t) \<le> 30, queue_sizes (db view a1), Some (Aware u)), a2)"
    using redis_health_up [OF assms(1,2) keys ne iso] by blast
  then show ?thesis by (simp add: health_check_def effect_simps 1 a1 assms(7))
qed

lemma health_sees_worker_witness:
  "let w1 = snd (heartbeat mem_redis 100 \<lparr>conn = empty_db, counters = []\<rparr>);
       w2 = snd (set_last_model_retrain mem_redis (isoformat_utc 1709210096000250) w1);
       a = \<lparr>conn = conn w2, counters = [], api_sql = \<lparr>logs = [], alerts = []\<rparr>\<rparr>
   in \<exists>r a'. health_check mem_redis mem_sql 0 1 120 a = (Inr r, a') \<and> hr_worker_alive r
     \<and> hr_last_model_retrain r = Some (Aware 1709210096000250)"
proof -
  let ?w = "\<lparr>conn = empty_db, counters = []\<rparr>"
  obtain x w1 where 1: "heartbeat mem_redis 100 ?w = (x, w1)" by fastforce
  obtain y w2 where 2: "set_last_model_retrain mem_redis (isoformat_utc 1709210096000250) w1 = (y, w2)" by fastforce
  let ?a = "\<lparr>conn = conn w2, counters = [], api_sql = \<lparr>logs = [], alerts = []\<rparr>\<rparr>"
  have "in_calendar 1709210096000250" by code_simp
  from health_sees_worker [OF redis_ok_mem redis_up_mem sql_up_mem this 1 2, of ?a 0 1 120]
  show ?thesis by (auto simp: Let_def 1 2)
qed

text \<open>
  Redis cannot take the health page down: while the database answers, so does the endpoint; without Redis it reports
  a dead worker, an empty queue and no training, and it reports a live worker only on a heartbeat that
  it read.
\<close>

lemma redis_health_result:
  "\<exists>alive depth retrain w'. redis_health R now w = (Inr (alive, depth, retrain), w')
    \<and> (alive \<longrightarrow> (\<exists>t w1. get_worker_heartbeat R w = (Inr (Some t), w1) \<and> fl (now - t) \<le> 30))"
proof -
  obtain r w1 where g: "get_worker_heartbeat R w = (r, w1)" by fastforce
  show ?thesis
  proof (cases r)
    case (Inl e)
    with g have "redis_health R now w = (Inr (False, 0, None), w1)" by (simp add: redis_health_def effect_simps)
    then show ?thesis by blast
  next
    case (Inr hb)
    with g show ?thesis
      by (auto simp: redis_health_def effect_simps is_alive_def split: prod.splits sum.splits option.splits)
  qed
qed

theorem health_answers_without_redis:
  fixes a :: "('r, 'd, 'y) api_scheme"
  assumes "sql_up D sview"
  shows "\<exists>r a'. health_check R D db_start db_end now a = (Inr r, a') \<and> hr_status r = ''ok''
    \<and> (hr_worker_alive r \<longrightarrow> (\<exists>t (a1 :: ('r, 'd, 'y) api_scheme) a2. get_worker_heartbeat R a1 = (Inr (Some t), a2) \<and> fl (now - t) \<le> 30))
    \<and> ((\<forall>cs s. \<exists>e s'. R cs s = (Inl e, s')) \<longrightarrow>
        \<not> hr_worker_alive r \<and> hr_queue_depth r = 0 \<and> hr_last_model_retrain r = None)"
proof -
  obtain a1 where 1: "apiE D (Read SelectOne) a = (Inr (Answer (Scalars [1])), a1)"
    using read_up [OF assms, of SelectOne a] by auto
  obtain alive depth retrain a2 where 2: "redis_health R now a1 = (Inr (alive, depth, retrain), a2)"
    and hb: "alive \<longrightarrow> (\<exists>t w1. get_worker_heartbeat R a1 = (Inr (Some t), w1) \<and> fl (now - t) \<le> 30)"
    using redis_health_result by blast
  have down: "\<not> alive \<and> depth = 0 \<and> retrain = None" if d: "\<forall>cs s. \<exists>e s'. R cs s = (Inl e, s')"
  proof -
    obtain e s' where "R [GET WORKER_HEARTBEAT_KEY] (conn a1) = (Inl e, s')" using d by blast
    then have "\<exists>u. get_worker_heartbeat R a1 = (Inl e, u)"
      by (simp add: get_worker_heartbeat_def redis_get_def redis_call_def effect_simps redisE_apply)
    with 2 show ?thesis by (auto simp: redis_health_def effect_simps)
  qed
  have read: "alive \<longrightarrow> (\<exists>t (a1 :: ('r, 'd, 'y) api_scheme) a2.
      get_worker_heartbeat R a1 = (Inr (Some t), a2) \<and> fl (now - t) \<le> 30)"
    using hb by blast
  let ?r = "\<lparr>hr_status = ''ok'', hr_db_latency_ms = py_round (fl (fl (db_end - db_start) * 1000)) 2,
     hr_worker_alive = alive, hr_queue_depth = depth, hr_last_model_retrain = retrain\<rparr>"
  have "health_check R D db_start db_end now a = (Inr ?r, a2)" by (simp add: health_check_def effect_simps 1 2)
  moreover have "hr_status ?r = ''ok''" "hr_worker_alive ?r = alive" "hr_queue_depth ?r = depth"
    "hr_last_model_retrain ?r = retrain" by simp_all
  ultimately show ?thesis using read down by metis
qed

lemma health_answers_without_redis_witness:
  "\<exists>r a'. health_check (\<lambda>cs s. (Inl RedisError, s)) mem_sql 0 1 120
      (\<lparr>conn = (), counters = [], api_sql = \<lparr>logs = [], alerts = []\<rparr>\<rparr> :: (unit, sql_db) api) = (Inr r, a')
    \<and> \<not> hr_worker_alive r \<and> hr_queue_depth r = 0"
  using health_answers_without_redis [OF sql_up_mem, of "\<lambda>cs s. (Inl RedisError, s)" 0 1 120
    "\<lparr>conn = (), counters = [], api_sql = \<lparr>logs = [], alerts = []\<rparr>\<rparr> :: (unit, sql_db) api"] by auto

end
