(* ===== verification/IpProfileApi.thy ===== *)
theory IpProfileApi
  imports AlertsApi
begin

text \<open>
  \<open>app/api/ip_profile.py\<close>: totals over the logs of an address and their alerts, or 404.
\<close>

record ip_profile =
  ip_ip :: string
  ip_total_logs :: int
  ip_error_ratio :: rat
  ip_last_seen :: instant
  ip_avg_risk_score :: rat
  ip_recent_alert_count :: int

definition recent_cutoff :: "instant \<Rightarrow> instant" where
  "recent_cutoff now = now - days 1"

text \<open>\<open>int(row[k] or 0)\<close>\<close>

definition or_zero :: "int option \<Rightarrow> int" where
  "or_zero v = (case v of None \<Rightarrow> 0 | Some n \<Rightarrow> n)"

definition get_ip_profile ::
  "'d sql_conn \<Rightarrow> string \<Rightarrow> instant \<Rightarrow> (('r, 'd, 'z) api_scheme, ip_profile) eff" where
  "get_ip_profile D ip now =
     bindE (apiE D (Read (AggregateOf ip [''ERROR'', ''CRITICAL''] (recent_cutoff now)))) (\<lambda>r. case r of
       Answer (Aggregate total_logs error_logs last_seen avg_risk recent) \<Rightarrow>
         if total_logs = 0 then raiseE (HTTPException 404)
         else (case last_seen of
             None \<Rightarrow> raiseE (HTTPException 404)
           | Some seen \<Rightarrow> returnE
               \<lparr>ip_ip = ip, ip_total_logs = total_logs,
                ip_error_ratio = py_round (fl (of_int (or_zero error_logs) / of_int total_logs)) 4,
                ip_last_seen = seen, ip_avg_risk_score = py_round (fl avg_risk) 4,
                ip_recent_alert_count = or_zero recent\<rparr>)
     | _ \<Rightarrow> raiseE ProtocolError)"

section \<open>The join\<close>

lemma find_SomeD: "find P xs = Some x \<Longrightarrow> x \<in> set xs \<and> P x"
  by (auto simp: find_Some_iff)

lemma filter_unique:
  "distinct (map f xs) \<Longrightarrow>
    filter (\<lambda>a. f a = u) xs = (case find (\<lambda>a. f a = u) xs of None \<Rightarrow> [] | Some a \<Rightarrow> [a])"
proof (induction xs)
  case Nil
  then show ?case by simp
next
  case (Cons x xs)
  show ?case
  proof (cases "f x = u")
    case True
    with Cons.prems have "filter (\<lambda>a. f a = u) xs = []"
      by (metis (mono_tags, lifting) distinct.simps(2) filter_False image_eqI list.simps(9) set_map)
    with True show ?thesis by simp
  next
    case False
    with Cons show ?thesis by simp
  qed
qed

text \<open>With one alert at most for a log, the join has one row for each log of the address.\<close>

lemma joined_rows:
  assumes "db_ok d"
  shows "joined ip d = map (\<lambda>l. (l, find (\<lambda>a. alert_log a = log_key l) (alerts d)))
    (filter (\<lambda>l. log_ip l = Some ip) (logs d))"
proof -
  have "distinct (map alert_log (alerts d))" using assms by (simp add: db_ok_def)
  note f = filter_unique [OF this]
  have row: "(case filter (\<lambda>a. alert_log a = log_key l) (alerts d) of [] \<Rightarrow> [(l, None)] | as \<Rightarrow> map (\<lambda>a. (l, Some a)) as)
      = [(l, find (\<lambda>a. alert_log a = log_key l) (alerts d))]" for l
    unfolding f by (simp split: option.split)
  show ?thesis unfolding joined_def row by (simp add: concat_map_singleton)
qed

lemma count_of_le: "0 \<le> count_of P xs \<and> count_of P xs \<le> int (length xs)"
  by (simp add: count_of_def)

lemma ratio_bounds:
  assumes "0 \<le> a" and "a \<le> b" and "0 < b"
  shows "0 \<le> py_round (fl (of_int a / of_int b)) 4 \<and> py_round (fl (of_int a / of_int b)) 4 \<le> 1"
proof -
  have "0 \<le> (of_int a / of_int b :: rat)" using assms by simp
  moreover have "of_int a / of_int b \<le> (1 :: rat)" using assms by (simp add: divide_le_eq)
  ultimately show ?thesis by (simp add: py_round_le_1 fl_le_1)
qed

lemma avg_bounds:
  assumes "\<forall>x \<in> set xs. 0 \<le> x \<and> x \<le> 1"
  shows "0 \<le> avg_or_zero xs \<and> avg_or_zero xs \<le> 1"
proof -
  have "0 \<le> sum_list xs \<and> sum_list xs \<le> of_nat (length xs)"
    using assms by (induction xs) (auto simp: add.commute intro: add_mono)
  then show ?thesis by (simp add: avg_or_zero_def divide_le_eq zero_le_divide_iff)
qed

text \<open>The aggregate over the logs of an address that has some.\<close>

lemma aggregate_of_logs:
  fixes ip d
  defines "ls \<equiv> filter (\<lambda>l. log_ip l = Some ip) (logs d)"
  assumes "db_ok d" and "\<forall>a \<in> set (alerts d). 0 \<le> alert_risk a \<and> alert_risk a \<le> 1" and "ls \<noteq> []"
  shows "\<exists>errs last avg recent. answer_of (AggregateOf ip levels cutoff) d
        = Aggregate (int (length ls)) (Some errs) (Some last) avg (Some recent)
    \<and> 0 \<le> errs \<and> errs \<le> int (length ls) \<and> 0 \<le> recent \<and> recent \<le> int (length ls) \<and> 0 \<le> avg \<and> avg \<le> 1
    \<and> (\<exists>l \<in> set ls. last = as_utc (log_timestamp l)) \<and> (\<forall>l \<in> set ls. as_utc (log_timestamp l) \<le> last)"
proof -
  define rs where "rs = joined ip d"
  have rows: "rs = map (\<lambda>l. (l, find (\<lambda>a. alert_log a = log_key l) (alerts d))) ls"
    unfolding rs_def ls_def by (rule joined_rows [OF assms(2)])
  then have ne: "rs \<noteq> []" and len: "length rs = length ls" using assms(4) by simp_all
  define scores where "scores = List.map_filter (\<lambda>(_, a). map_option alert_risk a) rs"
  define times where "times = set (map (\<lambda>(l, _). as_utc (log_timestamp l)) rs)"
  have times: "times = (\<lambda>l. as_utc (log_timestamp l)) ` set ls" by (force simp: times_def rows)
  then have fin: "finite times" "times \<noteq> {}" using assms(4) by simp_all
  have "x \<in> alert_risk ` set (alerts d)" if "x \<in> set scores" for x
    using that unfolding scores_def rows map_filter_def by (force dest: find_SomeD)
  then have "\<forall>x \<in> set scores. 0 \<le> x \<and> x \<le> 1" using assms(3) by fastforce
  note avg = avg_bounds [OF this]
  have last: "\<exists>l \<in> set ls. Max times = as_utc (log_timestamp l)"
    using Max_in [OF fin] by (subst (asm) (2) times) blast
  have least: "\<forall>l \<in> set ls. as_utc (log_timestamp l) \<le> Max times"
    using Max_ge [OF fin(1)] by (auto simp: times)
  have "answer_of (AggregateOf ip levels cutoff) d = Aggregate (int (length ls))
      (Some (count_of (\<lambda>(l, _). log_lvl l \<in> set levels) rs)) (Some (Max times)) (avg_or_zero scores)
      (Some (count_of (\<lambda>(_, a). case a of None \<Rightarrow> False | Some a \<Rightarrow> cutoff \<le> alert_created a) rs))"
    using ne len by (simp add: rs_def [symmetric] Let_def sum_case_def scores_def times_def)
  with avg last least count_of_le [of _ rs] len show ?thesis by metis
qed

text \<open>
  C34. The profile of an address: 404 exactly when the database has no log with that address; otherwise the
  total is the number of its logs, whatever alerts they have, the error ratio and, for scores in the unit interval, the
  average risk are in the unit interval, no more recent alerts are counted than there are logs, and the
  last time is the latest time stamp of a log.
\<close>

theorem ip_profile_bounds:
  fixes w :: "('r, 'd, 'z) api_scheme"
  assumes "sql_up D view" and "db_ok (view (api_sql w))"
    and "\<forall>a \<in> set (alerts (view (api_sql w))). 0 \<le> alert_risk a \<and> alert_risk a \<le> 1"
  shows "let ls = filter (\<lambda>l. log_ip l = Some ip) (logs (view (api_sql w))) in
    if ls = [] then (\<exists>w'. get_ip_profile D ip now w = (Inl (HTTPException 404), w'))
    else (\<exists>p w'. get_ip_profile D ip now w = (Inr p, w') \<and> ip_ip p = ip \<and> ip_total_logs p = int (length ls)
      \<and> 0 \<le> ip_error_ratio p \<and> ip_error_ratio p \<le> 1 \<and> 0 \<le> ip_avg_risk_score p \<and> ip_avg_risk_score p \<le> 1
      \<and> 0 \<le> ip_recent_alert_count p \<and> ip_recent_alert_count p \<le> ip_total_logs p
      \<and> (\<exists>l \<in> set ls. ip_last_seen p = as_utc (log_timestamp l))
      \<and> (\<forall>l \<in> set ls. as_utc (log_timestamp l) \<le> ip_last_seen p))"
proof -
  define d where "d = view (api_sql w)"
  define ls where "ls = filter (\<lambda>l. log_ip l = Some ip) (logs d)"
  let ?q = "AggregateOf ip [''ERROR'', ''CRITICAL''] (recent_cutoff now)"
  obtain w1 where 1: "apiE D (Read ?q) w = (Inr (Answer (answer_of ?q d)), w1)"
    using read_up [OF assms(1), of ?q w] by (auto simp: d_def)
  show ?thesis
  proof (cases "ls = []")
    case True
    then have "joined ip d = []" using joined_rows [of d ip] assms(2) by (simp add: ls_def d_def)
    then show ?thesis
      using True 1 by (simp add: get_ip_profile_def effect_simps ls_def d_def Let_def)
  next
    case False
    have n: "0 < int (length ls)" using False by simp
    obtain errs last avg recent where a: "answer_of ?q d = Aggregate (int (length ls)) (Some errs) (Some last) avg (Some recent)"
      and b: "0 \<le> errs" "errs \<le> int (length ls)" "0 \<le> recent" "recent \<le> int (length ls)" "0 \<le> avg" "avg \<le> 1"
      and t: "\<exists>l \<in> set ls. last = as_utc (log_timestamp l)" "\<forall>l \<in> set ls. as_utc (log_timestamp l) \<le> last"
      using aggregate_of_logs [of d ip "[''ERROR'', ''CRITICAL'']" "recent_cutoff now"] assms(2,3) False
      unfolding ls_def d_def by metis
    let ?p = "\<lparr>ip_ip = ip, ip_total_logs = int (length ls),
        ip_error_ratio = py_round (fl (of_int errs / of_int (int (length ls)))) 4, ip_last_seen = last,
        ip_avg_risk_score = py_round (fl avg) 4, ip_recent_alert_count = recent\<rparr>"
    have "get_ip_profile D ip now w = (Inr ?p, w1)"
      using False by (simp add: get_ip_profile_def effect_simps 1 [unfolded a] or_zero_def)
    moreover have "0 \<le> ip_error_ratio ?p \<and> ip_error_ratio ?p \<le> 1" using ratio_bounds [OF b(1,2) n] by simp
    ultimately show ?thesis
      using False b t unfolding ls_def [symmetric] d_def [symmetric] Let_def
      by (auto simp: py_round_le_1 fl_le_1 intro!: exI [of _ ?p])
  qed
qed

lemma ip_profile_bounds_witness:
  "let w = \<lparr>conn = (), counters = [], api_sql = \<lparr>logs = [\<lparr>log_key = ''a'', log_source = ''s'', log_lvl = ''FATAL'',
       log_message = ''m'', log_timestamp = Naive 7, log_ip = Some ''10.0.0.1'', log_enqueued = True, log_created = 0\<rparr>],
       alerts = [\<lparr>alert_key = ''k'', alert_log = ''a'', alert_severity = ''LOW'', alert_reason = ''r'',
         alert_risk = 1 / 4, alert_breakdown = [], alert_type = ''t'', alert_created = 0\<rparr>]\<rparr>\<rparr>
   in (\<exists>p w'. get_ip_profile mem_sql ''10.0.0.1'' 0 w = (Inr p, w') \<and> ip_total_logs p = 1)
     \<and> (\<exists>w'. get_ip_profile mem_sql ''10.0.0.2'' 0 w = (Inl (HTTPException 404), w'))"
proof -
  let ?d = "\<lparr>logs = [\<lparr>log_key = ''a'', log_source = ''s'', log_lvl = ''FATAL'',
       log_message = ''m'', log_timestamp = Naive 7, log_ip = Some ''10.0.0.1'', log_enqueued = True, log_created = 0\<rparr>],
       alerts = [\<lparr>alert_key = ''k'', alert_log = ''a'', alert_severity = ''LOW'', alert_reason = ''r'',
         alert_risk = 1 / 4, alert_breakdown = [], alert_type = ''t'', alert_created = 0\<rparr>]\<rparr>"
  let ?w = "\<lparr>conn = (), counters = [], api_sql = ?d\<rparr> :: (unit, sql_db) api"
  have ok: "db_ok ?d" by code_simp
  show ?thesis
    using ip_profile_bounds [OF sql_up_mem, of ?w "''10.0.0.1''" 0] ip_profile_bounds [OF sql_up_mem, of ?w "''10.0.0.2''" 0] ok
    by auto
qed

end
