(* ===== verification/LoggingConfig.thy ===== *)
theory LoggingConfig
  imports AccessControl PyTime
begin

text \<open>
  \<open>app/logging_config.py\<close>: the JSON line of a log record, with the identifier of the request in which it
  was made, and the set-up of the root logger. The text of a traceback is that of the standard library.
\<close>

section \<open>The line of a record\<close>

text \<open>\<open>exc_text\<close> is what \<open>formatException\<close> makes of \<open>exc_info\<close>, \<open>None\<close> when there is no exception in it.\<close>

record log_record =
  levelname :: string
  logger_name :: string
  get_message :: string
  source_module :: string
  exc_text :: "string option"

definition log_entry :: "instant \<Rightarrow> log_record \<Rightarrow> json pydict" where
  "log_entry now r = [(''timestamp'', JStr (isoformat_utc now)), (''level'', JStr (levelname r)),
     (''logger'', JStr (logger_name r)), (''message'', JStr (get_message r)), (''module'', JStr (source_module r))]"

definition format_record :: "instant \<Rightarrow> log_record \<Rightarrow> 'z request_context_scheme \<Rightarrow> stored" where
  "format_record now r w =
     (let entry = log_entry now r;
          entry = (case logged_request_id w of None \<Rightarrow> entry | Some req_id \<Rightarrow> dict_set entry ''request_id'' (JStr req_id));
          entry = (case exc_text r of None \<Rightarrow> entry | Some t \<Rightarrow> dict_set entry ''exception'' (JStr t))
      in json_dumps (JObj entry))"

section \<open>The set-up\<close>

datatype log_handler = StdoutJson | OtherHandler nat

record logging_state =
  root_handlers :: "log_handler list"
  root_level :: int
  logger_levels :: "string \<rightharpoonup> int"

definition LOG_INFO :: int where "LOG_INFO = 20"
definition LOG_WARNING :: int where "LOG_WARNING = 30"

definition setup_logging :: "int \<Rightarrow> logging_state \<Rightarrow> logging_state" where
  "setup_logging level st =
     (let st = st\<lparr>root_handlers := []\<rparr>;
          st = st\<lparr>root_handlers := root_handlers st @ [StdoutJson]\<rparr>;
          st = st\<lparr>root_level := level\<rparr>
      in st\<lparr>logger_levels := (logger_levels st)(''uvicorn.access'' \<mapsto> LOG_WARNING, ''sqlalchemy.engine'' \<mapsto> LOG_WARNING)\<rparr>)"

text \<open>Setting up twice, as the worker and the API of one process would, logs no line twice.\<close>

lemma setup_logging_twice:
  "setup_logging level (setup_logging level' st) = setup_logging level st
   \<and> root_handlers (setup_logging level st) = [StdoutJson]"
  by (simp add: setup_logging_def Let_def)

section \<open>Lines and requests\<close>

text \<open>What a reader of the line gets for a key.\<close>

definition line_field :: "string \<Rightarrow> stored \<Rightarrow> json option" where
  "line_field k s = (case s of Text (JObj d) \<Rightarrow> dict_get d k | _ \<Rightarrow> None)"

text \<open>
  Every line that a handler logs carries the identifier that the answer carries, and a line logged outside requests carries none; the
  other fields are those of the record.
\<close>

theorem request_lines_carry_id:
  assumes "fresh \<noteq> []"
  shows "line_field ''request_id'' (format_record now r (w\<lparr>request_id_ctx := Some (request_id_of incoming fresh)\<rparr>))
      = Some (JStr (request_id_of incoming fresh))
    \<and> line_field ''request_id'' (format_record now r (w\<lparr>request_id_ctx := None\<rparr>)) = None
    \<and> line_field ''message'' (format_record now r w) = Some (JStr (get_message r))
    \<and> line_field ''exception'' (format_record now r w) = map_option JStr (exc_text r)"
proof -
  have "truthy (Some (request_id_of incoming fresh))"
    using assms by (auto simp: request_id_of_def truthy_def split: option.splits)
  then show ?thesis
    by (auto simp: line_field_def format_record_def log_entry_def logged_request_id_def truthy_def json_dumps_def
        Let_def dict_simps split: option.split)
qed

end
