(* ===== verification/Spec2Isabelle.thy ===== *)
theory Spec2Isabelle
  imports SystemMachine AgentConfig AgentPipeline Application Timeseries HealthApi IpProfileApi LoggingConfig
begin

text \<open>
  SentinelAI collects logs and raises alerts. An agent on a host tails files and posts each line to
  the API; the API writes the log to a database and puts a message on a queue in Redis; a worker
  takes the messages, scores the logs with rules, statistics and a model, writes alerts, learns from
  the quiet logs and retrains its model; the API shows alerts, metrics and the state of the system, and
  streams events to the websockets of dashboards. This development models the Python of the
  three programs (\<open>sentinel-agent/\<close>, \<open>app/main.py\<close> and \<open>app/workers/alert_worker.py\<close>) as functions and
  step relations and proves what makes them correct, alone and together.

  \<^bold>\<open>How code becomes definitions.\<close> An operation that changes state or can raise has the type \<open>('s, 'a) eff\<close> of
  theory Prelude: from a state to a result, \<open>Inl\<close> an exception or \<open>Inr\<close> a value, and a state; the state is
  returned on exceptions too, because Python keeps the effects made before a raise. \<open>bindE\<close>,
  \<open>thenE\<close>, \<open>tryE\<close> and \<open>raiseE\<close> are sequence, \<open>try\<close> and \<open>raise\<close>. A definition has the name of the function or field it models. A process
  is a record; the records extend one another (\<open>env\<close>, \<open>api\<close>, \<open>server\<close>, \<open>app\<close>; \<open>ml_env\<close>, \<open>worker\<close>), so that an operation
  works in every process that has its part of the state. Clock readings, new identifiers, random
  choices and what other tasks do at an \<open>await\<close> are arguments.

  \<^bold>\<open>What is not under the repository is a parameter.\<close> Redis is \<open>R\<close>, one function that runs a list of
  commands as a transaction; \<open>redis_ok\<close> says that a call that returns did what the commands are
  documented to do and that one that raises did it or did nothing, \<open>redis_up\<close> that every call returns (RedisClient). The
  database is \<open>D\<close>, a function that runs a statement; \<open>sql_ok\<close> says the same of it, with other clients at work between the statements,
  and \<open>sql_up\<close> that nothing fails (SqlClient). Both have instances that work (\<open>mem_redis\<close>, \<open>mem_sql\<close>) and instances that fail as a script
  says (\<open>sim_redis\<close>, \<open>sim_sql\<close>), on which the hypotheses of the properties are discharged. scikit-learn, joblib and hashlib are the
  record \<open>ml\<close> (IsolationEngine); the HTTP client and the stop event of the agent, and the file system it reads, are arguments
  (AgentSender, AgentWatcher). The standard library is modelled where the code rests on it: binary64 floats with their rounding (PyFloat), strings and
  JSON values (PyText), dates and their ISO texts in both directions (PyTime, PyIso), UUIDs (PyUuid), and a
  backtracking matcher for the regular expressions (PyRegex).

  \<^bold>\<open>The theories, by part.\<close>
  \<^item> \<open>app/config.py\<close>: Settings.
  \<^item> \<open>app/services/queue_service.py\<close>: QueueService has every operation on the three lists. QueueDelivery proves that no operation but
    \<open>acknowledge\<close> takes a payload out of the lists and where a crash can; QueueMachine has the invariant of the queue as a state
    machine over failing steps; QueueFifo the refinement of a bounded FIFO queue. The subscriber is in DashboardEvents.
  \<^item> \<open>app/metrics.py\<close>: Counters; Metrics (the cached aggregate, with the interleavings of its callers); Timeseries.
  \<^item> Detection: RuleEngine, ProfileStore, StatisticalEngine, ScoringEngine, BaselineStore, IsolationEngine, one for each file of \<open>app/services\<close>; SlidingWindow is what the
    burst tracker and the profile store have in common; ModelLifecycle has the retraining tasks, cut at their \<open>await\<close>s, in all interleavings.
  \<^item> \<open>app/models\<close>, \<open>app/schemas\<close>, \<open>app/services/log_service.py\<close>, \<open>app/api/logs.py\<close>: SqlClient (tables, constraints, statements), LogSchema, LogService;
    Ingestion has what the endpoint leaves behind on every failure, ApiEffects what it leaves alone.
  \<^item> \<open>app/workers/alert_worker.py\<close>: AlertWorker; WorkerSafety (what is learned, what is acknowledged), WorkerRounds (whole rounds, and how a round loses a
    message), WorkerDrain (the retries end), StartupSweep, Frames (what the queue operations leave alone), and Settlement (from the API to the decision).
  \<^item> API and worker together: SystemMachine, a step relation over the queue and the database they share (posts, rounds, crashes of the worker,
    starts, pieces of the retraining, heartbeats, events, in every order); SystemEffects has what each operation does to the two stores, with the rules of
    Preserve that carry such a relation through sequences and handlers.
  \<^item> Read endpoints and dashboards: AlertsApi, HealthApi, IpProfileApi, Realtime (\<open>app/realtime\<close>, the websocket endpoint), DashboardEvents, Application
    (\<open>app/main.py\<close>, \<open>app/redis_pool.py\<close>), AccessControl (keys, the production gate, request identifiers),
    LoggingConfig (the JSON lines of the logging).
  \<^item> \<open>sentinel-agent\<close>: AgentConfig, AgentParser, AgentWatcher, AgentSender; AgentToApi joins the sender to the API, AgentPipeline the
    watcher, the parser, the sender and the API.

  \<^bold>\<open>Interfaces.\<close> The locales state what one part asks of another: \<open>bounded_fifo\<close> (interpreted by the queue in Redis and by the queue of
  a dashboard), the sliding window of SlidingWindow (by the burst tracker and by both windows of the profile store), \<open>retry_backoff\<close> of Backoff (by the
  sender of the agent and by the event listener), \<open>answering_redis\<close>, the log service that AgentToApi gives to the sender, and \<open>kept\<close> of
  Preserve (by the relations of ApiEffects and SystemEffects).

  \<^bold>\<open>What the properties say.\<close> They carry identifiers C1 to C40, in the order of their importance. Nothing is lost: what the agent reads ends in the database, is
  refused, or is given up at the stop; what the API accepts is in the database and in the queue; a message leaves the queue only when its log is
  decided, in every run of the system, and every accepted log is decided once the queue has drained; the sweep marks only what it queued. Things end: the queue drains in three rounds for each message, and each failed message is
  among the dead letters. State stays well-formed: retry counts, the flag of the retraining, the ring buffer and its quota, the windows, the queues of the dashboards,
  the cache of the metrics. The read endpoints show what is there. And where the code does not do what it means
  to, the property says exactly what it does: a round that loses a message, a restoration that never restores, a model that is
  never retrained, a flush that sends nothing, a failed check that skips lines.

  \<^bold>\<open>Bounds.\<close> Loops of the program that run until a shutdown (worker, agent, listener, metrics loop, watcher) are given the readings of their rounds as a list and
  end with it; the statements hold for every list. The one bound that is proved is that of WorkerDrain: \<open>3 * n\<close> rounds for \<open>n\<close> messages, because
  \<open>MAX_RETRIES\<close> is 3 and each round with a message takes an attempt from one. The stop event of the sender is a number of checks before it is set, and the loop of a
  flush ends with them. The regular expressions need no fuel: the matcher recurs on the expression and on counts bounded by the text.

  \<^bold>\<open>Floats and numbers.\<close> Python's integers are \<open>int\<close>; its floats are the rationals that \<open>fl\<close> rounds to, without overflow, infinities and NaN, which the code never
  computes from the values it has. Times of Unix and of the monotonic clock are such floats; dates are integer microseconds.

  \<^bold>\<open>Not modelled.\<close> Configuration of libraries: the creation of the engine and of the tables, the registration of routers and middleware, CORS, the rate
  limit (slowapi), the output of \<open>logging\<close>, reading the environment (pydantic-settings) and YAML. Signals and the start of threads and tasks;
  their bodies are modelled. In SystemMachine the operations of API and worker do not overlap in time (the interleaving of other clients between
  statements is in the properties about single operations, through \<open>sql_ok\<close>), and a crash does not strike between the two calls that
  move a failed message: that one does lose it, which is a property of its own. The order that SQL leaves open between rows with equal keys (here that of the table), and the digits
  PostgreSQL keeps of an average of \<open>numeric\<close> values (here it is exact). The expiry of keys in Redis is recorded and time does not pass in
  the model of the server. \<open>scripts/Log_Gen.py\<close> writes random test data with the faker library and is no part of the system; the frontend is
  written in TypeScript.
\<close>

end
